(* ===== verification/Prelude.thy ===== *)
theory Prelude
  imports Main "HOL-Library.AList" "HOL-Library.List_Lexorder" "HOL-Library.Char_ord"
begin

text \<open>
  Shared vocabulary of the development: the JavaScript containers the program is written
  with (insertion-ordered \<^verbatim>\<open>Map\<close> and \<^verbatim>\<open>Set\<close>), decimal strings and
  \<^verbatim>\<open>padStart\<close>, and the interface of a keyed store and of a FIFO buffer that several
  components rely on.

  A JavaScript \<^verbatim>\<open>Map\<close> iterates in insertion order and \<^verbatim>\<open>set\<close> on a present key keeps
  its position: this is an association list under \<^const>\<open>AList.update\<close> and
  \<^const>\<open>AList.delete\<close>. A \<^verbatim>\<open>Set\<close> is a list without repetition, extended at its end.
\<close>

named_theorems js_defs "definitions of the operations, unfolded in component proofs"

section \<open>Maps and sets with insertion order\<close>

type_synonym ('k, 'v) jmap = "('k \<times> 'v) list"

type_synonym peer_id = string
type_synonym topic_name = string
type_synonym time = int

text \<open>What a handler can throw; a result \<open>js_error + 'a\<close> has the exception on the left.\<close>

datatype js_error = Type_Error | Syntax_Error | Crypto_Error | Addon_Error

abbreviation map_get :: "('k, 'v) jmap \<Rightarrow> 'k \<Rightarrow> 'v option" where
  "map_get m k \<equiv> map_of m k"

abbreviation map_has :: "('k, 'v) jmap \<Rightarrow> 'k \<Rightarrow> bool" where
  "map_has m k \<equiv> map_of m k \<noteq> None"

abbreviation map_set :: "('k, 'v) jmap \<Rightarrow> 'k \<Rightarrow> 'v \<Rightarrow> ('k, 'v) jmap" where
  "map_set m k v \<equiv> AList.update k v m"

abbreviation map_delete :: "('k, 'v) jmap \<Rightarrow> 'k \<Rightarrow> ('k, 'v) jmap" where
  "map_delete m k \<equiv> AList.delete k m"

abbreviation map_keys :: "('k, 'v) jmap \<Rightarrow> 'k list" where
  "map_keys m \<equiv> map fst m"

definition map_ok :: "('k, 'v) jmap \<Rightarrow> bool" where
  "map_ok m \<longleftrightarrow> distinct (map fst m)"

definition set_add :: "'a list \<Rightarrow> 'a \<Rightarrow> 'a list" where
  "set_add s x = (if x \<in> set s then s else s @ [x])"

definition set_delete :: "'a list \<Rightarrow> 'a \<Rightarrow> 'a list" where
  "set_delete s x = filter (\<lambda>y. y \<noteq> x) s"

definition set_of_array :: "'a list \<Rightarrow> 'a list" where
  "set_of_array xs = foldl set_add [] xs"

lemma map_ok_Nil [simp]: "map_ok []"
  by (simp add: map_ok_def)

lemma map_ok_set [simp, intro]: "map_ok m \<Longrightarrow> map_ok (map_set m k v)"
  by (simp add: map_ok_def distinct_update)

lemma map_ok_delete [simp, intro]: "map_ok m \<Longrightarrow> map_ok (map_delete m k)"
  by (simp add: map_ok_def distinct_delete)

lemma map_ok_filter [simp, intro]: "map_ok m \<Longrightarrow> map_ok (filter P m)"
  by (simp add: map_ok_def distinct_map_filter)

lemma map_get_set: "map_get (map_set m k v) k' = (if k' = k then Some v else map_get m k')"
  by (simp add: update_conv')

lemma map_get_delete: "map_get (map_delete m k) k' = (if k' = k then None else map_get m k')"
  by (simp add: delete_conv')

lemma map_get_in: "map_get m k = Some v \<Longrightarrow> (k, v) \<in> set m"
  by (rule map_of_SomeD)

lemma map_ok_get_iff: "map_ok m \<Longrightarrow> (k, v) \<in> set m \<longleftrightarrow> map_get m k = Some v"
  by (simp add: map_ok_def)

lemma map_keys_set: "map_ok m \<Longrightarrow> set (map_keys (map_set m k v)) = insert k (set (map_keys m))"
  by (simp add: dom_update image_set [symmetric])

lemma length_map_set:
  "length (map_set m k v) = (if map_has m k then length m else Suc (length m))"
  by (induction m) auto

lemma length_map_delete: "length (map_delete m k) \<le> length m"
  by (rule length_delete_le)

lemma set_map_set: "set (map_set m k v) \<subseteq> insert (k, v) (set m)"
  by (induction m) auto

lemma set_map_delete: "set (map_delete m k) \<subseteq> set m"
  by (auto simp: AList.delete_eq)

lemma set_set_add [simp]: "set (set_add s x) = insert x (set s)"
  by (auto simp: set_add_def)

lemma distinct_set_add [simp]: "distinct (set_add s x) = distinct s"
  by (simp add: set_add_def)

lemma length_set_add: "length (set_add s x) = (if x \<in> set s then length s else Suc (length s))"
  by (simp add: set_add_def)

lemma set_set_delete [simp]: "set (set_delete s x) = set s - {x}"
  by (auto simp: set_delete_def)

lemma distinct_set_delete [simp]: "distinct s \<Longrightarrow> distinct (set_delete s x)"
  by (simp add: set_delete_def)

lemma set_foldl_set_add: "set (foldl set_add s xs) = set s \<union> set xs"
  by (induction xs arbitrary: s) auto

lemma distinct_foldl_set_add: "distinct (foldl set_add s xs) = distinct s"
  by (induction xs arbitrary: s) auto

lemma set_set_of_array [simp]: "set (set_of_array xs) = set xs"
  by (simp add: set_of_array_def set_foldl_set_add)

lemma distinct_set_of_array [simp]: "distinct (set_of_array xs)"
  by (simp add: set_of_array_def distinct_foldl_set_add)

lemma foldl_set_add_distinct: "distinct (s @ xs) \<Longrightarrow> foldl set_add s xs = s @ xs"
  by (induction xs arbitrary: s) (auto simp: set_add_def)

lemma set_of_array_distinct: "distinct xs \<Longrightarrow> set_of_array xs = xs"
  by (simp add: set_of_array_def foldl_set_add_distinct)

section \<open>The keyed-store interface\<close>

text \<open>
  What the components rely on when they keep their state in a \<^verbatim>\<open>Map\<close>: a write is read
  back, other keys keep their value, a deleted key is gone, and the keys are listed once.
\<close>

locale keyed_store =
  fixes get :: "'m \<Rightarrow> 'k \<Rightarrow> 'v option"
    and put :: "'m \<Rightarrow> 'k \<Rightarrow> 'v \<Rightarrow> 'm"
    and del :: "'m \<Rightarrow> 'k \<Rightarrow> 'm"
    and keys :: "'m \<Rightarrow> 'k list"
    and ok :: "'m \<Rightarrow> bool"
  assumes get_put: "get (put m k v) k' = (if k' = k then Some v else get m k')"
    and get_del: "get (del m k) k' = (if k' = k then None else get m k')"
    and keys_get: "k \<in> set (keys m) \<longleftrightarrow> get m k \<noteq> None"
    and ok_put: "ok m \<Longrightarrow> ok (put m k v)"
    and ok_del: "ok m \<Longrightarrow> ok (del m k)"
    and ok_keys: "ok m \<Longrightarrow> distinct (keys m)"
begin

lemma read_your_write: "get (put m k v) k = Some v"
  by (simp add: get_put)

lemma frame_put: "k' \<noteq> k \<Longrightarrow> get (put m k v) k' = get m k'"
  by (simp add: get_put)

lemma frame_del: "k' \<noteq> k \<Longrightarrow> get (del m k) k' = get m k'"
  by (simp add: get_del)

lemma put_put: "get (put (put m k v) k w) k' = get (put m k w) k'"
  by (simp add: get_put)

lemma keys_put: "set (keys (put m k v)) = insert k (set (keys m))"
  by (auto simp: keys_get get_put split: if_splits)

lemma keys_del: "set (keys (del m k)) = set (keys m) - {k}"
  by (auto simp: keys_get get_del split: if_splits)

lemma card_keys: "ok m \<Longrightarrow> card (set (keys m)) = length (keys m)"
  by (simp add: ok_keys distinct_card)

lemma size_put:
  assumes "ok m"
  shows "length (keys (put m k v)) = (if get m k = None then Suc (length (keys m)) else length (keys m))"
proof -
  have "length (keys (put m k v)) = card (insert k (set (keys m)))"
    using card_keys [OF ok_put [OF assms]] by (simp add: keys_put)
  also have "\<dots> = (if k \<in> set (keys m) then card (set (keys m)) else Suc (card (set (keys m))))"
    by (simp add: card_insert_if)
  finally show ?thesis
    by (simp add: keys_get card_keys [OF assms])
qed

lemma size_del_le: "ok m \<Longrightarrow> length (keys (del m k)) \<le> length (keys m)"
  using card_mono [of "set (keys m)" "set (keys (del m k))"]
  by (simp add: keys_del card_keys ok_del flip: card_keys)

end

interpretation jm: keyed_store map_of "\<lambda>m k v. AList.update k v m" "\<lambda>m k. AList.delete k m" "map fst" map_ok
  by unfold_locales
    (auto simp: update_conv' delete_conv' map_of_eq_None_iff image_image map_ok_def
       distinct_update distinct_delete)

section \<open>The FIFO-buffer interface\<close>

text \<open>
  A buffer that a component pushes messages to and drains later: what is drained is what
  was pushed, oldest first, up to what the buffer drops when it is full.
\<close>

locale fifo_buffer =
  fixes contents :: "'b \<Rightarrow> 'a list"
    and push :: "'b \<Rightarrow> 'a \<Rightarrow> 'b"
    and ok :: "'b \<Rightarrow> bool"
    and overflow :: "nat \<Rightarrow> nat"
  assumes contents_push:
    "ok b \<Longrightarrow> contents (push b x) = drop (overflow (Suc (length (contents b)))) (contents b @ [x])"
    and ok_push: "ok b \<Longrightarrow> ok (push b x)"
begin

lemma ok_push_all: "ok b \<Longrightarrow> ok (foldl push b xs)"
  by (induction xs arbitrary: b) (auto simp: ok_push)

text \<open>Whatever is dropped, the contents stay a suffix of everything pushed: order is kept.\<close>

lemma contents_push_all_suffix:
  "ok b \<Longrightarrow> \<exists>d. contents (foldl push b xs) = drop d (contents b @ xs)"
proof (induction xs arbitrary: b)
  case Nil
  then show ?case by (metis append_Nil2 drop0 foldl_Nil)
next
  case (Cons x xs)
  let ?k = "min (overflow (Suc (length (contents b)))) (Suc (length (contents b)))"
  obtain d where d: "contents (foldl push (push b x) xs) = drop d (contents (push b x) @ xs)"
    using Cons ok_push by blast
  have "contents (push b x) = drop ?k (contents b @ [x])"
    by (simp only: contents_push [OF Cons.prems]) (simp add: min_def)
  then have "contents (push b x) @ xs = drop ?k ((contents b @ [x]) @ xs)"
    by (simp only: drop_append) simp
  then have "contents (push b x) @ xs = drop ?k (contents b @ x # xs)"
    by simp
  with d show ?case by (metis drop_drop foldl_Cons)
qed

end

locale unbounded_fifo = fifo_buffer +
  assumes never_drops: "overflow n = 0"
begin

lemma contents_push_all: "ok b \<Longrightarrow> contents (foldl push b xs) = contents b @ xs"
  by (induction xs arbitrary: b) (simp_all add: contents_push ok_push never_drops)

end

locale bounded_fifo = fifo_buffer +
  fixes cap :: nat
  assumes drop_full: "overflow n = n - cap"
begin

lemma length_push: "ok b \<Longrightarrow> length (contents b) \<le> cap \<Longrightarrow> length (contents (push b x)) \<le> cap"
  by (simp add: contents_push drop_full)

lemma contents_push_all:
  "ok b \<Longrightarrow> length (contents b) \<le> cap \<Longrightarrow>
    contents (foldl push b xs) = drop (length (contents b) + length xs - cap) (contents b @ xs)"
proof (induction xs arbitrary: b)
  case Nil
  then show ?case by simp
next
  case (Cons x xs)
  let ?c = "contents b"
  have len: "length (contents (push b x)) \<le> cap"
    using Cons.prems by (rule length_push)
  have c: "contents (push b x) = drop (Suc (length ?c) - cap) (?c @ [x])"
    using Cons.prems by (simp add: contents_push drop_full)
  have cx: "contents (push b x) @ xs = drop (Suc (length ?c) - cap) (?c @ x # xs)"
    using drop_append [of "Suc (length ?c) - cap" "?c @ [x]" xs] by (simp add: c del: drop_append)
  have "contents (foldl push (push b x) xs) =
      drop (length (contents (push b x)) + length xs - cap) (contents (push b x) @ xs)"
    by (rule Cons.IH [OF ok_push [OF Cons.prems(1)] len])
  also have "\<dots> = drop (length ?c + Suc (length xs) - cap) (?c @ x # xs)"
  proof -
    have "length (contents (push b x)) = Suc (length ?c) - (Suc (length ?c) - cap)"
      by (simp add: c)
    then have "length (contents (push b x)) + length xs - cap + (Suc (length ?c) - cap) =
        length ?c + Suc (length xs) - cap"
      using Cons.prems by linarith
    then show ?thesis by (simp only: cx drop_drop)
  qed
  finally show ?case by simp
qed

end

section \<open>Decimal strings\<close>

text \<open>\<^verbatim>\<open>String(n)\<close> of a non-negative integer, and the number a digit string denotes.\<close>

definition digit_char :: "nat \<Rightarrow> char" where
  "digit_char d = char_of (48 + d)"

definition digit_val :: "char \<Rightarrow> nat" where
  "digit_val c = of_char c - 48"

definition is_digit :: "char \<Rightarrow> bool" where
  "is_digit c \<longleftrightarrow> 48 \<le> (of_char c :: nat) \<and> (of_char c :: nat) \<le> 57"

fun show_nat :: "nat \<Rightarrow> string" where
  "show_nat n = (if n < 10 then [digit_char n] else show_nat (n div 10) @ [digit_char (n mod 10)])"

declare show_nat.simps [simp del]

fun read_nat :: "nat \<Rightarrow> string \<Rightarrow> nat" where
  "read_nat acc [] = acc"
| "read_nat acc (c # cs) = read_nat (10 * acc + digit_val c) cs"

definition padStart :: "nat \<Rightarrow> char \<Rightarrow> string \<Rightarrow> string" where
  "padStart n c s = replicate (n - length s) c @ s"

lemma digit_val_char [simp]: "d < 10 \<Longrightarrow> digit_val (digit_char d) = d"
  by (simp add: digit_val_def digit_char_def)

lemma is_digit_char [simp]: "d < 10 \<Longrightarrow> is_digit (digit_char d)"
  by (simp add: is_digit_def digit_char_def)

lemma is_digit_zero [simp]: "is_digit (CHR ''0'')"
  by (simp add: is_digit_def)

lemma digit_val_zero [simp]: "digit_val (CHR ''0'') = 0"
  by (simp add: digit_val_def)

lemma digit_val_less: "is_digit c \<Longrightarrow> digit_val c < 10"
  by (auto simp: is_digit_def digit_val_def)

lemma digit_chars:
  "digit_char 0 = CHR ''0''" "digit_char 1 = CHR ''1''" "digit_char 2 = CHR ''2''"
  "digit_char 3 = CHR ''3''" "digit_char 4 = CHR ''4''" "digit_char 5 = CHR ''5''"
  "digit_char 6 = CHR ''6''" "digit_char 7 = CHR ''7''" "digit_char 8 = CHR ''8''"
  "digit_char 9 = CHR ''9''"
  by code_simp+

lemmas show_nat_eval = show_nat.simps digit_chars

lemma show_nat_digits: "list_all is_digit (show_nat n)"
proof (induction n rule: show_nat.induct)
  case (1 n)
  then show ?case by (subst show_nat.simps) auto
qed

lemma show_nat_nonempty [simp]: "show_nat n \<noteq> []"
  by (subst show_nat.simps) simp

lemma read_nat_append: "read_nat a (s @ t) = read_nat (read_nat a s) t"
  by (induction s arbitrary: a) auto

lemma read_show_nat [simp]: "read_nat 0 (show_nat n) = n"
proof (induction n rule: show_nat.induct)
  case (1 n)
  then show ?case by (subst show_nat.simps) (auto simp: read_nat_append)
qed

lemma show_nat_inj: "show_nat m = show_nat n \<Longrightarrow> m = n"
  by (metis read_show_nat)

lemma show_nat_length: "n < 10 ^ k \<Longrightarrow> 0 < k \<Longrightarrow> length (show_nat n) \<le> k"
proof (induction n arbitrary: k rule: show_nat.induct)
  case (1 n)
  show ?case
  proof (cases "n < 10")
    case True
    then show ?thesis using "1.prems" by (subst show_nat.simps) simp
  next
    case False
    then obtain k' where k': "k = Suc k'" "0 < k'"
      using "1.prems" by (cases k; cases "k - 1") auto
    then have "n div 10 < 10 ^ k'" using "1.prems"(1) by (simp add: less_mult_imp_div_less mult.commute)
    with "1.IH" False k' have "length (show_nat (n div 10)) \<le> k'" by blast
    then show ?thesis using False k' by (subst show_nat.simps) simp
  qed
qed

lemma read_nat_acc: "read_nat a s = a * 10 ^ length s + read_nat 0 s"
proof (induction s arbitrary: a)
  case Nil
  then show ?case by simp
next
  case (Cons c s)
  show ?case
    using Cons.IH [of "10 * a + digit_val c"] Cons.IH [of "digit_val c"]
    by (simp add: algebra_simps)
qed

lemma read_nat_bound: "list_all is_digit s \<Longrightarrow> read_nat 0 s < 10 ^ length s"
proof (induction s)
  case Nil
  then show ?case by simp
next
  case (Cons c s)
  then have "digit_val c < 10" by (simp add: digit_val_less)
  moreover have "read_nat 0 s < 10 ^ length s" using Cons by simp
  ultimately have "digit_val c * 10 ^ length s + read_nat 0 s < Suc (digit_val c) * 10 ^ length s"
    by simp
  also have "\<dots> \<le> 10 * 10 ^ length s"
    using \<open>digit_val c < 10\<close> by (intro mult_right_mono) auto
  finally show ?case using read_nat_acc [of "digit_val c" s] by simp
qed

lemma read_nat_pad: "read_nat 0 (padStart n (CHR ''0'') s) = read_nat 0 s"
proof -
  have "read_nat 0 (replicate k (CHR ''0'')) = 0" for k
    by (induction k) auto
  then show ?thesis by (simp add: padStart_def read_nat_append)
qed

lemma padStart_digits: "list_all is_digit s \<Longrightarrow> list_all is_digit (padStart n (CHR ''0'') s)"
  by (auto simp: padStart_def list_all_iff)

lemma length_padStart: "length (padStart n c s) = max n (length s)"
  by (auto simp: padStart_def)

section \<open>Lexicographic order of digit strings\<close>

lemma is_digit_less:
  "is_digit c \<Longrightarrow> is_digit d \<Longrightarrow> digit_val c < digit_val d \<Longrightarrow> c < d"
  by (auto simp: is_digit_def digit_val_def less_char_def)

lemma digit_val_inj: "is_digit c \<Longrightarrow> is_digit d \<Longrightarrow> digit_val c = digit_val d \<Longrightarrow> c = d"
proof -
  assume "is_digit c" "is_digit d" "digit_val c = digit_val d"
  then have "(of_char c :: nat) = of_char d"
    unfolding is_digit_def digit_val_def by linarith
  then show "c = d" by simp
qed

text \<open>Digit strings of one length compare as the numbers they denote.\<close>

lemma digits_less_lex:
  "length s = length t \<Longrightarrow> list_all is_digit s \<Longrightarrow> list_all is_digit t \<Longrightarrow>
    read_nat 0 s < read_nat 0 t \<Longrightarrow> s < (t :: string)"
proof (induction s t rule: list_induct2)
  case Nil
  then show ?case by simp
next
  case (Cons c s d t)
  have c: "read_nat 0 (c # s) = digit_val c * 10 ^ length s + read_nat 0 s"
    and d: "read_nat 0 (d # t) = digit_val d * 10 ^ length s + read_nat 0 t"
    using read_nat_acc [of "digit_val c" s] read_nat_acc [of "digit_val d" t] Cons.hyps by auto
  have bt: "read_nat 0 t < 10 ^ length s" using read_nat_bound [of t] Cons by simp
  consider "digit_val c < digit_val d" | "digit_val c = digit_val d" | "digit_val d < digit_val c"
    by linarith
  then show ?case
  proof cases
    case 1
    then show ?thesis using Cons.prems by (simp add: is_digit_less)
  next
    case 2
    then have "c = d" using Cons.prems by (simp add: digit_val_inj)
    moreover have "s < t" using 2 c d Cons by simp
    ultimately show ?thesis by simp
  next
    case 3
    then have "Suc (digit_val d) * 10 ^ length s \<le> digit_val c * 10 ^ length s"
      by (intro mult_right_mono) auto
    then have "read_nat 0 (d # t) < read_nat 0 (c # s)" using c d bt by simp
    with Cons.prems show ?thesis by simp
  qed
qed

lemma lex_append_less: "length s = length t \<Longrightarrow> s < t \<Longrightarrow> s @ u < (t @ v :: string)"
  by (induction s t rule: list_induct2) auto

lemma lex_append_cancel [simp]: "(p @ s < p @ t) = (s < (t :: string))"
  by (induction p) auto

lemma lex_append_cancel_le [simp]: "(p @ s \<le> p @ t) = (s \<le> (t :: string))"
  by (induction p) auto

end
