(* ===== verification/Collector.thy ===== *)
theory Collector
  imports Prelude Complex_Main
begin

text \<open>
  The metrics store of \<^verbatim>\<open>metrics/collector.js\<close>: counters, gauges and histograms with a
  bounded reservoir of samples. Recorded values are whole milliseconds. \<^verbatim>\<open>Math.random\<close> is
  an argument \<open>r\<close>, a number of the unit interval; the percentile index is computed in exact
  arithmetic where the code computes it in doubles.
\<close>

definition RESERVOIR_SIZE :: nat where "RESERVOIR_SIZE = 1000"

record histogram =
  samples :: "int list"
  sample_count :: nat

record collector =
  counters :: "(string, int) jmap"
  gauges :: "(string, int) jmap"
  histograms :: "(string, histogram) jmap"

definition collector_init :: collector where
  "collector_init = \<lparr>counters = [], gauges = [], histograms = []\<rparr>"

definition counter :: "collector \<Rightarrow> string \<Rightarrow> int" where
  "counter c name = (case map_get (counters c) name of None \<Rightarrow> 0 | Some v \<Rightarrow> v)"

definition increment_by :: "string \<Rightarrow> int \<Rightarrow> collector \<Rightarrow> collector" where
  "increment_by name v c = c\<lparr>counters := map_set (counters c) name (counter c name + v)\<rparr>"

definition increment :: "string \<Rightarrow> collector \<Rightarrow> collector" where
  "increment name = increment_by name 1"

definition set_gauge :: "string \<Rightarrow> int \<Rightarrow> collector \<Rightarrow> collector" where
  "set_gauge name v c = c\<lparr>gauges := map_set (gauges c) name v\<rparr>"

definition record_sample :: "rat \<Rightarrow> string \<Rightarrow> int \<Rightarrow> collector \<Rightarrow> collector" where
  "record_sample r name v c =
    (let h = (case map_get (histograms c) name of
                None \<Rightarrow> \<lparr>samples = [], sample_count = 0\<rparr> | Some h \<Rightarrow> h);
         h = h\<lparr>sample_count := Suc (sample_count h)\<rparr>;
         h = (if length (samples h) < RESERVOIR_SIZE then h\<lparr>samples := samples h @ [v]\<rparr>
              else let i = nat \<lfloor>r * of_nat (sample_count h)\<rfloor> in
                if i < RESERVOIR_SIZE then h\<lparr>samples := (samples h)[i := v]\<rparr> else h)
     in c\<lparr>histograms := map_set (histograms c) name h\<rparr>)"

record percentiles =
  p50 :: int
  p95 :: int
  p99 :: int

definition get_percentile :: "int list \<Rightarrow> nat \<Rightarrow> int" where
  "get_percentile sorted_samples p = sorted_samples ! (p * (length sorted_samples - 1) div 100)"

definition calculatePercentiles :: "int list \<Rightarrow> percentiles" where
  "calculatePercentiles xs =
    (if length xs = 0 then \<lparr>p50 = 0, p95 = 0, p99 = 0\<rparr>
     else let s = sort xs in
       \<lparr>p50 = get_percentile s 50, p95 = get_percentile s 95, p99 = get_percentile s 99\<rparr>)"

record snapshot =
  snap_counters :: "(string, int) jmap"
  snap_gauges :: "(string, int) jmap"
  snap_histograms :: "(string, percentiles \<times> nat) jmap"

definition getSnapshot :: "collector \<Rightarrow> snapshot" where
  "getSnapshot c = \<lparr>snap_counters = counters c, snap_gauges = gauges c,
     snap_histograms =
       map (\<lambda>(name, h). (name, calculatePercentiles (samples h), sample_count h)) (histograms c)\<rparr>"

section \<open>Counters and gauges\<close>

lemma counter_init [simp]: "counter collector_init n = 0"
  by (simp add: counter_def collector_init_def)

lemma counter_increment_by [simp]:
  "counter (increment_by n v c) m = counter c m + (if m = n then v else 0)"
  by (simp add: counter_def increment_by_def map_get_set)

lemma counter_increment [simp]:
  "counter (increment n c) m = counter c m + (if m = n then 1 else 0)"
  by (simp add: increment_def)

lemma counter_set_gauge [simp]: "counter (set_gauge n v c) m = counter c m"
  by (simp add: counter_def set_gauge_def)

lemma counter_record_sample [simp]: "counter (record_sample r n v c) m = counter c m"
  by (simp add: counter_def record_sample_def Let_def)

lemma gauge_set_gauge: "map_get (gauges (set_gauge n v c)) n = Some v"
  by (simp add: set_gauge_def jm.read_your_write)

section \<open>The reservoir\<close>

definition histogram_ok :: "histogram \<Rightarrow> bool" where
  "histogram_ok h \<longleftrightarrow> length (samples h) = min (sample_count h) RESERVOIR_SIZE"

definition collector_ok :: "collector \<Rightarrow> bool" where
  "collector_ok c \<longleftrightarrow> map_ok (histograms c) \<and> (\<forall>h \<in> snd ` set (histograms c). histogram_ok h)"

lemma collector_ok_init: "collector_ok collector_init"
  by (simp add: collector_ok_def collector_init_def)

lemma collector_ok_get: "collector_ok c \<Longrightarrow> map_get (histograms c) n = Some h \<Longrightarrow> histogram_ok h"
  by (force simp: collector_ok_def dest: map_get_in)

lemma collector_ok_put:
  "collector_ok c \<Longrightarrow> histogram_ok h \<Longrightarrow> collector_ok (c\<lparr>histograms := map_set (histograms c) n h\<rparr>)"
  using set_map_set [of n h "histograms c"] by (force simp: collector_ok_def)

lemma record_sample_ok: "collector_ok c \<Longrightarrow> collector_ok (record_sample r n v c)"
  unfolding record_sample_def Let_def
  by (rule collector_ok_put)
    (auto simp: histogram_ok_def RESERVOIR_SIZE_def split: option.splits dest!: collector_ok_get)

text \<open>
  Recording a sample keeps every histogram's reservoir at exactly
  min(number of samples recorded, 1000) values: memory stays bounded however many samples
  are recorded, and no sample is lost before the bound is reached.
\<close>

theorem reservoir_bounded:
  assumes "collector_ok c"
    and "map_get (histograms (record_sample r n v c)) m = Some h"
  shows "length (samples h) = min (sample_count h) 1000"
  using collector_ok_get [OF record_sample_ok [OF assms(1)] assms(2)]
  by (simp add: histogram_ok_def RESERVOIR_SIZE_def)

theorem reservoir_bounded_witness:
  "\<exists>h. map_get (histograms (record_sample (1/2) ''lat'' 7 collector_init)) ''lat'' = Some h
     \<and> length (samples h) = min (sample_count h) 1000"
proof -
  let ?h = "\<lparr>samples = [7], sample_count = 1\<rparr>"
  have h: "map_get (histograms (record_sample (1/2) ''lat'' 7 collector_init)) ''lat'' = Some ?h"
    by (simp add: record_sample_def collector_init_def RESERVOIR_SIZE_def)
  with reservoir_bounded [OF collector_ok_init h] show ?thesis by blast
qed

section \<open>Percentiles\<close>

lemma percentile_index: "p \<le> 100 \<Longrightarrow> xs \<noteq> [] \<Longrightarrow> p * (length xs - 1) div 100 < length xs"
proof -
  assume p: "p \<le> 100" and "xs \<noteq> []"
  then have "p * (length xs - 1) \<le> 100 * (length xs - 1)" by simp
  then have "p * (length xs - 1) div 100 \<le> length xs - 1" by linarith
  with \<open>xs \<noteq> []\<close> show ?thesis by (cases xs) auto
qed

lemma percentile_in: "p \<le> 100 \<Longrightarrow> xs \<noteq> [] \<Longrightarrow> get_percentile (sort xs) p \<in> set xs"
  using percentile_index [of p xs] nth_mem [of _ "sort xs"]
  by (simp add: get_percentile_def)

lemma percentile_mono:
  assumes "p \<le> q" "q \<le> 100" "xs \<noteq> []"
  shows "get_percentile (sort xs) p \<le> get_percentile (sort xs) q"
  unfolding get_percentile_def
  using assms percentile_index [of q xs]
  by (intro sorted_nth_mono) (auto intro!: div_le_mono)

text \<open>
  The percentiles reported for a non-empty histogram are recorded samples, the index
  never leaves the sorted array, and they are ordered: p50 is at most p95, p95 at most p99,
  all between the smallest and the largest sample.
\<close>

theorem percentiles_ordered:
  assumes "xs \<noteq> []"
  shows "{p50 (calculatePercentiles xs), p95 (calculatePercentiles xs), p99 (calculatePercentiles xs)} \<subseteq> set xs
    \<and> p50 (calculatePercentiles xs) \<le> p95 (calculatePercentiles xs)
    \<and> p95 (calculatePercentiles xs) \<le> p99 (calculatePercentiles xs)"
  using assms by (simp add: calculatePercentiles_def Let_def percentile_in percentile_mono)

theorem percentiles_ordered_witness:
  "{p50 (calculatePercentiles [5, 1, 9]), p95 (calculatePercentiles [5, 1, 9]), p99 (calculatePercentiles [5, 1, 9])} \<subseteq> {5, 1, 9}
    \<and> p50 (calculatePercentiles [5, 1, 9]) \<le> p95 (calculatePercentiles [5, 1, 9])
    \<and> p95 (calculatePercentiles [5, 1, 9]) \<le> p99 (calculatePercentiles [5, 1, 9])"
  using percentiles_ordered [of "[5, 1, 9]"] by simp

end
