(* ===== verification/PendingQueue.thy ===== *)
theory PendingQueue
  imports Prelude
begin

text \<open>
  The per-peer FIFO of \<^verbatim>\<open>protocol/pendingQueue.js\<close>: messages wait for an offline peer, the
  oldest is dropped when the queue is full. It implements the bounded-FIFO interface for
  every peer, and peers do not interfere.
\<close>

record 'm pending_queue =
  queues :: "(peer_id, 'm list) jmap"
  maxQueueSize :: nat

definition pending_init :: "nat \<Rightarrow> 'm pending_queue" where
  "pending_init n = \<lparr>queues = [], maxQueueSize = n\<rparr>"

definition enqueue :: "peer_id \<Rightarrow> 'm \<Rightarrow> 'm pending_queue \<Rightarrow> 'm pending_queue" where
  "enqueue p m q =
    (let qs = (if map_has (queues q) p then queues q else map_set (queues q) p []);
         queue = (case map_get qs p of None \<Rightarrow> [] | Some xs \<Rightarrow> xs) @ [m];
         queue = (if length queue > maxQueueSize q then tl queue else queue)
     in q\<lparr>queues := map_set qs p queue\<rparr>)"

definition flush_queue :: "peer_id \<Rightarrow> 'm pending_queue \<Rightarrow> 'm list \<times> 'm pending_queue" where
  "flush_queue p q =
    (case map_get (queues q) p of
       Some msgs \<Rightarrow> (msgs, q\<lparr>queues := map_delete (queues q) p\<rparr>)
     | None \<Rightarrow> ([], q))"

definition waiting :: "peer_id \<Rightarrow> 'm pending_queue \<Rightarrow> 'm list" where
  "waiting p q = (case map_get (queues q) p of None \<Rightarrow> [] | Some xs \<Rightarrow> xs)"

definition pending_ok :: "'m pending_queue \<Rightarrow> bool" where
  "pending_ok q \<longleftrightarrow> map_ok (queues q) \<and> (\<forall>p. length (waiting p q) \<le> maxQueueSize q)"

lemma maxQueueSize_enqueue [simp]: "maxQueueSize (enqueue p m q) = maxQueueSize q"
  by (simp add: enqueue_def Let_def)

lemma waiting_enqueue:
  "waiting p (enqueue p' m q) =
    (if p = p' then (let xs = waiting p q @ [m] in if length xs > maxQueueSize q then tl xs else xs)
     else waiting p q)"
  by (auto simp: waiting_def enqueue_def Let_def map_get_set split: option.splits)

lemma waiting_flush:
  "fst (flush_queue p q) = waiting p q"
  "waiting p' (snd (flush_queue p q)) = (if p' = p then [] else waiting p' q)"
  by (auto simp: flush_queue_def waiting_def map_get_delete split: option.splits)

lemma enqueue_ok: "pending_ok q \<Longrightarrow> pending_ok (enqueue p m q)"
  unfolding pending_ok_def
  by (auto simp: waiting_enqueue Let_def) (auto simp: enqueue_def Let_def)

lemma flush_ok: "pending_ok q \<Longrightarrow> pending_ok (snd (flush_queue p q))"
proof -
  assume ok: "pending_ok q"
  have "map_ok (queues (snd (flush_queue p q)))"
    and "maxQueueSize (snd (flush_queue p q)) = maxQueueSize q"
    using ok by (auto simp: flush_queue_def pending_ok_def split: option.splits)
  then show ?thesis using ok by (simp add: pending_ok_def waiting_flush)
qed

section \<open>The queue as a bounded FIFO\<close>

lemma push_drop:
  "length xs \<le> n \<Longrightarrow>
    (if length (xs @ [m]) > n then tl (xs @ [m]) else xs @ [m]) = drop (Suc (length xs) - n) (xs @ [m])"
proof -
  assume "length xs \<le> n"
  then consider "length xs < n" | "n = length xs" by linarith
  then show ?thesis
  proof cases
    case 1
    then show ?thesis by simp
  next
    case 2
    then show ?thesis by (cases xs) simp_all
  qed
qed

lemma waiting_enqueue_drop:
  "pending_ok q \<Longrightarrow>
    waiting p (enqueue p m q) = drop (Suc (length (waiting p q)) - maxQueueSize q) (waiting p q @ [m])"
  using push_drop [of "waiting p q" "maxQueueSize q" m]
  by (simp add: waiting_enqueue Let_def pending_ok_def)

interpretation pq: bounded_fifo "waiting p" "\<lambda>q m. enqueue p m q"
    "\<lambda>q. pending_ok q \<and> maxQueueSize q = cap" "\<lambda>n. n - cap" cap for p cap
  by unfold_locales (auto simp: waiting_enqueue_drop enqueue_ok)

lemma pending_init_ok [simp]: "pending_ok (pending_init n)" "maxQueueSize (pending_init n) = n"
    "waiting p (pending_init n) = []"
  by (simp_all add: pending_init_def pending_ok_def waiting_def)

lemma waiting_other: "p \<noteq> p' \<Longrightarrow> waiting p' (foldl (\<lambda>q m. enqueue p m q) q ms) = waiting p' q"
  by (induction ms arbitrary: q) (auto simp: waiting_enqueue)

text \<open>
  Messages queued for an offline peer come out of flush oldest first; when more than
  maxQueueSize were queued, exactly the newest maxQueueSize are delivered, the queue is
  empty afterwards, and every other peer's queue is untouched.
\<close>

theorem flush_delivers_newest:
  assumes "ms = xs @ ys" "length ys = min n (length ms)" "p' \<noteq> p"
  shows "fst (flush_queue p (foldl (\<lambda>q m. enqueue p m q) (pending_init n) ms)) = ys
    \<and> waiting p (snd (flush_queue p (foldl (\<lambda>q m. enqueue p m q) (pending_init n) ms))) = []
    \<and> waiting p' (snd (flush_queue p (foldl (\<lambda>q m. enqueue p m q) (pending_init n) ms))) = []"
proof -
  have "waiting p (foldl (\<lambda>q m. enqueue p m q) (pending_init n) ms) = drop (length ms - n) ms"
    using pq.contents_push_all [of "pending_init n" n p ms] by simp
  also have "\<dots> = ys"
  proof -
    have "length ms - n = length xs" using assms by auto
    then show ?thesis using assms(1) by simp
  qed
  finally show ?thesis using assms(3) by (simp add: waiting_flush waiting_other)
qed

theorem flush_delivers_newest_witness:
  "fst (flush_queue ''p'' (foldl (\<lambda>q m. enqueue ''p'' m q) (pending_init 2) [1, 2, 3 :: nat])) = [2, 3]"
  using flush_delivers_newest [of "[1, 2, 3 :: nat]" "[1]" "[2, 3]" 2 "''q''" "''p''"] by simp

end
