(* ===== verification/Bytes.thy ===== *)
theory Bytes
  imports Prelude
begin

text \<open>
  What the program uses of Node's \<^verbatim>\<open>Buffer\<close>: the base64 and UTF-8 conversions. A buffer is
  a list of bytes, written as characters of code below 256. Text is restricted to code units
  below 256, so a unit takes one or two bytes in UTF-8. Base64 decoding skips characters
  outside the alphabet, accepts its URL-safe variant and stops at the padding, as Node does.
\<close>

type_synonym bytes = string

section \<open>Base64\<close>

definition b64_char :: "nat \<Rightarrow> char" where
  "b64_char d =
    (if d < 26 then char_of (65 + d) else if d < 52 then char_of (71 + d)
     else if d < 62 then char_of (d - 4) else if d = 62 then CHR ''+'' else CHR ''/'')"

definition b64_val :: "char \<Rightarrow> nat option" where
  "b64_val c = (let n = of_char c in
     if 65 \<le> n \<and> n \<le> 90 then Some (n - 65)
     else if 97 \<le> n \<and> n \<le> 122 then Some (n - 71)
     else if 48 \<le> n \<and> n \<le> 57 then Some (n + 4)
     else if n = 43 \<or> n = 45 then Some 62
     else if n = 47 \<or> n = 95 then Some 63 else None)"

definition pad_char :: char where "pad_char = CHR ''=''"

fun sextets :: "nat list \<Rightarrow> nat list" where
  "sextets [] = []"
| "sextets [a] = [a div 4, (a mod 4) * 16]"
| "sextets [a, b] = [a div 4, (a mod 4) * 16 + b div 16, (b mod 16) * 4]"
| "sextets (a # b # c # r) =
     [a div 4, (a mod 4) * 16 + b div 16, (b mod 16) * 4 + c div 64, c mod 64] @ sextets r"

fun octets :: "nat list \<Rightarrow> nat list" where
  "octets (x # y # z # w # r) =
     [x * 4 + y div 16, (y mod 16) * 16 + z div 4, (z mod 4) * 64 + w] @ octets r"
| "octets [x, y, z] = [x * 4 + y div 16, (y mod 16) * 16 + z div 4]"
| "octets [x, y] = [x * 4 + y div 16]"
| "octets _ = []"

definition b64_encode :: "bytes \<Rightarrow> string" where
  "b64_encode bs = map b64_char (sextets (map of_char bs)) @ replicate ((3 - length bs mod 3) mod 3) pad_char"

definition b64_decode :: "string \<Rightarrow> bytes" where
  "b64_decode s = map char_of (octets (List.map_filter b64_val (takeWhile (\<lambda>c. c \<noteq> pad_char) s)))"

lemma of_b64_char:
  "d < 64 \<Longrightarrow> of_char (b64_char d) =
    (if d < 26 then 65 + d else if d < 52 then 71 + d else if d < 62 then d - 4 else if d = 62 then 43 else 47 :: nat)"
  by (auto simp: b64_char_def of_char_of)

lemma b64_char_val: "d < 64 \<Longrightarrow> b64_val (b64_char d) = Some d"
  by (auto simp: b64_val_def of_b64_char Let_def)

lemma b64_char_not_pad: "d < 64 \<Longrightarrow> b64_char d \<noteq> pad_char"
proof
  assume d: "d < 64" and eq: "b64_char d = pad_char"
  have "of_char (b64_char d) = (61 :: nat)" by (simp add: eq pad_char_def)
  with of_b64_char [OF d] show False by (auto split: if_splits)
qed

lemma sextets_bound: "\<forall>b \<in> set bs. b < 256 \<Longrightarrow> \<forall>d \<in> set (sextets bs). d < 64"
proof (induction bs rule: sextets.induct)
  case (4 a b c r)
  have "a div 4 < 64" "(a mod 4) * 16 + b div 16 < 64" "(b mod 16) * 4 + c div 64 < 64" "c mod 64 < 64"
    using "4.prems" by (auto simp: less_mult_imp_div_less)
  then show ?case using 4 by simp
next
  case (3 a b)
  then show ?case by (auto simp: less_mult_imp_div_less)
qed (auto simp: less_mult_imp_div_less)

lemma octets_sextets: "\<forall>b \<in> set bs. b < 256 \<Longrightarrow> octets (sextets bs) = bs"
proof (induction bs rule: sextets.induct)
  case (4 a b c r)
  then have b: "b div 16 < 16" "c div 64 < 4" by auto
  have "a div 4 * 4 + ((a mod 4) * 16 + b div 16) div 16 = a"
    "((a mod 4) * 16 + b div 16) mod 16 * 16 + ((b mod 16) * 4 + c div 64) div 4 = b"
    "((b mod 16) * 4 + c div 64) mod 4 * 64 + c mod 64 = c"
    using b by simp_all
  then show ?case using 4 by simp
next
  case (3 a b)
  then have "b div 16 < 16" by auto
  then have "a div 4 * 4 + ((a mod 4) * 16 + b div 16) div 16 = a"
    "((a mod 4) * 16 + b div 16) mod 16 * 16 + ((b mod 16) * 4) div 4 = b" by simp_all
  then show ?case by simp
qed simp_all

lemma takeWhile_pad: "\<forall>c \<in> set s. c \<noteq> pad_char \<Longrightarrow> takeWhile (\<lambda>c. c \<noteq> pad_char) (s @ replicate n pad_char) = s"
  by (simp add: takeWhile_append2 takeWhile_eq_Nil_iff)

lemma map_filter_b64: "\<forall>d \<in> set ds. d < 64 \<Longrightarrow> List.map_filter b64_val (map b64_char ds) = ds"
  by (induction ds) (auto simp: List.map_filter_simps b64_char_val)

lemma of_char_bound: "(of_char c :: nat) < 256"
  by simp

lemma b64_roundtrip [simp]: "b64_decode (b64_encode bs) = bs"
proof -
  let ?ns = "map of_char bs :: nat list"
  have b: "\<forall>n \<in> set ?ns. n < 256" using of_char_bound by auto
  have "\<forall>c \<in> set (map b64_char (sextets ?ns)). c \<noteq> pad_char"
    using sextets_bound [OF b] b64_char_not_pad by auto
  then have "b64_decode (b64_encode bs) = map char_of ?ns"
    unfolding b64_decode_def b64_encode_def
    by (simp only: takeWhile_pad map_filter_b64 [OF sextets_bound [OF b]] octets_sextets [OF b])
  then show ?thesis by (simp add: comp_def)
qed

lemma b64_decode_Nil [simp]: "b64_decode [] = []"
  by (simp add: b64_decode_def List.map_filter_simps)

section \<open>UTF-8\<close>

definition utf8_unit :: "char \<Rightarrow> bytes" where
  "utf8_unit c = (let n = of_char c in
     if n < (128 :: nat) then [c] else [char_of (192 + n div 64), char_of (128 + n mod 64)])"

definition utf8_encode :: "string \<Rightarrow> bytes" where
  "utf8_encode s = concat (map utf8_unit s)"

text \<open>\<^const>\<open>None\<close> when the bytes are not the encoding of text in the modelled range.\<close>

fun utf8_decode :: "bytes \<Rightarrow> string option" where
  "utf8_decode [] = Some []"
| "utf8_decode (b # bs) =
    (if of_char b < (128 :: nat) then map_option ((#) b) (utf8_decode bs)
     else case bs of
       [] \<Rightarrow> None
     | c # cs \<Rightarrow>
         if (of_char b = (194 :: nat) \<or> of_char b = (195 :: nat)) \<and> (128 :: nat) \<le> of_char c \<and> of_char c < (192 :: nat)
         then map_option ((#) (char_of ((of_char b - 192) * 64 + (of_char c - 128 :: nat)))) (utf8_decode cs)
         else None)"

lemma utf8_unit_decode: "utf8_decode (utf8_unit c @ bs) = map_option ((#) c) (utf8_decode bs)"
proof (cases "of_char c < (128 :: nat)")
  case False
  define n where "n = (of_char c :: nat)"
  have n: "128 \<le> n" "n < 256" using False of_char_bound [of c] by (simp_all add: n_def)
  then have d: "n div 64 = 2 \<or> n div 64 = 3" by auto
  have c: "char_of n = c" by (simp add: n_def)
  have "n div 64 * 64 + n mod 64 = n" by simp
  with d have r: "(n div 64) * 64 + n mod 64 = n" "n mod 64 < 64" by simp_all
  have "n div 64 = 2 \<Longrightarrow> 128 + n mod 64 = n" "n div 64 = 3 \<Longrightarrow> 192 + n mod 64 = n" using r by auto
  then have "n div 64 = 2 \<Longrightarrow> char_of (128 + n mod 64) = c" "n div 64 = 3 \<Longrightarrow> char_of (192 + n mod 64) = c"
    by (simp_all only: c)
  then show ?thesis
    using d r(2) False by (auto simp: utf8_unit_def n_def [symmetric] Let_def of_char_of)
qed (simp add: utf8_unit_def)

lemma utf8_roundtrip [simp]: "utf8_decode (utf8_encode s) = Some s"
  by (induction s) (simp_all add: utf8_encode_def utf8_unit_decode)

lemma utf8_encode_inj: "utf8_encode s = utf8_encode t \<Longrightarrow> s = t"
  by (metis option.inject utf8_roundtrip)

end
