(* ===== verification/KeyManager.thy ===== *)
theory KeyManager
  imports Bytes
begin

text \<open>
  The keys of a node (\<^verbatim>\<open>security/keyManager.js\<close>) and the symmetric encryption of
  \<^verbatim>\<open>security/encryptor.js\<close>. The functions of \<^verbatim>\<open>sodium-native\<close> are the fields of
  the parameter record \<open>sodium\<close>; what its documentation promises of them is
  \<open>sodium_laws\<close>. Text is carried as base64 and UTF-8 as in the code.
\<close>

record sodium =
  sign_detached :: "bytes \<Rightarrow> bytes \<Rightarrow> bytes"
  verify_detached :: "bytes \<Rightarrow> bytes \<Rightarrow> bytes \<Rightarrow> bool"
  sk_to_pk :: "bytes \<Rightarrow> bytes"
  scalarmult_base :: "bytes \<Rightarrow> bytes"
  scalarmult :: "bytes \<Rightarrow> bytes \<Rightarrow> bytes"
  generichash :: "bytes \<Rightarrow> bytes"
  secretbox_easy :: "bytes \<Rightarrow> bytes \<Rightarrow> bytes \<Rightarrow> bytes"
  secretbox_open :: "bytes \<Rightarrow> bytes \<Rightarrow> bytes \<Rightarrow> bytes option"

definition SIGN_BYTES :: nat where [simp]: "SIGN_BYTES = 64"
definition SIGN_PUBLICKEYBYTES :: nat where [simp]: "SIGN_PUBLICKEYBYTES = 32"
definition SIGN_SECRETKEYBYTES :: nat where [simp]: "SIGN_SECRETKEYBYTES = 64"
definition BOX_SECRETKEYBYTES :: nat where [simp]: "BOX_SECRETKEYBYTES = 32"
definition SECRETBOX_KEYBYTES :: nat where [simp]: "SECRETBOX_KEYBYTES = 32"
definition SECRETBOX_NONCEBYTES :: nat where [simp]: "SECRETBOX_NONCEBYTES = 24"
definition SECRETBOX_MACBYTES :: nat where [simp]: "SECRETBOX_MACBYTES = 16"

definition sodium_laws :: "sodium \<Rightarrow> bool" where
  "sodium_laws s \<longleftrightarrow>
    (\<forall>m sk. length (sign_detached s m sk) = SIGN_BYTES) \<and>
    (\<forall>sk. length (sk_to_pk s sk) = SIGN_PUBLICKEYBYTES) \<and>
    (\<forall>m sk. verify_detached s (sign_detached s m sk) m (sk_to_pk s sk)) \<and>
    (\<forall>a b. scalarmult s a (scalarmult_base s b) = scalarmult s b (scalarmult_base s a)) \<and>
    (\<forall>x. length (generichash s x) = SECRETBOX_KEYBYTES) \<and>
    (\<forall>p n k. length (secretbox_easy s p n k) = length p + SECRETBOX_MACBYTES) \<and>
    (\<forall>p n k. secretbox_open s (secretbox_easy s p n k) n k = Some p)"

record key_manager =
  signPublicKey :: bytes
  signSecretKey :: bytes
  boxPublicKey :: bytes
  boxSecretKey :: bytes

text \<open>\<^verbatim>\<open>copy\<close> into a zeroed buffer of \<open>n\<close> bytes.\<close>

definition buffer_copy :: "nat \<Rightarrow> bytes \<Rightarrow> bytes" where
  "buffer_copy n src = take n (src @ replicate n (CHR 0x00))"

text \<open>
  \<open>saved\<close> is what the two key files hold, \<^const>\<open>None\<close> when one of them cannot be read;
  \<open>gen\<close> is what the library's two key generators return. The second component is what is
  written to the key files.
\<close>

definition km_init ::
  "sodium \<Rightarrow> (bytes \<times> bytes) option \<Rightarrow> (bytes \<times> bytes) \<times> bytes \<times> bytes \<Rightarrow> key_manager \<times> (bytes \<times> bytes) option" where
  "km_init s saved gen =
    (case saved of
       Some (savedSign, savedBox) \<Rightarrow>
         (let sk = buffer_copy SIGN_SECRETKEYBYTES savedSign; bsk = buffer_copy BOX_SECRETKEYBYTES savedBox
          in (\<lparr>signPublicKey = sk_to_pk s sk, signSecretKey = sk,
               boxPublicKey = scalarmult_base s bsk, boxSecretKey = bsk\<rparr>, None))
     | None \<Rightarrow>
         (case gen of ((pk, sk), (bpk, bsk)) \<Rightarrow>
           (\<lparr>signPublicKey = pk, signSecretKey = sk, boxPublicKey = bpk, boxSecretKey = bsk\<rparr>, Some (sk, bsk))))"

definition getPublicKey :: "key_manager \<Rightarrow> string" where
  "getPublicKey km = b64_encode (signPublicKey km)"

definition getBoxPublicKey :: "key_manager \<Rightarrow> string" where
  "getBoxPublicKey km = b64_encode (boxPublicKey km)"

definition km_sign :: "sodium \<Rightarrow> key_manager \<Rightarrow> string \<Rightarrow> string" where
  "km_sign s km text = b64_encode (sign_detached s (utf8_encode text) (signSecretKey km))"

definition km_verify :: "sodium \<Rightarrow> string \<Rightarrow> string \<Rightarrow> string \<Rightarrow> bool" where
  "km_verify s text signatureBase64 senderPublicKeyBase64 =
    (let msgBuffer = utf8_encode text; sgn = b64_decode signatureBase64; pk = b64_decode senderPublicKeyBase64
     in if length sgn \<noteq> SIGN_BYTES then False
        else if length pk \<noteq> SIGN_PUBLICKEYBYTES then False
        else verify_detached s sgn msgBuffer pk)"

definition deriveSharedSecret :: "sodium \<Rightarrow> key_manager \<Rightarrow> string \<Rightarrow> bytes" where
  "deriveSharedSecret s km theirBoxPublicKeyBase64 =
    generichash s (scalarmult s (boxSecretKey km) (b64_decode theirBoxPublicKeyBase64))"

section \<open>Symmetric encryption\<close>

datatype crypt_error = Invalid_Key_Size | Invalid_Nonce_Size | Ciphertext_Too_Short | Authentication_Failed

text \<open>\<open>nonce\<close> is what \<^verbatim>\<open>randombytes_buf\<close> fills in.\<close>

definition encrypt :: "sodium \<Rightarrow> bytes \<Rightarrow> string \<Rightarrow> bytes \<Rightarrow> crypt_error + string \<times> string" where
  "encrypt s nonce plaintext sharedSecret =
    (if length sharedSecret \<noteq> SECRETBOX_KEYBYTES then Inl Invalid_Key_Size
     else Inr (b64_encode (secretbox_easy s (utf8_encode plaintext) nonce sharedSecret), b64_encode nonce))"

definition decrypt :: "sodium \<Rightarrow> string \<Rightarrow> string \<Rightarrow> bytes \<Rightarrow> crypt_error + string option" where
  "decrypt s ciphertextBase64 nonceBase64 sharedSecret =
    (if length sharedSecret \<noteq> SECRETBOX_KEYBYTES then Inl Invalid_Key_Size
     else let cipher = b64_decode ciphertextBase64; nonce = b64_decode nonceBase64 in
       if length nonce \<noteq> SECRETBOX_NONCEBYTES then Inl Invalid_Nonce_Size
       else if length cipher < SECRETBOX_MACBYTES then Inl Ciphertext_Too_Short
       else case secretbox_open s cipher nonce sharedSecret of
         None \<Rightarrow> Inl Authentication_Failed
       | Some plain \<Rightarrow> Inr (utf8_decode plain))"

section \<open>Correctness under the library's laws\<close>

definition km_ok :: "sodium \<Rightarrow> key_manager \<Rightarrow> bool" where
  "km_ok s km \<longleftrightarrow> signPublicKey km = sk_to_pk s (signSecretKey km)
     \<and> boxPublicKey km = scalarmult_base s (boxSecretKey km)
     \<and> length (signSecretKey km) = SIGN_SECRETKEYBYTES \<and> length (boxSecretKey km) = BOX_SECRETKEYBYTES"

lemma buffer_copy_length [simp]: "length (buffer_copy n src) = n"
  by (simp add: buffer_copy_def)

lemma buffer_copy_id: "length src = n \<Longrightarrow> buffer_copy n src = src"
  by (simp add: buffer_copy_def)

lemma km_verify_sign:
  "sodium_laws s \<Longrightarrow> km_ok s km \<Longrightarrow> km_verify s text (km_sign s km text) (getPublicKey km)"
  by (simp add: sodium_laws_def km_ok_def km_verify_def km_sign_def getPublicKey_def)

lemma shared_secret_length: "sodium_laws s \<Longrightarrow> length (deriveSharedSecret s km k) = 32"
  by (simp add: sodium_laws_def deriveSharedSecret_def)

text \<open>
  C38: two nodes that exchanged their box public keys derive the same symmetric key, and what
  one encrypts with it, under any nonce of the right size, the other decrypts to the same text.
\<close>

theorem dm_encryption_roundtrip:
  assumes "sodium_laws s" "km_ok s alice" "km_ok s bob" "length nonce = SECRETBOX_NONCEBYTES"
  shows "\<exists>c n. encrypt s nonce text (deriveSharedSecret s alice (getBoxPublicKey bob)) = Inr (c, n)
    \<and> decrypt s c n (deriveSharedSecret s bob (getBoxPublicKey alice)) = Inr (Some text)"
proof -
  have key: "deriveSharedSecret s alice (getBoxPublicKey bob) = deriveSharedSecret s bob (getBoxPublicKey alice)"
    using assms(1-3) by (simp add: sodium_laws_def km_ok_def deriveSharedSecret_def getBoxPublicKey_def)
  show ?thesis
    unfolding key using assms shared_secret_length [OF assms(1)]
    by (simp add: encrypt_def decrypt_def) (simp add: sodium_laws_def)
qed

text \<open>
  Keys survive a restart: a node that generated and stored its keys loads the same four
  keys from the files it wrote, so its signatures keep verifying under its old public key.
\<close>

theorem keys_survive_restart:
  assumes "sodium_laws s" "km_ok s km"
    and "gen = ((signPublicKey km, signSecretKey km), (boxPublicKey km, boxSecretKey km))"
  shows "km_init s None gen = (km, Some (signSecretKey km, boxSecretKey km))
    \<and> km_init s (snd (km_init s None gen)) gen' = (km, None)
    \<and> km_verify s text (km_sign s (fst (km_init s (snd (km_init s None gen)) gen')) text) (getPublicKey km)"
proof -
  have saved: "km_init s (Some (signSecretKey km, boxSecretKey km)) gen' = (km, None)"
    using assms(2) by (cases km) (simp add: km_init_def km_ok_def buffer_copy_id Let_def)
  have fresh: "km_init s None gen = (km, Some (signSecretKey km, boxSecretKey km))"
    by (simp add: assms(3) km_init_def)
  show ?thesis by (simp add: saved fresh km_verify_sign [OF assms(1,2)])
qed

text \<open>A concrete library that satisfies the laws, for the witnesses.\<close>

definition toy_sodium :: sodium where
  "toy_sodium =
    \<lparr>sign_detached = (\<lambda>m sk. buffer_copy 64 (buffer_copy 32 sk @ m)),
     verify_detached = (\<lambda>sgn m pk. sgn = buffer_copy 64 (pk @ m)),
     sk_to_pk = buffer_copy 32, scalarmult_base = id,
     scalarmult = (\<lambda>a b. if a < b then a @ b else b @ a), generichash = buffer_copy 32,
     secretbox_easy = (\<lambda>p n k. buffer_copy 16 k @ p), secretbox_open = (\<lambda>c n k. Some (drop 16 c))\<rparr>"

lemma toy_sodium_laws: "sodium_laws toy_sodium"
  by (auto simp: sodium_laws_def toy_sodium_def)

definition toy_keys :: "char \<Rightarrow> key_manager" where
  "toy_keys c = \<lparr>signPublicKey = replicate 32 c, signSecretKey = replicate 64 c,
     boxPublicKey = replicate 32 c, boxSecretKey = replicate 32 c\<rparr>"

lemma toy_keys_ok: "km_ok toy_sodium (toy_keys c)"
  by (simp add: km_ok_def toy_keys_def toy_sodium_def buffer_copy_def)

theorem dm_encryption_roundtrip_witness:
  "\<exists>c n. encrypt toy_sodium (replicate 24 (CHR 0x07)) ''hi'' (deriveSharedSecret toy_sodium (toy_keys (CHR ''a'')) (getBoxPublicKey (toy_keys (CHR ''b'')))) = Inr (c, n)
    \<and> decrypt toy_sodium c n (deriveSharedSecret toy_sodium (toy_keys (CHR ''b'')) (getBoxPublicKey (toy_keys (CHR ''a'')))) = Inr (Some ''hi'')"
  by (rule dm_encryption_roundtrip [OF toy_sodium_laws toy_keys_ok toy_keys_ok]) simp

theorem keys_survive_restart_witness:
  "km_init toy_sodium None ((replicate 32 (CHR ''k''), replicate 64 (CHR ''k'')), (replicate 32 (CHR ''k''), replicate 32 (CHR ''k'')))
    = (toy_keys (CHR ''k''), Some (replicate 64 (CHR ''k''), replicate 32 (CHR ''k'')))"
  using keys_survive_restart [OF toy_sodium_laws toy_keys_ok refl, of "CHR ''k''"] by (simp add: toy_keys_def)

end
