(* ===== verification/Json.thy ===== *)
theory Json
  imports Prelude
begin

text \<open>
  The part of the language's \<^verbatim>\<open>JSON\<close> object that the program uses: \<^verbatim>\<open>JSON.stringify\<close> and
  \<^verbatim>\<open>JSON.parse\<close>, for strings of code units below 256 and integer numbers. The parser is
  a scanner over characters followed by a stack machine over tokens, so that both are total
  without fuel; a syntax error is \<^const>\<open>None\<close>. Repeated keys of an object keep the last value,
  as in JavaScript.
\<close>

datatype json =
    JNull
  | JBool bool
  | JNum int
  | JStr string
  | JArr "json list"
  | JObj "(string \<times> json) list"

section \<open>Printing\<close>

definition quote :: char where "quote = CHR 0x22"
definition bslash :: char where "bslash = CHR 0x5C"

definition hex_char :: "nat \<Rightarrow> char" where
  "hex_char d = (if d < 10 then char_of (48 + d) else char_of (87 + d))"

definition escape_char :: "char \<Rightarrow> string" where
  "escape_char c =
    (if c = quote then [bslash, quote]
     else if c = bslash then [bslash, bslash]
     else if c = CHR 0x08 then [bslash, CHR ''b'']
     else if c = CHR 0x0C then [bslash, CHR ''f'']
     else if c = CHR 0x0A then [bslash, CHR ''n'']
     else if c = CHR 0x0D then [bslash, CHR ''r'']
     else if c = CHR 0x09 then [bslash, CHR ''t'']
     else if (of_char c :: nat) < 32 then
       [bslash, CHR ''u'', CHR ''0'', CHR ''0'', hex_char (of_char c div 16), hex_char (of_char c mod 16)]
     else [c])"

definition string_json :: "string \<Rightarrow> string" where
  "string_json s = quote # concat (map escape_char s) @ [quote]"

definition show_int :: "int \<Rightarrow> string" where
  "show_int i = (if i < 0 then CHR ''-'' # show_nat (nat (- i)) else show_nat (nat i))"

fun stringify :: "json \<Rightarrow> string"
  and stringify_list :: "json list \<Rightarrow> string"
  and stringify_fields :: "(string \<times> json) list \<Rightarrow> string" where
  "stringify JNull = ''null''"
| "stringify (JBool b) = (if b then ''true'' else ''false'')"
| "stringify (JNum i) = show_int i"
| "stringify (JStr s) = string_json s"
| "stringify (JArr vs) = CHR ''['' # stringify_list vs @ '']''"
| "stringify (JObj fs) = CHR ''{'' # stringify_fields fs @ ''}''"
| "stringify_list [] = []"
| "stringify_list [v] = stringify v"
| "stringify_list (v # w # vs) = stringify v @ '','' @ stringify_list (w # vs)"
| "stringify_fields [] = []"
| "stringify_fields [(k, v)] = string_json k @ '':'' @ stringify v"
| "stringify_fields ((k, v) # g # fs) =
     string_json k @ '':'' @ stringify v @ '','' @ stringify_fields (g # fs)"

section \<open>Scanning\<close>

datatype token = TNull | TBool bool | TNum int | TStr string
  | LBrack | RBrack | LBrace | RBrace | Comma | Colon

definition hex_val :: "char \<Rightarrow> nat option" where
  "hex_val c = (let n = of_char c in
     if 48 \<le> n \<and> n \<le> 57 then Some (n - 48)
     else if 97 \<le> n \<and> n \<le> 102 then Some (n - 87)
     else if 65 \<le> n \<and> n \<le> 70 then Some (n - 55) else None)"

definition unescape :: "char \<Rightarrow> char option" where
  "unescape c =
    (if c = quote \<or> c = bslash \<or> c = CHR ''/'' then Some c
     else if c = CHR ''b'' then Some (CHR 0x08)
     else if c = CHR ''f'' then Some (CHR 0x0C)
     else if c = CHR ''n'' then Some (CHR 0x0A)
     else if c = CHR ''r'' then Some (CHR 0x0D)
     else if c = CHR ''t'' then Some (CHR 0x09) else None)"

text \<open>The rest of a string literal after its opening quote, with the text behind it.\<close>

fun scan_string :: "string \<Rightarrow> string \<Rightarrow> (string \<times> string) option" where
  "scan_string acc [] = None"
| "scan_string acc (c # cs) =
     (if c = quote then Some (rev acc, cs)
      else if c = bslash then
        (case cs of
           [] \<Rightarrow> None
         | d # ds \<Rightarrow>
             if d = CHR ''u'' then
               (case ds of
                  h1 # h2 # h3 # h4 # es \<Rightarrow>
                    (case (hex_val h1, hex_val h2, hex_val h3, hex_val h4) of
                       (Some 0, Some 0, Some a, Some b) \<Rightarrow> scan_string (char_of (16 * a + b) # acc) es
                     | _ \<Rightarrow> None)
                | _ \<Rightarrow> None)
             else (case unescape d of None \<Rightarrow> None | Some e \<Rightarrow> scan_string (e # acc) ds))
      else if (of_char c :: nat) < 32 then None
      else scan_string (c # acc) cs)"

lemma scan_string_length: "scan_string acc s = Some (t, r) \<Longrightarrow> length r < length s"
proof (induction s arbitrary: acc rule: measure_induct_rule [where f = length])
  case (less s)
  have IH: "scan_string a y = Some (t, r) \<Longrightarrow> length y < length s \<Longrightarrow> length r < length s" for a y
    using less.IH [of y a] by simp
  from less.prems show ?case
    by (cases s) (auto split: if_splits list.splits option.splits nat.splits dest!: IH)
qed

definition is_space :: "char \<Rightarrow> bool" where
  "is_space c \<longleftrightarrow> c = CHR '' '' \<or> c = CHR 0x09 \<or> c = CHR 0x0A \<or> c = CHR 0x0D"

definition punct :: "char \<Rightarrow> token option" where
  "punct c = (if c = CHR ''['' then Some LBrack else if c = CHR '']'' then Some RBrack
     else if c = CHR ''{'' then Some LBrace else if c = CHR ''}'' then Some RBrace
     else if c = CHR '','' then Some Comma else if c = CHR '':'' then Some Colon else None)"

text \<open>A number has no leading zero; fractions and exponents are outside the model.\<close>

definition digits_ok :: "string \<Rightarrow> bool" where
  "digits_ok ds \<longleftrightarrow> ds \<noteq> [] \<and> (hd ds = CHR ''0'' \<longrightarrow> length ds = 1)"

function scan :: "string \<Rightarrow> token list option" where
  "scan [] = Some []"
| "scan (c # cs) =
     (if is_space c then scan cs
      else case punct c of
        Some t \<Rightarrow> map_option ((#) t) (scan cs)
      | None \<Rightarrow>
          if c = quote then
            (case scan_string [] cs of None \<Rightarrow> None | Some (s, r) \<Rightarrow> map_option ((#) (TStr s)) (scan r))
          else if c = CHR ''-'' then
            (let ds = takeWhile is_digit cs in
              if digits_ok ds then map_option ((#) (TNum (- int (read_nat 0 ds)))) (scan (dropWhile is_digit cs))
              else None)
          else if is_digit c then
            (let ds = c # takeWhile is_digit cs in
              if digits_ok ds then map_option ((#) (TNum (int (read_nat 0 ds)))) (scan (dropWhile is_digit cs))
              else None)
          else if c = CHR ''n'' \<and> take 3 cs = ''ull'' then map_option ((#) TNull) (scan (drop 3 cs))
          else if c = CHR ''t'' \<and> take 3 cs = ''rue'' then map_option ((#) (TBool True)) (scan (drop 3 cs))
          else if c = CHR ''f'' \<and> take 4 cs = ''alse'' then map_option ((#) (TBool False)) (scan (drop 4 cs))
          else None)"
  by pat_completeness auto
termination
  by (relation "measure length")
    (auto simp: less_Suc_eq_le length_dropWhile_le dest: scan_string_length less_imp_le)

section \<open>Parsing\<close>

text \<open>A stack frame is an array under construction, or an object whose next key has been read.\<close>

datatype frame = FArr "json list" | FObj "(string \<times> json) list" string

function parse_value :: "frame list \<Rightarrow> token list \<Rightarrow> json option"
  and parse_rest :: "frame list \<Rightarrow> json \<Rightarrow> token list \<Rightarrow> json option" where
  "parse_value st ts =
     (case ts of
        TNull # r \<Rightarrow> parse_rest st JNull r
      | TBool b # r \<Rightarrow> parse_rest st (JBool b) r
      | TNum i # r \<Rightarrow> parse_rest st (JNum i) r
      | TStr s # r \<Rightarrow> parse_rest st (JStr s) r
      | LBrack # RBrack # r \<Rightarrow> parse_rest st (JArr []) r
      | LBrack # r \<Rightarrow> parse_value (FArr [] # st) r
      | LBrace # RBrace # r \<Rightarrow> parse_rest st (JObj []) r
      | LBrace # TStr k # Colon # r \<Rightarrow> parse_value (FObj [] k # st) r
      | _ \<Rightarrow> None)"
| "parse_rest st v ts =
     (case st of
        [] \<Rightarrow> (if ts = [] then Some v else None)
      | FArr acc # st' \<Rightarrow>
          (case ts of
             Comma # r \<Rightarrow> parse_value (FArr (acc @ [v]) # st') r
           | RBrack # r \<Rightarrow> parse_rest st' (JArr (acc @ [v])) r
           | _ \<Rightarrow> None)
      | FObj acc k # st' \<Rightarrow>
          (case ts of
             Comma # TStr k' # Colon # r \<Rightarrow> parse_value (FObj (map_set acc k v) k' # st') r
           | RBrace # r \<Rightarrow> parse_rest st' (JObj (map_set acc k v)) r
           | _ \<Rightarrow> None))"
  by pat_completeness auto
termination
  by (relation "measure (\<lambda>x. case x of Inl (st, ts) \<Rightarrow> length ts | Inr (st, v, ts) \<Rightarrow> length ts)") auto

declare parse_value.simps [simp del] parse_rest.simps [simp del]

definition json_parse :: "string \<Rightarrow> json option" where
  "json_parse s = (case scan s of None \<Rightarrow> None | Some ts \<Rightarrow> parse_value [] ts)"

section \<open>Round trip\<close>

text \<open>The tokens a printed value scans to.\<close>

fun toks :: "json \<Rightarrow> token list"
  and toks_list :: "json list \<Rightarrow> token list"
  and toks_fields :: "(string \<times> json) list \<Rightarrow> token list" where
  "toks JNull = [TNull]"
| "toks (JBool b) = [TBool b]"
| "toks (JNum i) = [TNum i]"
| "toks (JStr s) = [TStr s]"
| "toks (JArr vs) = LBrack # toks_list vs @ [RBrack]"
| "toks (JObj fs) = LBrace # toks_fields fs @ [RBrace]"
| "toks_list [] = []"
| "toks_list [v] = toks v"
| "toks_list (v # w # vs) = toks v @ Comma # toks_list (w # vs)"
| "toks_fields [] = []"
| "toks_fields [(k, v)] = TStr k # Colon # toks v"
| "toks_fields ((k, v) # g # fs) = TStr k # Colon # toks v @ Comma # toks_fields (g # fs)"

lemma punct_consts [simp]:
  "punct quote = None" "is_space quote = False" "is_space (CHR ''-'') = False" "punct (CHR ''-'') = None"
  by (simp_all add: punct_def is_space_def quote_def)

lemma hex_val_char: "d < 16 \<Longrightarrow> hex_val (hex_char d) = Some d"
  by (auto simp: hex_val_def hex_char_def Let_def)

lemma hex_char_zero: "hex_val (CHR ''0'') = Some 0"
  by (simp add: hex_val_def)

lemma quote_bslash [simp]: "quote \<noteq> bslash" "bslash \<noteq> quote"
  by (simp_all add: quote_def bslash_def)

lemma scan_string_esc:
  "d \<noteq> CHR ''u'' \<Longrightarrow> unescape d = Some e \<Longrightarrow>
    scan_string acc (bslash # d # r) = scan_string (e # acc) r"
  by simp

lemma scan_string_hex:
  "hex_val h3 = Some a \<Longrightarrow> hex_val h4 = Some b \<Longrightarrow>
    scan_string acc (bslash # CHR ''u'' # CHR ''0'' # CHR ''0'' # h3 # h4 # r) =
      scan_string (char_of (16 * a + b) # acc) r"
  by (simp add: hex_char_zero)

lemma unescape_consts:
  "unescape quote = Some quote" "unescape bslash = Some bslash"
  "unescape (CHR ''b'') = Some (CHR 0x08)" "unescape (CHR ''f'') = Some (CHR 0x0C)"
  "unescape (CHR ''n'') = Some (CHR 0x0A)" "unescape (CHR ''r'') = Some (CHR 0x0D)"
  "unescape (CHR ''t'') = Some (CHR 0x09)" "quote \<noteq> CHR ''u''" "bslash \<noteq> CHR ''u''"
  by (simp_all add: unescape_def quote_def bslash_def)

lemma escape_char_consts:
  "escape_char quote = [bslash, quote]" "escape_char bslash = [bslash, bslash]"
  "escape_char (CHR 0x08) = [bslash, CHR ''b'']" "escape_char (CHR 0x0C) = [bslash, CHR ''f'']"
  "escape_char (CHR 0x0A) = [bslash, CHR ''n'']" "escape_char (CHR 0x0D) = [bslash, CHR ''r'']"
  "escape_char (CHR 0x09) = [bslash, CHR ''t'']"
  by (simp_all add: escape_char_def quote_def bslash_def)

lemma unescape_not_u:
  "CHR ''b'' \<noteq> CHR ''u''" "CHR ''f'' \<noteq> CHR ''u''" "CHR ''n'' \<noteq> CHR ''u''"
  "CHR ''r'' \<noteq> CHR ''u''" "CHR ''t'' \<noteq> CHR ''u''"
  by simp_all

lemma scan_escape_char: "scan_string acc (escape_char c @ r) = scan_string (c # acc) r"
proof (cases "c \<in> {quote, bslash, CHR 0x08, CHR 0x0C, CHR 0x0A, CHR 0x0D, CHR 0x09}")
  case True
  then show ?thesis
    by (elim insertE emptyE; simp only: escape_char_consts append_Cons append_Nil
        scan_string_esc unescape_consts unescape_not_u simp_thms)
next
  case other: False
  show ?thesis
  proof (cases "(of_char c :: nat) < 32")
    case True
    let ?n = "of_char c :: nat"
    have esc: "escape_char c = [bslash, CHR ''u'', CHR ''0'', CHR ''0'', hex_char (?n div 16), hex_char (?n mod 16)]"
      using other True by (simp add: escape_char_def)
    have c: "char_of (16 * (?n div 16) + ?n mod 16) = c" by simp
    have h: "hex_val (hex_char (?n div 16)) = Some (?n div 16)" "hex_val (hex_char (?n mod 16)) = Some (?n mod 16)"
      using True by (simp_all add: hex_val_char)
    show ?thesis
      unfolding esc append_Cons append_Nil scan_string_hex [OF h] c ..
  next
    case False
    then have "escape_char c = [c]" using other by (simp add: escape_char_def)
    with other False show ?thesis by simp
  qed
qed

lemma scan_string_json:
  "scan_string acc (concat (map escape_char s) @ quote # r) = Some (rev acc @ s, r)"
  by (induction s arbitrary: acc) (simp_all add: scan_escape_char)

lemma scan_string_quoted: "scan (string_json s @ r) = map_option ((#) (TStr s)) (scan r)"
  by (simp add: string_json_def scan_string_json)

lemma not_digit_consts:
  "\<not> is_digit (CHR '' '')" "\<not> is_digit (CHR 0x09)" "\<not> is_digit (CHR 0x0A)" "\<not> is_digit (CHR 0x0D)"
  "\<not> is_digit (CHR ''['')" "\<not> is_digit (CHR '']'')" "\<not> is_digit (CHR ''{'')" "\<not> is_digit (CHR ''}'')"
  "\<not> is_digit (CHR '','')" "\<not> is_digit (CHR '':'')" "\<not> is_digit (CHR 0x22)" "\<not> is_digit (CHR ''-'')"
  by (simp_all add: is_digit_def)

lemma is_digit_plain:
  assumes "is_digit c"
  shows "\<not> is_space c \<and> punct c = None \<and> c \<noteq> quote \<and> c \<noteq> CHR ''-''"
proof -
  have neq: "\<not> is_digit d \<Longrightarrow> c \<noteq> d" for d using assms by blast
  show ?thesis
    by (simp only: is_space_def punct_def quote_def neq [OF not_digit_consts(1)] neq [OF not_digit_consts(2)]
        neq [OF not_digit_consts(3)] neq [OF not_digit_consts(4)] neq [OF not_digit_consts(5)]
        neq [OF not_digit_consts(6)] neq [OF not_digit_consts(7)] neq [OF not_digit_consts(8)]
        neq [OF not_digit_consts(9)] neq [OF not_digit_consts(10)] neq [OF not_digit_consts(11)]
        neq [OF not_digit_consts(12)] if_False simp_thms)
qed

lemma show_nat_hd: "n \<noteq> 0 \<Longrightarrow> hd (show_nat n) \<noteq> CHR ''0''"
proof (induction n rule: show_nat.induct)
  case (1 n)
  show ?case
  proof (cases "n < 10")
    case True
    have "digit_char n \<noteq> CHR ''0''"
      using 1(2) True digit_val_char [of n] digit_val_zero by force
    then show ?thesis using True by (subst show_nat.simps) simp
  next
    case False
    then have "n div 10 \<noteq> 0" by simp
    with 1(1) False show ?thesis by (subst show_nat.simps) simp
  qed
qed

lemma digits_ok_show_nat: "digits_ok (show_nat n)"
proof (cases "n = 0")
  case True
  then show ?thesis by (subst show_nat.simps) (simp add: digits_ok_def)
next
  case False
  then show ?thesis using show_nat_hd by (simp add: digits_ok_def)
qed

definition no_digit :: "string \<Rightarrow> bool" where
  "no_digit r \<longleftrightarrow> r = [] \<or> \<not> is_digit (hd r)"

lemma takeWhile_no_digit:
  "list_all is_digit ds \<Longrightarrow> no_digit r \<Longrightarrow>
    takeWhile is_digit (ds @ r) = ds \<and> dropWhile is_digit (ds @ r) = r"
  by (induction ds) (cases r; auto simp: no_digit_def)+

lemma scan_show_nat:
  "no_digit r \<Longrightarrow> scan (show_nat n @ r) = map_option ((#) (TNum (int n))) (scan r)"
proof -
  assume r: "no_digit r"
  obtain c cs where s: "show_nat n = c # cs" by (cases "show_nat n") auto
  with show_nat_digits [of n] have d: "is_digit c" "list_all is_digit cs" by auto
  have "read_nat 0 (c # cs) = n" and "digits_ok (c # cs)"
    using read_show_nat [of n] digits_ok_show_nat [of n] by (simp_all only: s)
  then show ?thesis
    using is_digit_plain [OF d(1)] d takeWhile_no_digit [OF d(2) r]
    by (simp add: s Let_def del: read_nat.simps)
qed

lemma scan_show_int:
  assumes r: "no_digit r"
  shows "scan (show_int i @ r) = map_option ((#) (TNum i)) (scan r)"
proof (cases "i < 0")
  case True
  have w: "takeWhile is_digit (show_nat (nat (- i)) @ r) = show_nat (nat (- i))"
    "dropWhile is_digit (show_nat (nat (- i)) @ r) = r"
    using takeWhile_no_digit [OF show_nat_digits r] by blast+
  have "quote \<noteq> CHR ''-''" by (simp add: quote_def)
  with True w show ?thesis by (auto simp: show_int_def digits_ok_show_nat)
next
  case False
  with scan_show_nat [OF r] show ?thesis by (simp add: show_int_def)
qed

lemma scan_punct: "punct c = Some t \<Longrightarrow> scan (c # r) = map_option ((#) t) (scan r)"
  by (auto simp: punct_def is_space_def)

lemma punct_simps [simp]:
  "punct (CHR ''['') = Some LBrack" "punct (CHR '']'') = Some RBrack"
  "punct (CHR ''{'') = Some LBrace" "punct (CHR ''}'') = Some RBrace"
  "punct (CHR '','') = Some Comma" "punct (CHR '':'') = Some Colon"
  by (simp_all add: punct_def)

lemma no_digit_punct [simp]:
  "no_digit (CHR '']'' # r)" "no_digit (CHR ''}'' # r)" "no_digit (CHR '','' # r)" "no_digit []"
  by (simp_all add: no_digit_def not_digit_consts)

lemma scan_words:
  "scan (''null'' @ r) = map_option ((#) TNull) (scan r)"
  "scan (''true'' @ r) = map_option ((#) (TBool True)) (scan r)"
  "scan (''false'' @ r) = map_option ((#) (TBool False)) (scan r)"
  by (simp_all add: punct_def is_space_def quote_def is_digit_def)

declare scan.simps(2) [simp del]

lemma map_option_append: "map_option ((@) xs) (map_option ((@) ys) o') = map_option ((@) (xs @ ys)) o'"
  by (cases o') auto

lemma map_option_cons: "map_option ((#) x) (map_option ((@) ys) o') = map_option ((@) (x # ys)) o'"
  by (cases o') auto

lemma map_option_cons1: "map_option ((#) x) o' = map_option ((@) [x]) o'"
  by (cases o') auto

lemma map_option_nil [simp]: "map_option ((@) []) o' = o'"
  by (cases o') auto

lemma scan_stringify:
  "no_digit r \<Longrightarrow> scan (stringify v @ r) = map_option ((@) (toks v)) (scan r)"
  "no_digit r \<Longrightarrow> scan (stringify_list vs @ r) = map_option ((@) (toks_list vs)) (scan r)"
  "no_digit r \<Longrightarrow> scan (stringify_fields fs @ r) = map_option ((@) (toks_fields fs)) (scan r)"
proof (induction v and vs and fs arbitrary: r and r and r rule: stringify_stringify_list_stringify_fields.induct)
  case (2 b)
  then show ?case using scan_words(2,3) [of r] by (simp add: map_option_cons1)
next
  case 1
  then show ?case using scan_words(1) [of r] by (simp add: map_option_cons1)
qed (simp_all add: scan_show_int scan_string_quoted scan_punct map_option_append map_option_cons
       map_option_cons1)

text \<open>Objects built by the program have distinct keys at every level.\<close>

fun json_ok :: "json \<Rightarrow> bool" where
  "json_ok (JArr vs) = list_all json_ok vs"
| "json_ok (JObj fs) = (distinct (map fst fs) \<and> list_all (\<lambda>(k, v). json_ok v) fs)"
| "json_ok _ = True"

lemma parse_value_atoms:
  "parse_value st (TNull # r) = parse_rest st JNull r"
  "parse_value st (TBool b # r) = parse_rest st (JBool b) r"
  "parse_value st (TNum i # r) = parse_rest st (JNum i) r"
  "parse_value st (TStr s # r) = parse_rest st (JStr s) r"
  "parse_value st (LBrack # RBrack # r) = parse_rest st (JArr []) r"
  "parse_value st (LBrace # RBrace # r) = parse_rest st (JObj []) r"
  "parse_value st (LBrace # TStr k # Colon # r) = parse_value (FObj [] k # st) r"
  by (simp_all add: parse_value.simps [of st])

lemma parse_value_arr:
  "t \<noteq> RBrack \<Longrightarrow> parse_value st (LBrack # t # r) = parse_value (FArr [] # st) (t # r)"
  by (subst parse_value.simps) (cases t; simp)

lemma parse_rest_steps:
  "parse_rest (FArr acc # st) v (Comma # r) = parse_value (FArr (acc @ [v]) # st) r"
  "parse_rest (FArr acc # st) v (RBrack # r) = parse_rest st (JArr (acc @ [v])) r"
  "parse_rest (FObj facc k # st) v (Comma # TStr k' # Colon # r) =
     parse_value (FObj (map_set facc k v) k' # st) r"
  "parse_rest (FObj facc k # st) v (RBrace # r) = parse_rest st (JObj (map_set facc k v)) r"
  "parse_rest [] v [] = Some v"
  by (simp_all add: parse_rest.simps [of _ v])

lemma toks_first: "\<exists>t r. toks v = t # r \<and> t \<noteq> RBrack"
  by (cases v) auto

lemma toks_list_first: "vs \<noteq> [] \<Longrightarrow> \<exists>t r. toks_list vs = t # r \<and> t \<noteq> RBrack"
proof (cases vs)
  case (Cons v ws)
  then show ?thesis using toks_first [of v] by (cases ws) auto
qed simp

lemma map_set_fresh: "k \<notin> fst ` set m \<Longrightarrow> map_set m k v = m @ [(k, v)]"
  by (induction m) auto

lemma parse_value_array:
  "vs \<noteq> [] \<Longrightarrow> parse_value st (LBrack # toks_list vs @ RBrack # r) =
    parse_value (FArr [] # st) (toks_list vs @ RBrack # r)"
  using toks_list_first [of vs] parse_value_arr by fastforce

lemma parse_toks:
  "json_ok v \<Longrightarrow> parse_value st (toks v @ r) = parse_rest st v r"
  "vs \<noteq> [] \<Longrightarrow> list_all json_ok vs \<Longrightarrow>
    parse_value (FArr acc # st) (toks_list vs @ RBrack # r) = parse_rest st (JArr (acc @ vs)) r"
  "fs = (k, u) # fs' \<Longrightarrow> distinct (map fst (facc @ fs)) \<Longrightarrow> list_all (\<lambda>(k, v). json_ok v) fs \<Longrightarrow>
    parse_value (FObj facc k # st) (drop 2 (toks_fields fs) @ RBrace # r) = parse_rest st (JObj (facc @ fs)) r"
proof (induction v and vs and fs arbitrary: st r and acc st r and facc k u fs' st r
    rule: toks_toks_list_toks_fields.induct)
  case (5 vs)
  then show ?case
    by (cases "vs = []") (simp_all add: parse_value_atoms parse_value_array)
next
  case (6 fs st r)
  show ?case
  proof (cases fs)
    case Nil
    then show ?thesis by (simp add: parse_value_atoms)
  next
    case (Cons f fs')
    then obtain k v where fs: "fs = (k, v) # fs'" by (cases f) simp
    then obtain ts where ts: "toks_fields fs = TStr k # Colon # ts" by (cases fs') auto
    from "6.IH" [OF fs, of "[]" st r] "6.prems" ts show ?thesis
      by (simp add: parse_value_atoms)
  qed
next
  case (12 k v g fs facc ka u fs' st r)
  obtain k' v' where g: "g = (k', v')" by (cases g)
  obtain ts where ts: "toks_fields (g # fs) = TStr k' # Colon # ts"
    using g by (cases fs) auto
  have eqs [simp]: "ka = k" "u = v" "fs' = g # fs"
    using "12.prems"(1) by auto
  have "map_set facc k v = facc @ [(k, v)]"
    using "12.prems" by (auto simp: map_set_fresh)
  then show ?case
    using "12.IH"(1) [of "FObj facc k # st"] "12.IH"(2) [of k' v' fs "facc @ [(k, v)]" st r] "12.prems" g ts
    by (simp add: parse_rest_steps)
qed (auto simp: parse_value_atoms parse_rest_steps map_set_fresh)

lemma json_roundtrip: "json_ok v \<Longrightarrow> json_parse (stringify v) = Some v"
  using scan_stringify(1) [of "[]" v] parse_toks(1) [of v "[]" "[]"]
  by (simp add: json_parse_def parse_rest_steps)

lemma stringify_inj: "json_ok v \<Longrightarrow> json_ok w \<Longrightarrow> stringify v = stringify w \<Longrightarrow> v = w"
  by (metis json_roundtrip option.inject)

end
