(* ===== verification/Config.thy ===== *)
theory Config
  imports Prelude
begin

text \<open>
  The constants of \<^verbatim>\<open>config/default.js\<close>. Durations are milliseconds. The values that an
  environment variable can override (\<^verbatim>\<open>PORT\<close>, \<^verbatim>\<open>PEER_ID\<close>,
  \<^verbatim>\<open>RATE_LIMIT_CAPACITY\<close>, \<^verbatim>\<open>RATE_LIMIT_REFILL_RATE\<close>) are given here at their
  defaults; the operations that read the last two take them as arguments.
\<close>

definition GOSSIP_FANOUT :: nat where [simp]: "GOSSIP_FANOUT = 3"
definition MAX_TTL :: int where [simp]: "MAX_TTL = 10"
definition HEARTBEAT_INTERVAL_MS :: time where [simp]: "HEARTBEAT_INTERVAL_MS = 5000"
definition PEER_TIMEOUT_MS :: time where [simp]: "PEER_TIMEOUT_MS = 15000"
definition ACK_TIMEOUT_MS :: time where [simp]: "ACK_TIMEOUT_MS = 3000"
definition MAX_RETRY_ATTEMPTS :: nat where [simp]: "MAX_RETRY_ATTEMPTS = 3"
definition MAX_PEERS :: nat where [simp]: "MAX_PEERS = 50"
definition INITIAL_RECONNECT_DELAY_MS :: time where [simp]: "INITIAL_RECONNECT_DELAY_MS = 1000"
definition MAX_RECONNECT_DELAY_MS :: time where [simp]: "MAX_RECONNECT_DELAY_MS = 30000"
definition RATE_LIMIT_CAPACITY :: nat where [simp]: "RATE_LIMIT_CAPACITY = 20"
definition RATE_LIMIT_REFILL_RATE :: nat where [simp]: "RATE_LIMIT_REFILL_RATE = 5"
definition MAX_RECONNECT_ATTEMPTS :: nat where [simp]: "MAX_RECONNECT_ATTEMPTS = 5"
definition PORT :: nat where [simp]: "PORT = 8080"
definition POW_DIFFICULTY :: nat where [simp]: "POW_DIFFICULTY = 500"

end
