(* ===== verification/Pow.thy ===== *)
theory Pow
  imports Prelude Config "HOL-Library.Word"
begin

text \<open>
  The proof-of-work puzzle of \<^verbatim>\<open>utils/pow.js\<close> and its native twin
  \<^verbatim>\<open>src/native/pow.cpp\<close>: a 32-bit FNV-1a style hash, the brute-force solver with its
  safety bound, and the verifier. Strings are lists of code units below 256.
  JavaScript's \<^verbatim>\<open>^\<close>, \<^verbatim>\<open>Math.imul\<close> and \<^verbatim>\<open>>>> 0\<close> on 32-bit integers are the
  operations of \<^typ>\<open>32 word\<close>; the bits do not depend on the signedness of the intermediate
  values.
\<close>

unbundle bit_operations_syntax

fun hash_loop :: "32 word \<Rightarrow> string \<Rightarrow> 32 word" where
  "hash_loop h [] = h"
| "hash_loop h (c # cs) = hash_loop ((h XOR of_nat (of_char c)) * 0x01000193) cs"

definition jsSimpleHash :: "string \<Rightarrow> nat" where
  "jsSimpleHash s = unat (hash_loop 0x811c9dc5 s)"

definition verifyPuzzle :: "string \<Rightarrow> nat \<Rightarrow> nat \<Rightarrow> bool" where
  "verifyPuzzle s difficulty nonce \<longleftrightarrow>
    difficulty \<noteq> 0 \<and> jsSimpleHash (s @ show_nat nonce) mod difficulty = 0"

function solve_loop :: "string \<Rightarrow> nat \<Rightarrow> nat \<Rightarrow> nat" where
  "solve_loop s difficulty nonce =
    (if verifyPuzzle s difficulty nonce then nonce
     else if Suc nonce > 1000000 then 0
     else solve_loop s difficulty (Suc nonce))"
  by pat_completeness auto
termination
  by (relation "measure (\<lambda>(s, d, n). 1000001 - n)") auto

declare solve_loop.simps [simp del]

definition solvePuzzle :: "string \<Rightarrow> nat \<Rightarrow> nat" where
  "solvePuzzle s difficulty = solve_loop s difficulty 0"

section \<open>The native engine\<close>

text \<open>
  \<^verbatim>\<open>simple_hash\<close> of \<^verbatim>\<open>pow.cpp\<close> walks the UTF-8 bytes; \<^verbatim>\<open>char\<close> is signed on the
  supported platform, so \<^verbatim>\<open>(uint32_t)c\<close> sign-extends each byte.
\<close>

fun native_hash_loop :: "32 word \<Rightarrow> 8 word list \<Rightarrow> 32 word" where
  "native_hash_loop h [] = h"
| "native_hash_loop h (b # bs) = native_hash_loop ((h XOR scast b) * 0x01000193) bs"

definition ascii :: "string \<Rightarrow> bool" where
  "ascii s \<longleftrightarrow> (\<forall>c \<in> set s. (of_char c :: nat) < 128)"

definition ascii_bytes :: "string \<Rightarrow> 8 word list" where
  "ascii_bytes s = map (\<lambda>c. of_nat (of_char c)) s"

definition native_verify :: "string \<Rightarrow> nat \<Rightarrow> nat \<Rightarrow> bool" where
  "native_verify s difficulty nonce \<longleftrightarrow>
    unat (native_hash_loop 0x811c9dc5 (ascii_bytes (s @ show_nat (nonce mod 2 ^ 32))))
      mod (difficulty mod 2 ^ 32) = 0"

section \<open>The solver\<close>

text \<open>Every puzzle with a solution in the searched range is solved; the answer 0 is the fallback.\<close>

lemma solve_loop_spec:
  "nonce \<le> 1000000 \<Longrightarrow>
    (verifyPuzzle s d (solve_loop s d nonce) \<and> nonce \<le> solve_loop s d nonce \<and> solve_loop s d nonce \<le> 1000000
      \<and> (\<forall>k. nonce \<le> k \<and> k < solve_loop s d nonce \<longrightarrow> \<not> verifyPuzzle s d k))
    \<or> (solve_loop s d nonce = 0 \<and> (\<forall>k. nonce \<le> k \<and> k \<le> 1000000 \<longrightarrow> \<not> verifyPuzzle s d k))"
proof (induction s d nonce rule: solve_loop.induct)
  case (1 s d n)
  show ?case
  proof (cases "verifyPuzzle s d n")
    case True
    then show ?thesis using "1.prems" by (auto simp: solve_loop.simps [of s d n])
  next
    case no: False
    show ?thesis
    proof (cases "Suc n > 1000000")
      case True
      then have "n = 1000000" using "1.prems" by simp
      moreover have "solve_loop s d n = 0" using no True by (simp add: solve_loop.simps [of s d n])
      ultimately show ?thesis using no by (metis le_antisym)
    next
      case False
      then have eq: "solve_loop s d n = solve_loop s d (Suc n)"
        using no by (simp add: solve_loop.simps [of s d n])
      have n: "n \<le> k \<longleftrightarrow> k = n \<or> Suc n \<le> k" for k by auto
      from "1.IH" [OF no False] False no show ?thesis unfolding eq n by auto
    qed
  qed
qed

text \<open>
  The solver returns for every input, and its answer either verifies and is the least
  nonce that does, or it is 0 and no nonce up to the safety bound 1000000 solves the puzzle.
\<close>

theorem solvePuzzle_correct:
  "(verifyPuzzle s d (solvePuzzle s d) \<and> (\<forall>k < solvePuzzle s d. \<not> verifyPuzzle s d k))
   \<or> (solvePuzzle s d = 0 \<and> (\<forall>k \<le> 1000000. \<not> verifyPuzzle s d k))"
  using solve_loop_spec [of 0 s d] by (auto simp: solvePuzzle_def)

theorem solvePuzzle_correct_witness:
  "solvePuzzle ''a'' 1 = 0 \<and> verifyPuzzle ''a'' 1 0"
proof -
  have v: "verifyPuzzle ''a'' 1 k" for k by (simp add: verifyPuzzle_def)
  have "\<not> 0 < solvePuzzle ''a'' 1" using solvePuzzle_correct [of "''a''" 1] v by auto
  then show ?thesis using v by simp
qed

lemma solvePuzzle_verifies:
  "\<exists>k \<le> 1000000. verifyPuzzle s d k \<Longrightarrow> verifyPuzzle s d (solvePuzzle s d)"
  using solve_loop_spec [of 0 s d] by (auto simp: solvePuzzle_def)

section \<open>Agreement of the two engines\<close>

lemma scast_ascii:
  "n < 128 \<Longrightarrow> (scast (of_nat n :: 8 word) :: 32 word) = of_nat n"
proof -
  assume n: "n < 128"
  have "sint (of_nat n :: 8 word) = int n"
    using n by (simp add: sint_uint signed_take_bit_eq_if_positive bit_iff_odd take_bit_nat_eq_self
        unsigned_of_nat take_bit_eq_mod)
  then show ?thesis by (simp add: scast_eq)
qed

lemma native_hash_ascii:
  "ascii s \<Longrightarrow> native_hash_loop h (ascii_bytes s) = hash_loop h s"
  by (induction s arbitrary: h) (auto simp: ascii_def ascii_bytes_def scast_ascii)

lemma ascii_show_nat: "ascii (show_nat n)"
  using show_nat_digits [of n] by (auto simp: ascii_def list_all_iff is_digit_def)

text \<open>
  On ASCII identifiers (message ids are UUIDs) the JavaScript fallback and the native
  engine verify exactly the same puzzles, for difficulties and nonces of 32 bits.
\<close>

theorem native_agrees_ascii:
  assumes "ascii s" and "0 < d" "d < 2 ^ 32" and "nonce < 2 ^ 32"
  shows "native_verify s d nonce = verifyPuzzle s d nonce"
proof -
  have "ascii (s @ show_nat nonce)"
    using assms(1) ascii_show_nat [of nonce] by (auto simp: ascii_def)
  then show ?thesis
    using assms by (simp add: native_verify_def verifyPuzzle_def jsSimpleHash_def native_hash_ascii)
qed

theorem native_agrees_ascii_witness: "native_verify ''ab'' 500 17 = verifyPuzzle ''ab'' 500 17"
  by (rule native_agrees_ascii) (simp_all add: ascii_def)

end
