(* ===== verification/LamportClock.thy ===== *)
theory LamportClock
  imports Prelude
begin

text \<open>
  The logical clock of \<^verbatim>\<open>protocol/lamportClock.js\<close>, the interface it promises (every
  operation moves the clock forward, past every timestamp it is shown), and what follows
  from that interface for a whole system of processes: timestamps respect causality.
\<close>

record lamport_clock =
  clk_value :: int

definition clock_init :: lamport_clock where
  "clock_init = \<lparr>clk_value = 0\<rparr>"

definition tick :: "lamport_clock \<Rightarrow> lamport_clock" where
  "tick c = c\<lparr>clk_value := clk_value c + 1\<rparr>"

definition clock_update :: "lamport_clock \<Rightarrow> int \<Rightarrow> lamport_clock" where
  "clock_update c receivedTime = c\<lparr>clk_value := max (clk_value c) receivedTime + 1\<rparr>"

section \<open>Processes that stamp their events\<close>

text \<open>
  Process \<open>p\<close> does something local, sends message \<open>m\<close> (stamped with its ticked clock), or
  receives \<open>m\<close> (merging the stamp the message carries). A run assigns every event the
  value of its process's clock after the event.
\<close>

datatype 'm event = Local nat | Send nat 'm | Recv nat 'm

fun proc :: "'m event \<Rightarrow> nat" where
  "proc (Local p) = p"
| "proc (Send p m) = p"
| "proc (Recv p m) = p"

fun stamp_step ::
  "('c \<Rightarrow> 'c) \<Rightarrow> ('c \<Rightarrow> int \<Rightarrow> 'c) \<Rightarrow> ('c \<Rightarrow> int) \<Rightarrow> (nat \<Rightarrow> 'c) \<times> ('m \<Rightarrow> int option) \<Rightarrow> 'm event
    \<Rightarrow> (nat \<Rightarrow> 'c) \<times> ('m \<Rightarrow> int option)" where
  "stamp_step tk mg val (cs, ms) (Local p) = (cs(p := tk (cs p)), ms)"
| "stamp_step tk mg val (cs, ms) (Send p m) =
     (cs(p := tk (cs p)), ms(m \<mapsto> val (tk (cs p))))"
| "stamp_step tk mg val (cs, ms) (Recv p m) =
     (case ms m of None \<Rightarrow> (cs(p := tk (cs p)), ms) | Some t \<Rightarrow> (cs(p := mg (cs p) t), ms))"

fun stamp_run ::
  "('c \<Rightarrow> 'c) \<Rightarrow> ('c \<Rightarrow> int \<Rightarrow> 'c) \<Rightarrow> ('c \<Rightarrow> int) \<Rightarrow> (nat \<Rightarrow> 'c) \<times> ('m \<Rightarrow> int option) \<Rightarrow> 'm event list
    \<Rightarrow> int list" where
  "stamp_run tk mg val st [] = []"
| "stamp_run tk mg val st (e # es) =
     (let st' = stamp_step tk mg val st e in val (fst st' (proc e)) # stamp_run tk mg val st' es)"

text \<open>Happened-before: program order, message order, and their transitive closure.\<close>

inductive happens_before :: "'m event list \<Rightarrow> nat \<Rightarrow> nat \<Rightarrow> bool" for es where
  hb_program: "i < j \<Longrightarrow> j < length es \<Longrightarrow> proc (es ! i) = proc (es ! j) \<Longrightarrow> happens_before es i j"
| hb_message: "i < j \<Longrightarrow> j < length es \<Longrightarrow> es ! i = Send p m \<Longrightarrow> es ! j = Recv q m \<Longrightarrow>
    (\<forall>k p'. i < k \<and> k < j \<longrightarrow> es ! k \<noteq> Send p' m) \<Longrightarrow> happens_before es i j"
| hb_trans: "happens_before es i j \<Longrightarrow> happens_before es j k \<Longrightarrow> happens_before es i k"

section \<open>The clock interface\<close>

locale logical_clock =
  fixes tick_op :: "'c \<Rightarrow> 'c"
    and merge_op :: "'c \<Rightarrow> int \<Rightarrow> 'c"
    and reading :: "'c \<Rightarrow> int"
  assumes tick_forward: "reading c < reading (tick_op c)"
    and merge_forward: "reading c < reading (merge_op c t)"
    and merge_past: "t < reading (merge_op c t)"
begin

lemma step_mono: "reading (fst st p) \<le> reading (fst (stamp_step tick_op merge_op reading st e) p)"
  by (cases st; cases e)
    (auto simp: less_imp_le [OF tick_forward] less_imp_le [OF merge_forward] split: option.splits)

lemma step_strict: "reading (fst st (proc e)) < reading (fst (stamp_step tick_op merge_op reading st e) (proc e))"
  by (cases st; cases e) (auto simp: tick_forward merge_forward split: option.splits)

lemma run_length [simp]: "length (stamp_run tick_op merge_op reading st es) = length es"
  by (induction es arbitrary: st) (auto simp: Let_def)

text \<open>A process's later stamps exceed what its clock showed at the start of the run.\<close>

lemma run_exceeds:
  "j < length es \<Longrightarrow>
    reading (fst st (proc (es ! j))) < stamp_run tick_op merge_op reading st es ! j"
proof (induction es arbitrary: st j)
  case Nil
  then show ?case by simp
next
  case (Cons e es)
  let ?st' = "stamp_step tick_op merge_op reading st e"
  show ?case
  proof (cases j)
    case 0
    then show ?thesis by (simp add: Let_def step_strict)
  next
    case (Suc k)
    have "reading (fst st (proc (es ! k))) \<le> reading (fst ?st' (proc (es ! k)))"
      by (rule step_mono)
    also have "\<dots> < stamp_run tick_op merge_op reading ?st' es ! k"
      using Cons Suc by simp
    finally show ?thesis using Suc by (simp add: Let_def)
  qed
qed

lemma program_order:
  "i < j \<Longrightarrow> j < length es \<Longrightarrow> proc (es ! i) = proc (es ! j) \<Longrightarrow>
    stamp_run tick_op merge_op reading st es ! i < stamp_run tick_op merge_op reading st es ! j"
proof (induction es arbitrary: st i j)
  case Nil
  then show ?case by simp
next
  case (Cons e es)
  obtain j' where j: "j = Suc j'" using Cons.prems(1) by (cases j) auto
  show ?case
  proof (cases i)
    case 0
    then show ?thesis
      using Cons.prems j run_exceeds [of j' es "stamp_step tick_op merge_op reading st e"]
      by (simp add: Let_def)
  next
    case (Suc i')
    then show ?thesis using Cons j by (simp add: Let_def)
  qed
qed

text \<open>A receive of a message that carries stamp \<open>t\<close> is stamped past \<open>t\<close>.\<close>

lemma receive_exceeds:
  "j < length es \<Longrightarrow> es ! j = Recv q m \<Longrightarrow> (\<forall>k p'. k < j \<longrightarrow> es ! k \<noteq> Send p' m) \<Longrightarrow>
    snd st m = Some t \<Longrightarrow> t < stamp_run tick_op merge_op reading st es ! j"
proof (induction es arbitrary: st j)
  case Nil
  then show ?case by simp
next
  case (Cons e es)
  show ?case
  proof (cases j)
    case 0
    then show ?thesis using Cons.prems by (cases st) (simp add: Let_def merge_past)
  next
    case (Suc k)
    have "e \<noteq> Send p' m" for p' using Cons.prems(3) Suc by force
    then have "snd (stamp_step tick_op merge_op reading st e) m = Some t"
      using Cons.prems(4) by (cases st; cases e) (auto split: option.splits)
    moreover have "\<forall>k' p'. k' < k \<longrightarrow> es ! k' \<noteq> Send p' m"
      using Cons.prems(3) Suc by force
    ultimately show ?thesis using Cons Suc by (simp add: Let_def)
  qed
qed

lemma message_order:
  "i < j \<Longrightarrow> j < length es \<Longrightarrow> es ! i = Send p m \<Longrightarrow> es ! j = Recv q m \<Longrightarrow>
    (\<forall>k p'. i < k \<and> k < j \<longrightarrow> es ! k \<noteq> Send p' m) \<Longrightarrow>
    stamp_run tick_op merge_op reading st es ! i < stamp_run tick_op merge_op reading st es ! j"
proof (induction es arbitrary: st i j)
  case Nil
  then show ?case by simp
next
  case (Cons e es)
  obtain j' where j: "j = Suc j'" using Cons.prems(1) by (cases j) auto
  let ?st' = "stamp_step tick_op merge_op reading st e"
  show ?case
  proof (cases i)
    case 0
    have e: "e = Send p m" using Cons.prems(3) 0 by simp
    have "snd ?st' m = Some (reading (fst ?st' p))" by (cases st) (simp add: e)
    moreover have "\<forall>k p'. k < j' \<longrightarrow> es ! k \<noteq> Send p' m"
    proof (intro allI impI)
      fix k p' assume "k < j'"
      then show "es ! k \<noteq> Send p' m" using Cons.prems(5) 0 j by (auto dest: spec [of _ "Suc k"])
    qed
    ultimately have "reading (fst ?st' p) < stamp_run tick_op merge_op reading ?st' es ! j'"
      using Cons.prems j receive_exceeds [of j' es q m ?st'] by simp
    then show ?thesis using 0 j e by (simp add: Let_def)
  next
    case (Suc i')
    have "\<forall>k p'. i' < k \<and> k < j' \<longrightarrow> es ! k \<noteq> Send p' m"
    proof (intro allI impI)
      fix k p' assume "i' < k \<and> k < j'"
      then show "es ! k \<noteq> Send p' m" using Cons.prems(5) Suc j by (auto dest: spec [of _ "Suc k"])
    qed
    then show ?thesis using Cons Suc j by (simp add: Let_def)
  qed
qed

lemma causal_order:
  "happens_before es i j \<Longrightarrow>
    stamp_run tick_op merge_op reading st es ! i < stamp_run tick_op merge_op reading st es ! j"
proof (induction rule: happens_before.induct)
  case (hb_program i j)
  then show ?case by (rule program_order)
next
  case (hb_message i j p m q)
  then show ?case by (rule message_order)
next
  case (hb_trans i j k)
  then show ?case by simp
qed

end

interpretation lamport: logical_clock tick clock_update clk_value
  by unfold_locales (auto simp: tick_def clock_update_def)



end
