(* ===== verification/Message.thy ===== *)
theory Message
  imports Json Pow LamportClock
begin

text \<open>
  The message format of \<^verbatim>\<open>protocol/schema.js\<close>, its JSON form, and the constructors of
  \<^verbatim>\<open>protocol/messageFactory.js\<close>. A message is the typed view of a schema-conforming
  object: required fields are plain values, fields the code tests for absence are options.
  The package functions the factory calls are arguments: \<open>uid\<close> is the fresh UUID and
  \<open>date\<close> the ISO string of the current time.
\<close>

record message =
  msg_id :: string
  msg_type :: string
  ttl :: int
  lamportTimestamp :: int
  sender :: peer_id
  senderPublicKey :: "string option"
  msg_topic :: topic_name
  payload :: string
  createdAt :: string
  powNonce :: "nat option"
  routingPath :: "peer_id list option"
  signature :: "string option"

section \<open>JSON form\<close>

definition opt_field :: "string \<Rightarrow> ('a \<Rightarrow> json) \<Rightarrow> 'a option \<Rightarrow> (string \<times> json) list" where
  "opt_field k f v = (case v of None \<Rightarrow> [] | Some x \<Rightarrow> [(k, f x)])"

definition message_json :: "message \<Rightarrow> json" where
  "message_json m = JObj (
     [(''id'', JStr (msg_id m)), (''type'', JStr (msg_type m)), (''ttl'', JNum (ttl m)),
      (''lamportTimestamp'', JNum (lamportTimestamp m)), (''sender'', JStr (sender m)),
      (''senderPublicKey'', (case senderPublicKey m of None \<Rightarrow> JNull | Some k \<Rightarrow> JStr k)),
      (''topic'', JStr (msg_topic m)), (''payload'', JStr (payload m)),
      (''createdAt'', JStr (createdAt m))]
     @ opt_field ''powNonce'' (\<lambda>n. JNum (int n)) (powNonce m)
     @ opt_field ''routingPath'' (\<lambda>p. JArr (map JStr p)) (routingPath m)
     @ opt_field ''signature'' JStr (signature m))"

fun json_str :: "json \<Rightarrow> string option" where
  "json_str (JStr s) = Some s"
| "json_str _ = None"

fun json_int :: "json \<Rightarrow> int option" where
  "json_int (JNum i) = Some i"
| "json_int _ = None"

fun json_strs :: "json list \<Rightarrow> string list option" where
  "json_strs [] = Some []"
| "json_strs (JStr s # vs) = map_option ((#) s) (json_strs vs)"
| "json_strs _ = None"

definition str_field :: "(string \<times> json) list \<Rightarrow> string \<Rightarrow> string option" where
  "str_field fs k = Option.bind (map_get fs k) json_str"

definition int_field :: "(string \<times> json) list \<Rightarrow> string \<Rightarrow> int option" where
  "int_field fs k = Option.bind (map_get fs k) json_int"

fun path_field :: "json option \<Rightarrow> string list option" where
  "path_field (Some (JArr vs)) = json_strs vs"
| "path_field _ = None"

text \<open>The typed view of a parsed object; \<^const>\<open>None\<close> when a required field is missing or ill-typed.\<close>

definition message_of_json :: "json \<Rightarrow> message option" where
  "message_of_json j = (case j of
     JObj fs \<Rightarrow>
       (case (str_field fs ''id'', str_field fs ''type'', int_field fs ''ttl'',
              int_field fs ''lamportTimestamp'', str_field fs ''sender'', str_field fs ''topic'',
              str_field fs ''payload'', str_field fs ''createdAt'') of
          (Some i, Some t, Some l, Some ts, Some s, Some tp, Some p, Some d) \<Rightarrow>
            Some \<lparr>msg_id = i, msg_type = t, ttl = l, lamportTimestamp = ts, sender = s,
              senderPublicKey = str_field fs ''senderPublicKey'', msg_topic = tp, payload = p,
              createdAt = d, powNonce = map_option nat (int_field fs ''powNonce''),
              routingPath = path_field (map_get fs ''routingPath''),
              signature = str_field fs ''signature''\<rparr>
        | _ \<Rightarrow> None)
   | _ \<Rightarrow> None)"

definition parse_message :: "string \<Rightarrow> message option" where
  "parse_message s = Option.bind (json_parse s) message_of_json"

definition print_message :: "message \<Rightarrow> string" where
  "print_message m = stringify (message_json m)"

lemma json_strs_map [simp]: "json_strs (map JStr p) = Some p"
  by (induction p) auto

lemma list_all_JStr [simp]: "list_all json_ok (map JStr p)"
  by (induction p) auto

lemma message_json_ok: "json_ok (message_json m)"
  by (simp add: message_json_def opt_field_def split: option.splits)

lemma message_of_json_json: "message_of_json (message_json m) = Some m"
  by (simp add: message_json_def message_of_json_def opt_field_def str_field_def int_field_def
      split: option.splits)


lemma print_message_inj: "print_message m = print_message m' \<Longrightarrow> m = m'"
  using stringify_inj [OF message_json_ok message_json_ok] message_of_json_json
  by (metis option.inject print_message_def)

section \<open>The factory\<close>

record factory =
  logicalClock :: int

definition factory_init :: factory where
  "factory_init = \<lparr>logicalClock = 0\<rparr>"

definition createBaseMessage ::
  "string \<Rightarrow> string \<Rightarrow> string \<Rightarrow> peer_id \<Rightarrow> string \<Rightarrow> int option \<Rightarrow> topic_name option \<Rightarrow> string option
    \<Rightarrow> factory \<Rightarrow> message \<times> factory" where
  "createBaseMessage uid date type frm pl opt_ttl opt_topic opt_key f =
    (let f = f\<lparr>logicalClock := logicalClock f + 1\<rparr>;
         workNonce = solvePuzzle uid POW_DIFFICULTY
     in (\<lparr>msg_id = uid, msg_type = type,
          ttl = (case opt_ttl of None \<Rightarrow> MAX_TTL | Some t \<Rightarrow> t),
          lamportTimestamp = logicalClock f, sender = frm,
          senderPublicKey = (if opt_key = Some [] then None else opt_key),
          msg_topic = (case opt_topic of None \<Rightarrow> ''global'' | Some t \<Rightarrow> t),
          payload = pl, createdAt = date, powNonce = Some workNonce,
          routingPath = None, signature = None\<rparr>, f))"

definition createChat ::
  "string \<Rightarrow> string \<Rightarrow> peer_id \<Rightarrow> string \<Rightarrow> topic_name \<Rightarrow> string option \<Rightarrow> factory \<Rightarrow> message \<times> factory" where
  "createChat uid date frm txt tp key = createBaseMessage uid date ''CHAT'' frm txt None (Some tp) key"

definition createAck :: "string \<Rightarrow> string \<Rightarrow> peer_id \<Rightarrow> string \<Rightarrow> factory \<Rightarrow> message \<times> factory" where
  "createAck uid date frm ackId =
    createBaseMessage uid date ''ACK'' frm (stringify (JObj [(''ackId'', JStr ackId)])) (Some 2) None None"

definition createHeartbeat :: "string \<Rightarrow> string \<Rightarrow> peer_id \<Rightarrow> factory \<Rightarrow> message \<times> factory" where
  "createHeartbeat uid date frm = createBaseMessage uid date ''HEARTBEAT'' frm ''ping'' (Some 1) None None"

definition createPeerExchange ::
  "string \<Rightarrow> string \<Rightarrow> peer_id \<Rightarrow> string list \<Rightarrow> factory \<Rightarrow> message \<times> factory" where
  "createPeerExchange uid date frm known =
    createBaseMessage uid date ''PEER_EXCHANGE'' frm (stringify (JArr (map JStr known))) (Some 3) None None"

definition createSyncBatch ::
  "string \<Rightarrow> string \<Rightarrow> peer_id \<Rightarrow> message list \<Rightarrow> factory \<Rightarrow> message \<times> factory" where
  "createSyncBatch uid date frm msgs =
    createBaseMessage uid date ''SYNC_BATCH'' frm (stringify (JArr (map message_json msgs))) (Some 1) None None"

definition createSyncAck :: "string \<Rightarrow> string \<Rightarrow> peer_id \<Rightarrow> string \<Rightarrow> factory \<Rightarrow> message \<times> factory" where
  "createSyncAck uid date frm batchId =
    createBaseMessage uid date ''SYNC_ACK'' frm (stringify (JObj [(''batchId'', JStr batchId)])) (Some 1) None None"

definition sub_ad_payload :: "topic_name \<Rightarrow> int \<Rightarrow> string \<Rightarrow> string" where
  "sub_ad_payload tp seq action =
    stringify (JObj [(''topic'', JStr tp), (''sequenceNumber'', JNum seq), (''action'', JStr action)])"

definition createSubAd ::
  "string \<Rightarrow> string \<Rightarrow> peer_id \<Rightarrow> topic_name \<Rightarrow> int \<Rightarrow> string \<Rightarrow> peer_id list \<Rightarrow> string option
    \<Rightarrow> factory \<Rightarrow> message \<times> factory" where
  "createSubAd uid date frm tp seq action path key f =
    (let (m, f') = createBaseMessage uid date ''SUB_AD'' frm (sub_ad_payload tp seq action)
                     (Some MAX_TTL) None key f
     in (m\<lparr>routingPath := Some path\<rparr>, f'))"

definition createSummary ::
  "string \<Rightarrow> string \<Rightarrow> peer_id \<Rightarrow> topic_name \<Rightarrow> string \<Rightarrow> (string \<times> json) list \<Rightarrow> string option
    \<Rightarrow> factory \<Rightarrow> message \<times> factory" where
  "createSummary uid date frm tp summaryText metadata key =
    createBaseMessage uid date ''SUMMARY'' frm
      (stringify (JObj [(''summary'', JStr summaryText), (''metadata'', JObj metadata)]))
      None (Some tp) key"

lemmas factory_defs = createChat_def createAck_def createHeartbeat_def createPeerExchange_def
  createSyncBatch_def createSyncAck_def createSubAd_def createSummary_def

section \<open>The puzzle interface\<close>

text \<open>What the factory relies on: a puzzle that has a solution within the bound is solved.\<close>

locale puzzle =
  fixes solve :: "string \<Rightarrow> nat \<Rightarrow> nat"
    and verify :: "string \<Rightarrow> nat \<Rightarrow> nat \<Rightarrow> bool"
    and bound :: nat
  assumes solve_verifies: "\<exists>k \<le> bound. verify s d k \<Longrightarrow> verify s d (solve s d)"
begin

lemma unsolved_unsolvable: "\<not> verify s d (solve s d) \<Longrightarrow> k \<le> bound \<Longrightarrow> \<not> verify s d k"
  using solve_verifies by blast

end

interpretation pow: puzzle solvePuzzle verifyPuzzle 1000000
  by unfold_locales (rule solvePuzzle_verifies)

text \<open>The receiver's proof-of-work check on a message (step 1 of the gossip engine).\<close>

definition pow_ok :: "message \<Rightarrow> bool" where
  "pow_ok m = verifyPuzzle (msg_id m) POW_DIFFICULTY (case powNonce m of None \<Rightarrow> 0 | Some n \<Rightarrow> n)"

lemma createBaseMessage_fields [simp]:
  "msg_id (fst (createBaseMessage uid date ty s p ot oc ok f)) = uid"
  "msg_type (fst (createBaseMessage uid date ty s p ot oc ok f)) = ty"
  "sender (fst (createBaseMessage uid date ty s p ot oc ok f)) = s"
  "payload (fst (createBaseMessage uid date ty s p ot oc ok f)) = p"
  "ttl (fst (createBaseMessage uid date ty s p ot oc ok f)) = (case ot of None \<Rightarrow> MAX_TTL | Some t \<Rightarrow> t)"
  "lamportTimestamp (fst (createBaseMessage uid date ty s p ot oc ok f)) = logicalClock f + 1"
  "msg_topic (fst (createBaseMessage uid date ty s p ot oc ok f)) = (case oc of None \<Rightarrow> ''global'' | Some t \<Rightarrow> t)"
  "powNonce (fst (createBaseMessage uid date ty s p ot oc ok f)) = Some (solvePuzzle uid 500)"
  "createdAt (fst (createBaseMessage uid date ty s p ot oc ok f)) = date"
  "routingPath (fst (createBaseMessage uid date ty s p ot oc ok f)) = None"
  "signature (fst (createBaseMessage uid date ty s p ot oc ok f)) = None"
  "logicalClock (snd (createBaseMessage uid date ty s p ot oc ok f)) = logicalClock f + 1"
  by (simp_all add: createBaseMessage_def Let_def)

text \<open>
  Every message the factory builds passes the proof-of-work check of every receiver,
  unless no nonce up to the solver's safety bound solves the puzzle of its id.
\<close>

theorem created_message_passes_pow:
  assumes "\<exists>k \<le> 1000000. verifyPuzzle uid 500 k"
  shows "pow_ok (fst (createBaseMessage uid date ty s p ot oc ok f))"
  using pow.solve_verifies [OF assms] by (simp add: pow_ok_def)

theorem created_message_passes_pow_witness:
  "pow_ok (fst (createBaseMessage ''fb1'' ''2024-01-01'' ''CHAT'' ''alice'' ''hi'' None None None factory_init))"
proof -
  have "jsSimpleHash (''fb1'' @ ''0'') = 64736000"
    by (simp add: jsSimpleHash_def)
  then have "verifyPuzzle ''fb1'' 500 0"
    by (simp add: verifyPuzzle_def show_nat_eval)
  then have "\<exists>k \<le> 1000000. verifyPuzzle ''fb1'' 500 k" by blast
  then show ?thesis by (rule created_message_passes_pow)
qed

section \<open>Time to live and timestamps\<close>

lemma createChat_ttl: "ttl (fst (createChat uid d s t c k f)) = 10"
  by (simp add: createChat_def)

lemma factory_stamps:
  "lamportTimestamp (fst (createChat uid d s t c k f)) = logicalClock f + 1"
  "logicalClock (snd (createChat uid d s t c k f)) = logicalClock f + 1"
  by (simp_all add: createChat_def)

text \<open>
  The factory's clock is a counter of its own: no operation merges a received timestamp
  into it. A message created in reply to one stamped far ahead is stamped below it.
\<close>

text \<open>
  The timestamp of a created message depends only on how many messages this process has
  created: whatever timestamp t the node's Lamport clock has merged from received messages,
  a chat created next is stamped one past the factory's own counter, so a reply to a message
  stamped beyond that counter carries a smaller timestamp than the message it answers.
\<close>

theorem factory_ignores_received_time:
  assumes "logicalClock f + 1 < t"
  shows "lamportTimestamp (fst (createChat uid d s txt c k f)) < t
    \<and> t < clk_value (clock_update clk t)"
  using assms lamport.merge_past by (simp add: factory_stamps)

theorem factory_ignores_received_time_witness:
  "lamportTimestamp (fst (createChat ''u'' ''d'' ''bob'' ''re: hi'' ''global'' None factory_init)) < 40
    \<and> 40 < clk_value (clock_update clock_init 40)"
  by (rule factory_ignores_received_time) (simp add: factory_init_def)

end
