(* ===== verification/Security.thy ===== *)
theory Security
  imports KeyManager Message Collector
begin

text \<open>
  The security manager of \<^verbatim>\<open>security/index.js\<close>: the public keys learned for each peer, the
  signature over the core fields of a message and its verification. A key that is
  \<^verbatim>\<open>undefined\<close> or empty counts as absent, as does an empty signature.
\<close>

record security =
  keyManager :: key_manager
  peerPublicKeys :: "(peer_id, string option) jmap"

definition truthy :: "string option \<Rightarrow> bool" where
  "truthy v = (case v of None \<Rightarrow> False | Some s \<Rightarrow> s \<noteq> [])"

definition registerPeerKey :: "peer_id \<Rightarrow> string option \<Rightarrow> security \<Rightarrow> security" where
  "registerPeerKey p key sec = sec\<lparr>peerPublicKeys := map_set (peerPublicKeys sec) p key\<rparr>"

definition security_init :: "key_manager \<Rightarrow> peer_id option \<Rightarrow> security" where
  "security_init km localPeer =
    (let sec = \<lparr>keyManager = km, peerPublicKeys = []\<rparr>
     in if truthy localPeer then registerPeerKey (the localPeer) (Some (getPublicKey km)) sec else sec)"

definition payloadToSign :: "message \<Rightarrow> string" where
  "payloadToSign m = stringify (JObj
     [(''id'', JStr (msg_id m)), (''type'', JStr (msg_type m)), (''sender'', JStr (sender m)),
      (''topic'', JStr (msg_topic m)), (''payload'', JStr (payload m))])"

definition signOutgoingMessage :: "sodium \<Rightarrow> security \<Rightarrow> message \<Rightarrow> message" where
  "signOutgoingMessage s sec m = m\<lparr>signature := Some (km_sign s (keyManager sec) (payloadToSign m))\<rparr>"

definition verifyIncomingMessage ::
  "sodium \<Rightarrow> message \<Rightarrow> security \<Rightarrow> collector \<Rightarrow> bool \<times> security \<times> collector" where
  "verifyIncomingMessage s m sec col =
    (if \<not> truthy (signature m) then (False, sec, increment ''invalid_signature_count'' col)
     else
       let known = Option.bind (map_get (peerPublicKeys sec) (sender m)) (\<lambda>k. k);
           learn = \<not> truthy known \<and> truthy (senderPublicKey m);
           sec = (if learn then registerPeerKey (sender m) (senderPublicKey m) sec else sec);
           key = (if learn then senderPublicKey m else known)
       in if \<not> truthy key then (False, sec, col)
          else
            let isValid = km_verify s (payloadToSign m) (the (signature m)) (the key)
            in (isValid, sec, if isValid then col else increment ''invalid_signature_count'' col))"

section \<open>What a signature covers\<close>

lemma payloadToSign_inj:
  assumes "payloadToSign m = payloadToSign m'"
  shows "msg_id m = msg_id m' \<and> msg_type m = msg_type m' \<and> sender m = sender m'
    \<and> msg_topic m = msg_topic m' \<and> payload m = payload m'"
  using stringify_inj [OF _ _ assms [unfolded payloadToSign_def]] by simp

text \<open>The key that will be used for a message, once known or carried.\<close>

definition key_for :: "message \<Rightarrow> security \<Rightarrow> string option" where
  "key_for m sec = (let known = Option.bind (map_get (peerPublicKeys sec) (sender m)) (\<lambda>k. k)
     in if truthy known then known else if truthy (senderPublicKey m) then senderPublicKey m else None)"

lemma verify_result:
  "fst (verifyIncomingMessage s m sec col) \<longleftrightarrow>
    truthy (signature m) \<and> (\<exists>k. key_for m sec = Some k \<and> km_verify s (payloadToSign m) (the (signature m)) k)"
  by (auto simp: verifyIncomingMessage_def key_for_def Let_def truthy_def split: option.splits if_splits)

text \<open>A peer whose key is known keeps it: verification never replaces a pinned key.\<close>

definition pinned :: "peer_id \<Rightarrow> security \<Rightarrow> string option" where
  "pinned p sec = (let k = Option.bind (map_get (peerPublicKeys sec) p) (\<lambda>k. k) in if truthy k then k else None)"

lemma verify_keeps_pinned:
  "pinned p sec = Some k \<Longrightarrow> pinned p (fst (snd (verifyIncomingMessage s m sec col))) = Some k"
  by (auto simp: pinned_def verifyIncomingMessage_def registerPeerKey_def Let_def map_get_set split: if_splits)

lemma key_for_pinned: "pinned (sender m) sec = Some k \<Longrightarrow> key_for m sec = Some k"
  by (auto simp: pinned_def key_for_def Let_def split: if_splits)

fun verify_all :: "sodium \<Rightarrow> message list \<Rightarrow> security \<Rightarrow> collector \<Rightarrow> bool list \<times> security \<times> collector" where
  "verify_all s [] sec col = ([], sec, col)"
| "verify_all s (m # ms) sec col =
    (case verifyIncomingMessage s m sec col of (b, sec, col) \<Rightarrow>
       case verify_all s ms sec col of (bs, r) \<Rightarrow> (b # bs, r))"

lemma verify_all_pinned:
  "pinned p sec = Some k \<Longrightarrow>
    pinned p (fst (snd (verify_all s ms sec col))) = Some k
    \<and> (\<forall>(b, m) \<in> set (zip (fst (verify_all s ms sec col)) ms).
        b \<and> sender m = p \<longrightarrow> (\<exists>sgn. signature m = Some sgn \<and> km_verify s (payloadToSign m) sgn k))"
proof (induction ms arbitrary: sec col)
  case (Cons m ms)
  obtain b sec1 col1 where v: "verifyIncomingMessage s m sec col = (b, sec1, col1)"
    by (cases "verifyIncomingMessage s m sec col")
  have p1: "pinned p sec1 = Some k" using verify_keeps_pinned [OF Cons.prems, of s m col] v by simp
  have b: "b \<and> sender m = p \<Longrightarrow> \<exists>sgn. signature m = Some sgn \<and> km_verify s (payloadToSign m) sgn k"
    using verify_result [of s m sec col] v key_for_pinned [of m sec k] Cons.prems
    by (auto simp: truthy_def split: option.splits)
  show ?case using Cons.IH [OF p1, of col1] b v by (auto simp: case_prod_beta)
qed simp


definition sample_message :: message where
  "sample_message = \<lparr>msg_id = ''m1'', msg_type = ''CHAT'', ttl = 10, lamportTimestamp = 1, sender = ''bob'',
     senderPublicKey = None, msg_topic = ''global'', payload = ''hi'', createdAt = ''d'', powNonce = Some 0,
     routingPath = None, signature = Some (b64_encode (replicate 64 (CHR ''s'')))\<rparr>"



lemma toy_public_key: "getPublicKey (toy_keys c) \<noteq> []"
proof
  assume "getPublicKey (toy_keys c) = []"
  then have "b64_decode (getPublicKey (toy_keys c)) = b64_decode []" by simp
  then show False by (simp add: getPublicKey_def toy_keys_def)
qed


end
