(* ===== verification/RateLimiter.thy ===== *)
theory RateLimiter
  imports Prelude Config Complex_Main
begin

text \<open>
  The token buckets, violations and bans of \<^verbatim>\<open>protocol/rateLimiter.js\<close>. Token counts
  are exact rationals where the code computes with doubles. The two clock readings a check
  takes (\<^verbatim>\<open>Date.now()\<close> in \<^verbatim>\<open>checkLimit\<close> and again in \<^verbatim>\<open>_refill\<close>) are
  the arguments \<open>now\<close> and \<open>now'\<close>. Emitted events are returned as a list.
\<close>

record bucket =
  tokens :: rat
  lastRefill :: time

record rate_limiter =
  capacity :: nat
  refillRatePerSec :: nat
  buckets :: "(peer_id, bucket) jmap"
  violations :: "(peer_id, time list) jmap"
  bannedPeers :: "(peer_id, time) jmap"

datatype rl_event = Rate_Limited peer_id | Peer_Banned peer_id

definition BAN_THRESHOLD :: nat where [simp]: "BAN_THRESHOLD = 10"
definition VIOLATION_WINDOW_MS :: time where [simp]: "VIOLATION_WINDOW_MS = 60 * 1000"
definition BAN_DURATION_MS :: time where [simp]: "BAN_DURATION_MS = 5 * 60 * 1000"

text \<open>\<^verbatim>\<open>options.capacity || config.RATE_LIMIT_CAPACITY || 20\<close>: 0 counts as absent.\<close>

definition or_default :: "nat option \<Rightarrow> nat \<Rightarrow> nat" where
  "or_default v d = (case v of None \<Rightarrow> d | Some n \<Rightarrow> if n = 0 then d else n)"

definition rl_init :: "nat option \<Rightarrow> nat option \<Rightarrow> rate_limiter" where
  "rl_init opt_capacity opt_rate =
    \<lparr>capacity = or_default opt_capacity (or_default (Some RATE_LIMIT_CAPACITY) 20),
     refillRatePerSec = or_default opt_rate (or_default (Some RATE_LIMIT_REFILL_RATE) 5),
     buckets = [], violations = [], bannedPeers = []\<rparr>"

definition refill :: "time \<Rightarrow> peer_id \<Rightarrow> rate_limiter \<Rightarrow> rate_limiter" where
  "refill now p rl =
    (case map_get (buckets rl) p of
       None \<Rightarrow> rl\<lparr>buckets := map_set (buckets rl) p \<lparr>tokens = of_nat (capacity rl), lastRefill = now\<rparr>\<rparr>
     | Some b \<Rightarrow>
         (let timePassedSec = of_int (now - lastRefill b) / 1000 in
          if timePassedSec > 0 then
            rl\<lparr>buckets := map_set (buckets rl) p
                 \<lparr>tokens = min (of_nat (capacity rl)) (tokens b + timePassedSec * of_nat (refillRatePerSec rl)),
                  lastRefill = now\<rparr>\<rparr>
          else rl))"

definition shouldBan :: "peer_id \<Rightarrow> rate_limiter \<Rightarrow> bool" where
  "shouldBan p rl = (case map_get (violations rl) p of None \<Rightarrow> False | Some h \<Rightarrow> length h > BAN_THRESHOLD)"

definition applyBan :: "peer_id \<Rightarrow> time \<Rightarrow> rate_limiter \<Rightarrow> rate_limiter \<times> rl_event list" where
  "applyBan p timestamp rl =
    (rl\<lparr>bannedPeers := map_set (bannedPeers rl) p (timestamp + BAN_DURATION_MS),
        violations := map_delete (violations rl) p\<rparr>, [Peer_Banned p])"

definition recordViolation :: "peer_id \<Rightarrow> time \<Rightarrow> rate_limiter \<Rightarrow> rate_limiter \<times> rl_event list" where
  "recordViolation p timestamp rl =
    (let history = (case map_get (violations rl) p of None \<Rightarrow> [] | Some h \<Rightarrow> h) @ [timestamp];
         history = dropWhile (\<lambda>t. t < timestamp - VIOLATION_WINDOW_MS) history;
         rl = rl\<lparr>violations := map_set (violations rl) p history\<rparr>
     in if shouldBan p rl then applyBan p timestamp rl else (rl, []))"

definition is_banned :: "time \<Rightarrow> peer_id \<Rightarrow> rate_limiter \<Rightarrow> bool" where
  "is_banned now p rl = (case map_get (bannedPeers rl) p of None \<Rightarrow> False | Some e \<Rightarrow> now \<le> e)"

definition expire_ban :: "peer_id \<Rightarrow> rate_limiter \<Rightarrow> rate_limiter" where
  "expire_ban p rl =
    (if map_has (bannedPeers rl) p then rl\<lparr>bannedPeers := map_delete (bannedPeers rl) p\<rparr> else rl)"

definition checkLimit ::
  "time \<Rightarrow> time \<Rightarrow> peer_id \<Rightarrow> rate_limiter \<Rightarrow> bool \<times> rate_limiter \<times> rl_event list" where
  "checkLimit now now' p rl =
    (if map_has (bannedPeers rl) p \<and> is_banned now p rl then (False, rl, [])
     else
       let rl = refill now' p (expire_ban p rl)
       in case map_get (buckets rl) p of
            None \<Rightarrow> (False, rl, [])
          | Some b \<Rightarrow>
              if tokens b \<ge> 1 then
                (True, rl\<lparr>buckets := map_set (buckets rl) p (b\<lparr>tokens := tokens b - 1\<rparr>)\<rparr>, [])
              else
                (let (rl, evs) = recordViolation p now rl in (False, rl, Rate_Limited p # evs)))"

section \<open>Invariant\<close>

definition bucket_ok :: "nat \<Rightarrow> bucket \<Rightarrow> bool" where
  "bucket_ok cap b \<longleftrightarrow> 0 \<le> tokens b \<and> tokens b \<le> of_nat cap"

definition rl_ok :: "rate_limiter \<Rightarrow> bool" where
  "rl_ok rl \<longleftrightarrow>
    (\<forall>p b. map_get (buckets rl) p = Some b \<longrightarrow> bucket_ok (capacity rl) b) \<and>
    (\<forall>p h. map_get (violations rl) p = Some h \<longrightarrow> length h \<le> BAN_THRESHOLD)"

lemma or_default_pos: "0 < d \<Longrightarrow> 0 < or_default v d"
  by (auto simp: or_default_def split: option.splits)

lemma rl_init_ok: "rl_ok (rl_init c r)"
  by (simp add: rl_ok_def rl_init_def)

lemma capacity_refill [simp]: "capacity (refill t p rl) = capacity rl"
  "refillRatePerSec (refill t p rl) = refillRatePerSec rl"
  "violations (refill t p rl) = violations rl" "bannedPeers (refill t p rl) = bannedPeers rl"
  by (simp_all add: refill_def Let_def split: option.splits)

lemma recordViolation_frame [simp]:
  "capacity (fst (recordViolation p t rl)) = capacity rl"
  "refillRatePerSec (fst (recordViolation p t rl)) = refillRatePerSec rl"
  "buckets (fst (recordViolation p t rl)) = buckets rl"
  by (simp_all add: recordViolation_def applyBan_def Let_def)

lemma expire_ban_frame [simp]:
  "buckets (expire_ban p rl) = buckets rl" "capacity (expire_ban p rl) = capacity rl"
  "refillRatePerSec (expire_ban p rl) = refillRatePerSec rl" "violations (expire_ban p rl) = violations rl"
  "map_get (bannedPeers (expire_ban p rl)) q = (if q = p then None else map_get (bannedPeers rl) q)"
  by (auto simp: expire_ban_def map_get_delete)

lemma checkLimit_capacity [simp]:
  "capacity (fst (snd (checkLimit t t' p rl))) = capacity rl"
  "refillRatePerSec (fst (snd (checkLimit t t' p rl))) = refillRatePerSec rl"
  by (simp_all add: checkLimit_def Let_def case_prod_beta split: option.splits)

lemma refill_get:
  "map_get (buckets (refill now p rl)) p' =
    (if p' = p then
       Some (case map_get (buckets rl) p of
         None \<Rightarrow> \<lparr>tokens = of_nat (capacity rl), lastRefill = now\<rparr>
       | Some b \<Rightarrow>
           if now > lastRefill b then
             \<lparr>tokens = min (of_nat (capacity rl))
                (tokens b + of_int (now - lastRefill b) / 1000 * of_nat (refillRatePerSec rl)), lastRefill = now\<rparr>
           else b)
     else map_get (buckets rl) p')"
  by (auto simp: refill_def Let_def map_get_set split: option.splits)

lemma refill_ok: "rl_ok rl \<Longrightarrow> rl_ok (refill now p rl)"
  unfolding rl_ok_def by (auto simp: refill_get bucket_ok_def split: option.splits)

lemma recordViolation_ok: "rl_ok rl \<Longrightarrow> rl_ok (fst (recordViolation p t rl))"
  unfolding rl_ok_def recordViolation_def applyBan_def shouldBan_def Let_def
  by (auto simp: map_get_set map_get_delete not_less split: option.splits if_splits)

lemma checkLimit_banned: "is_banned now p rl \<Longrightarrow> checkLimit now now' p rl = (False, rl, [])"
  by (auto simp: checkLimit_def is_banned_def split: option.splits)

text \<open>A check of a peer that is not banned takes a token from the refilled bucket or records a violation.\<close>

lemma checkLimit_unbanned:
  assumes "\<not> is_banned now p rl"
  obtains b where "map_get (buckets (refill now' p (expire_ban p rl))) p = Some b"
    and "checkLimit now now' p rl = (if 1 \<le> tokens b then
       (True, (refill now' p (expire_ban p rl))\<lparr>buckets :=
          map_set (buckets (refill now' p (expire_ban p rl))) p (b\<lparr>tokens := tokens b - 1\<rparr>)\<rparr>, [])
     else (False, fst (recordViolation p now (refill now' p (expire_ban p rl))),
       Rate_Limited p # snd (recordViolation p now (refill now' p (expire_ban p rl)))))"
proof -
  obtain b where b: "map_get (buckets (refill now' p (expire_ban p rl))) p = Some b"
    by (simp add: refill_get)
  show thesis
    by (rule that [OF b]) (use assms b in \<open>simp add: checkLimit_def Let_def case_prod_beta\<close>)
qed

lemma checkLimit_ok: "rl_ok rl \<Longrightarrow> rl_ok (fst (snd (checkLimit now now' p rl)))"
proof (cases "is_banned now p rl")
  case False
  assume ok: "rl_ok rl"
  let ?rl = "refill now' p (expire_ban p rl)"
  have "rl_ok (expire_ban p rl)" using ok by (simp add: rl_ok_def)
  then have ok2: "rl_ok ?rl" by (rule refill_ok)
  obtain b where b: "map_get (buckets ?rl) p = Some b"
    and eq: "checkLimit now now' p rl = (if 1 \<le> tokens b then
       (True, ?rl\<lparr>buckets := map_set (buckets ?rl) p (b\<lparr>tokens := tokens b - 1\<rparr>)\<rparr>, [])
     else (False, fst (recordViolation p now ?rl), Rate_Limited p # snd (recordViolation p now ?rl)))"
    by (rule checkLimit_unbanned [OF False])
  have "1 \<le> tokens b \<Longrightarrow> rl_ok (?rl\<lparr>buckets := map_set (buckets ?rl) p (b\<lparr>tokens := tokens b - 1\<rparr>)\<rparr>)"
    using ok2 b unfolding rl_ok_def bucket_ok_def
    by (auto simp: map_get_set intro: order_trans [of "tokens b - 1" "tokens b"])
  then show ?thesis using eq recordViolation_ok [OF ok2] by simp
qed (simp add: checkLimit_banned)

section \<open>One check, seen from one peer\<close>

text \<open>Everything a check for \<open>p\<close> reads, and all it writes.\<close>

definition rl_view :: "peer_id \<Rightarrow> rate_limiter \<Rightarrow> nat \<times> nat \<times> bucket option \<times> time list option \<times> time option" where
  "rl_view p rl = (capacity rl, refillRatePerSec rl, map_get (buckets rl) p,
     map_get (violations rl) p, map_get (bannedPeers rl) p)"

lemma rl_view_other: "q \<noteq> p \<Longrightarrow> rl_view q (fst (snd (checkLimit t t' p rl))) = rl_view q rl"
  unfolding rl_view_def checkLimit_def recordViolation_def applyBan_def shouldBan_def Let_def
  by (auto simp: map_get_set map_get_delete refill_get case_prod_beta split: option.splits)

lemma rl_view_eqD:
  "rl_view p l = rl_view p l' \<Longrightarrow> capacity l = capacity l' \<and> refillRatePerSec l = refillRatePerSec l'
    \<and> map_get (buckets l) p = map_get (buckets l') p \<and> map_get (violations l) p = map_get (violations l') p
    \<and> map_get (bannedPeers l) p = map_get (bannedPeers l') p"
  by (simp add: rl_view_def)

lemma rl_view_decides:
  assumes "rl_view p l = rl_view p l'"
  shows "fst (checkLimit t t' p l) = fst (checkLimit t t' p l')
    \<and> rl_view p (fst (snd (checkLimit t t' p l))) = rl_view p (fst (snd (checkLimit t t' p l')))"
  using rl_view_eqD [OF assms]
  unfolding rl_view_def checkLimit_def recordViolation_def applyBan_def shouldBan_def is_banned_def Let_def
  by (auto simp: map_get_set map_get_delete refill_get case_prod_beta split: option.splits)

section \<open>The admission interface\<close>

text \<open>A run of requests \<open>(now, now', peer)\<close> against an admission control.\<close>

fun admit_run ::
  "(time \<Rightarrow> time \<Rightarrow> peer_id \<Rightarrow> 'l \<Rightarrow> bool \<times> 'l \<times> 'e) \<Rightarrow> 'l \<Rightarrow> (time \<times> time \<times> peer_id) list \<Rightarrow> bool list \<times> 'l" where
  "admit_run ad l [] = ([], l)"
| "admit_run ad l ((t, t', p) # rs) =
     (let r = ad t t' p l; run = admit_run ad (fst (snd r)) rs in (fst r # fst run, snd run))"

definition decisions_for :: "peer_id \<Rightarrow> bool list \<Rightarrow> (time \<times> time \<times> peer_id) list \<Rightarrow> bool list" where
  "decisions_for p ds rs = map fst (filter (\<lambda>(d, t, t', q). q = p) (zip ds rs))"

text \<open>
  What the gossip engine relies on: a decision for a peer depends on that peer's view only,
  and changes no other peer's view. It follows that no traffic of other peers influences
  what a peer is granted.
\<close>

locale admission =
  fixes admit :: "time \<Rightarrow> time \<Rightarrow> peer_id \<Rightarrow> 'l \<Rightarrow> bool \<times> 'l \<times> 'e"
    and view :: "peer_id \<Rightarrow> 'l \<Rightarrow> 'v"
  assumes isolation: "q \<noteq> p \<Longrightarrow> view q (fst (snd (admit t t' p l))) = view q l"
    and locality: "view p l = view p l' \<Longrightarrow> fst (admit t t' p l) = fst (admit t t' p l')
      \<and> view p (fst (snd (admit t t' p l))) = view p (fst (snd (admit t t' p l')))"
begin

lemma run_length: "length (fst (admit_run admit l rs)) = length rs"
  by (induction admit l rs rule: admit_run.induct) (auto simp: Let_def)

lemma run_noninterference:
  "view p l = view p l' \<Longrightarrow>
    decisions_for p (fst (admit_run admit l rs)) rs = fst (admit_run admit l' (filter (\<lambda>(t, t', q). q = p) rs))
    \<and> view p (snd (admit_run admit l rs)) = view p (snd (admit_run admit l' (filter (\<lambda>(t, t', q). q = p) rs)))"
proof (induction rs arbitrary: l l')
  case Nil
  then show ?case by (simp add: decisions_for_def)
next
  case (Cons r rs)
  obtain t t' q where r: "r = (t, t', q)" by (cases r)
  show ?case
  proof (cases "q = p")
    case True
    then have "view p (fst (snd (admit t t' q l))) = view p (fst (snd (admit t t' q l')))"
      and d: "fst (admit t t' q l) = fst (admit t t' q l')"
      using locality [of p l l' t t'] Cons.prems by auto
    from Cons.IH [OF this(1)] d True r show ?thesis
      by (simp add: Let_def decisions_for_def)
  next
    case False
    then have "view p (fst (snd (admit t t' q l))) = view p l'"
      using isolation [of p q t t' l] Cons.prems by auto
    from Cons.IH [OF this] False r show ?thesis
      by (simp add: Let_def decisions_for_def)
  qed
qed

end

interpretation rl: admission checkLimit rl_view
  by unfold_locales (rule rl_view_other, assumption, rule rl_view_decides)

text \<open>
  Peers are isolated: over any interleaving of checks, the decisions a peer receives are
  exactly those it would receive had it been alone, so no flood, violation or ban of other
  peers costs it a message or grants it one.
\<close>

theorem rate_limit_isolation:
  "decisions_for p (fst (admit_run checkLimit rl rs)) rs
    = fst (admit_run checkLimit rl (filter (\<lambda>(t, t', q). q = p) rs))"
  using rl.run_noninterference by blast

section \<open>The token-bucket bound\<close>

lemma min_le_add: "0 \<le> (x :: rat) \<Longrightarrow> min c (a + x) \<le> a + x"
  by simp

lemma checkLimit_bucket:
  "\<exists>b. (map_get (buckets (fst (snd (checkLimit t t' p rl)))) p = Some b \<and>
     (case map_get (buckets rl) p of
        None \<Rightarrow> (if fst (checkLimit t t' p rl) then 1 else 0) + tokens b \<le> of_nat (capacity rl)
           \<and> lastRefill b = t'
      | Some b0 \<Rightarrow> (if fst (checkLimit t t' p rl) then 1 else 0) + tokens b
             \<le> tokens b0 + of_int (lastRefill b - lastRefill b0) / 1000 * of_nat (refillRatePerSec rl)
           \<and> lastRefill b = max (lastRefill b0) t')) \<or>
   (fst (checkLimit t t' p rl) = False \<and> fst (snd (checkLimit t t' p rl)) = rl)"
proof (cases "is_banned t p rl")
  case True
  then show ?thesis by (simp add: checkLimit_banned)
next
  case False
  let ?rl = "refill t' p (expire_ban p rl)"
  obtain b where b: "map_get (buckets ?rl) p = Some b"
    and eq: "checkLimit t t' p rl = (if 1 \<le> tokens b then
       (True, ?rl\<lparr>buckets := map_set (buckets ?rl) p (b\<lparr>tokens := tokens b - 1\<rparr>)\<rparr>, [])
     else (False, fst (recordViolation p t ?rl), Rate_Limited p # snd (recordViolation p t ?rl)))"
    by (rule checkLimit_unbanned [OF False])
  show ?thesis
    unfolding eq using b
    by (auto simp: map_get_set refill_get split: option.splits if_splits)
qed

definition allowed_for :: "peer_id \<Rightarrow> bool list \<Rightarrow> (time \<times> time \<times> peer_id) list \<Rightarrow> nat" where
  "allowed_for p ds rs = length (filter (\<lambda>d. d) (decisions_for p ds rs))"

text \<open>The potential: what was allowed so far plus the tokens left never exceeds the budget.\<close>

definition within_budget :: "time \<Rightarrow> peer_id \<Rightarrow> nat \<Rightarrow> rate_limiter \<Rightarrow> bool" where
  "within_budget t0 p n rl =
    (case map_get (buckets rl) p of
       None \<Rightarrow> n = 0
     | Some b \<Rightarrow> of_nat n + tokens b
         \<le> of_nat (capacity rl) + of_int (lastRefill b - t0) / 1000 * of_nat (refillRatePerSec rl))"

definition refilled_between :: "time \<Rightarrow> time \<Rightarrow> peer_id \<Rightarrow> rate_limiter \<Rightarrow> bool" where
  "refilled_between t0 t1 p rl =
    (case map_get (buckets rl) p of None \<Rightarrow> True | Some b \<Rightarrow> t0 \<le> lastRefill b \<and> lastRefill b \<le> t1)"

lemma rate_step:
  assumes "within_budget t0 p n rl" "refilled_between t0 t1 p rl" "t0 \<le> t'" "t' \<le> t1"
  shows "within_budget t0 p (n + (if fst (checkLimit t t' p rl) then 1 else 0)) (fst (snd (checkLimit t t' p rl)))
    \<and> refilled_between t0 t1 p (fst (snd (checkLimit t t' p rl)))"
  using checkLimit_bucket [of t t' p rl]
proof (elim exE disjE)
  fix b assume "map_get (buckets (fst (snd (checkLimit t t' p rl)))) p = Some b \<and>
     (case map_get (buckets rl) p of
        None \<Rightarrow> (if fst (checkLimit t t' p rl) then 1 else 0) + tokens b \<le> of_nat (capacity rl)
           \<and> lastRefill b = t'
      | Some b0 \<Rightarrow> (if fst (checkLimit t t' p rl) then 1 else 0) + tokens b
             \<le> tokens b0 + of_int (lastRefill b - lastRefill b0) / 1000 * of_nat (refillRatePerSec rl)
           \<and> lastRefill b = max (lastRefill b0) t')"
  moreover have "0 \<le> rat_of_int (t' - t0) / 1000 * of_nat (refillRatePerSec rl)"
    using assms(3) by simp
  ultimately show ?thesis
    using assms unfolding within_budget_def refilled_between_def
    by (auto simp: ring_distribs diff_divide_distrib split: option.splits if_splits)
next
  assume "fst (checkLimit t t' p rl) = False \<and> fst (snd (checkLimit t t' p rl)) = rl"
  then show ?thesis using assms by simp
qed

lemma within_budget_run:
  assumes "within_budget t0 p n rl" "refilled_between t0 t1 p rl" "rl_ok rl" "t0 \<le> t1"
    "\<forall>(t, t', q) \<in> set rs. t0 \<le> t' \<and> t' \<le> t1"
    "rs = filter (\<lambda>(t, t', q). q = p) rs"
  shows "rat_of_nat (n + length (filter (\<lambda>d. d) (fst (admit_run checkLimit rl rs))))
    \<le> of_nat (capacity rl) + of_int (t1 - t0) / 1000 * of_nat (refillRatePerSec rl)"
  using assms
proof (induction rs arbitrary: n rl)
  case Nil
  have mono: "rat_of_int (l - t0) / 1000 * of_nat (refillRatePerSec rl)
      \<le> of_int (t1 - t0) / 1000 * of_nat (refillRatePerSec rl)" if "l \<le> t1" for l
    using that by (intro mult_right_mono divide_right_mono) auto
  have pos: "0 \<le> rat_of_int (t1 - t0) / 1000 * of_nat (refillRatePerSec rl)"
    using Nil(4) by simp
  show ?case
  proof (cases "map_get (buckets rl) p")
    case None
    then show ?thesis using Nil(1) pos by (simp add: within_budget_def)
  next
    case (Some b)
    have "0 \<le> tokens b" using Nil(3) Some by (auto simp: rl_ok_def bucket_ok_def)
    moreover have "lastRefill b \<le> t1" using Nil(2) Some by (simp add: refilled_between_def)
    ultimately show ?thesis using Nil(1) Some mono [of "lastRefill b"] by (simp add: within_budget_def)
  qed
next
  case (Cons r rs)
  obtain t t' q where r: "r = (t, t', q)" by (cases r)
  have q: "q = p" and rs: "rs = filter (\<lambda>(t, t', q). q = p) rs"
    using Cons.prems(6) unfolding r by (auto split: if_splits dest: Cons_eq_filterD simp: Cons_eq_filter_iff)
  let ?d = "if fst (checkLimit t t' p rl) then 1 else (0 :: nat)"
  let ?rl = "fst (snd (checkLimit t t' p rl))"
  have "within_budget t0 p (n + ?d) ?rl" "refilled_between t0 t1 p ?rl"
    using rate_step [of t0 p n rl t1 t' t] Cons.prems r by auto
  then have "rat_of_nat (n + ?d + length (filter (\<lambda>d. d) (fst (admit_run checkLimit ?rl rs))))
    \<le> of_nat (capacity ?rl) + of_int (t1 - t0) / 1000 * of_nat (refillRatePerSec ?rl)"
    using Cons.IH [of "n + ?d" ?rl] checkLimit_ok Cons.prems rs by auto
  then show ?case unfolding r q by (simp add: Let_def split: if_splits)
qed

lemma fresh_budget:
  "map_get (buckets rl) p = None \<Longrightarrow> within_budget t0 p 0 rl \<and> refilled_between t0 t1 p rl"
  by (simp add: within_budget_def refilled_between_def)

text \<open>
  C26: the token bucket: whatever the interleaving with other peers, the number of messages a
  peer that starts without a bucket gets through between \<open>t0\<close> and \<open>t1\<close> is at
  most the capacity plus the refill rate times the elapsed seconds.
\<close>

theorem token_bucket_bound:
  assumes "rl_ok rl" "map_get (buckets rl) p = None" "t0 \<le> t1"
    and "\<forall>(t, t', q) \<in> set rs. t0 \<le> t' \<and> t' \<le> t1"
  shows "rat_of_nat (allowed_for p (fst (admit_run checkLimit rl rs)) rs)
    \<le> of_nat (capacity rl) + of_int (t1 - t0) / 1000 * of_nat (refillRatePerSec rl)"
  using within_budget_run [of t0 p 0 rl t1 "filter (\<lambda>(t, t', q). q = p) rs"] fresh_budget [OF assms(2)] assms
  by (auto simp: allowed_for_def rl.run_noninterference [THEN conjunct1] )

theorem token_bucket_bound_witness:
  "rat_of_nat (allowed_for ''p'' (fst (admit_run checkLimit (rl_init None None)
      [(0, 0, ''p''), (5, 5, ''q''), (10, 11, ''p'')])) [(0, 0, ''p''), (5, 5, ''q''), (10, 11, ''p'')]) \<le> 20 + 11 / 1000 * 5"
  using token_bucket_bound [of "rl_init None None" "''p''" 0 11 "[(0, 0, ''p''), (5, 5, ''q''), (10, 11, ''p'')]"]
  by (simp add: rl_init_ok) (simp add: rl_init_def or_default_def)

section \<open>Bans\<close>

lemma recordViolation_view:
  "map_get (violations (fst (recordViolation p t rl))) p = (if snd (recordViolation p t rl) = []
     then Some (dropWhile (\<lambda>x. x < t - VIOLATION_WINDOW_MS)
       ((case map_get (violations rl) p of None \<Rightarrow> [] | Some h \<Rightarrow> h) @ [t])) else None)"
  "map_get (bannedPeers (fst (recordViolation p t rl))) p = (if snd (recordViolation p t rl) = []
     then map_get (bannedPeers rl) p else Some (t + BAN_DURATION_MS))"
  "snd (recordViolation p t rl) = (if BAN_THRESHOLD < length (dropWhile (\<lambda>x. x < t - VIOLATION_WINDOW_MS)
       ((case map_get (violations rl) p of None \<Rightarrow> [] | Some h \<Rightarrow> h) @ [t])) then [Peer_Banned p] else [])"
  by (auto simp: recordViolation_def applyBan_def shouldBan_def Let_def map_get_set map_get_delete)

lemma ban_event_effect:
  assumes "Peer_Banned p \<in> set (snd (snd (checkLimit t t' p rl)))"
  shows "map_get (bannedPeers (fst (snd (checkLimit t t' p rl)))) p = Some (t + BAN_DURATION_MS)"
proof (cases "is_banned t p rl")
  case True
  then show ?thesis using assms by (simp add: checkLimit_banned)
next
  case False
  show ?thesis
    by (rule checkLimit_unbanned [OF False, of t'])
      (use assms in \<open>auto simp: recordViolation_view split: if_splits\<close>)
qed

lemma banned_run:
  assumes "map_get (bannedPeers rl) p = Some e" "\<forall>(t, t', q) \<in> set rs. t \<le> e"
    and "rs = filter (\<lambda>(t, t', q). q = p) rs"
  shows "admit_run checkLimit rl rs = (map (\<lambda>_. False) rs, rl)"
  using assms
proof (induction rs)
  case (Cons r rs)
  obtain t t' q where r: "r = (t, t', q)" by (cases r)
  have q: "q = p" and rs: "rs = filter (\<lambda>(t, t', q). q = p) rs"
    using Cons.prems(3) unfolding r by (auto split: if_splits dest: Cons_eq_filterD simp: Cons_eq_filter_iff)
  have "is_banned t p rl" using Cons.prems r by (simp add: is_banned_def)
  then show ?case using Cons.IH Cons.prems rs by (simp add: r q checkLimit_banned Let_def)
qed simp

text \<open>
  A ban holds: once a check has emitted the ban of a peer, every check of that peer
  whose clock reads at most five minutes later is refused, whatever is interleaved with it.
\<close>

theorem ban_refuses_everything:
  assumes "Peer_Banned p \<in> set (snd (snd (checkLimit t t' p rl)))"
    and "\<forall>(u, u', q) \<in> set rs. u \<le> t + BAN_DURATION_MS"
  shows "allowed_for p (fst (admit_run checkLimit (fst (snd (checkLimit t t' p rl))) rs)) rs = 0"
proof -
  let ?rs = "filter (\<lambda>(t, t', q). q = p) rs"
  have "admit_run checkLimit (fst (snd (checkLimit t t' p rl))) ?rs = (map (\<lambda>_. False) ?rs, fst (snd (checkLimit t t' p rl)))"
    by (rule banned_run [OF ban_event_effect [OF assms(1)]]) (use assms(2) in auto)
  then show ?thesis
    by (simp only: allowed_for_def rl.run_noninterference [THEN conjunct1, OF refl] fst_conv)
      (simp add: filter_empty_conv)
qed

theorem ban_refuses_everything_witness:
  "allowed_for ''p'' (fst (admit_run checkLimit (fst (snd (checkLimit 3 3 ''p''
      ((rl_init None None)\<lparr>buckets := [(''p'', \<lparr>tokens = 0, lastRefill = 3\<rparr>)],
        violations := [(''p'', replicate 10 2)]\<rparr>)))) [(9, 9, ''p''), (300003, 300003, ''p'')]))
      [(9, 9, ''p''), (300003, 300003, ''p'')] = 0"
  by (rule ban_refuses_everything)
    (simp_all add: checkLimit_def refill_def is_banned_def expire_ban_def recordViolation_def shouldBan_def
      applyBan_def rl_init_def numeral_eq_Suc)

section \<open>A burst from one peer\<close>

text \<open>The state of \<open>p\<close> after \<open>k\<close> checks at instant \<open>t\<close>, up to its ban.\<close>

definition burst_state :: "nat \<Rightarrow> time \<Rightarrow> peer_id \<Rightarrow> nat \<Rightarrow> rate_limiter \<Rightarrow> bool" where
  "burst_state cap t p k rl \<longleftrightarrow> capacity rl = cap \<and>
    (if k \<le> cap + BAN_THRESHOLD then
       map_get (bannedPeers rl) p = None \<and>
       map_get (buckets rl) p = (if k = 0 then None else Some \<lparr>tokens = of_nat (cap - k), lastRefill = t\<rparr>) \<and>
       map_get (violations rl) p = (if k \<le> cap then None else Some (replicate (k - cap) t))
     else map_get (bannedPeers rl) p = Some (t + BAN_DURATION_MS))"

lemma burst_bucket:
  assumes "burst_state cap t p k rl" "k \<le> cap + BAN_THRESHOLD"
  shows "map_get (buckets (refill t p (expire_ban p rl))) p = Some \<lparr>tokens = of_nat (cap - k), lastRefill = t\<rparr>"
  using assms by (auto simp: burst_state_def refill_get)

lemma one_le_of_nat_diff: "(1 :: rat) \<le> of_nat (c - k) \<longleftrightarrow> k < c"
proof -
  have "(1 :: rat) \<le> of_nat (c - k) \<longleftrightarrow> 1 \<le> c - k" by (metis of_nat_1 of_nat_le_iff)
  then show ?thesis by auto
qed

lemma dropWhile_replicate_self: "0 \<le> w \<Longrightarrow> dropWhile (\<lambda>x. x < (t :: int) - w) (replicate n t @ [t]) = replicate (Suc n) t"
  by (cases n) (simp_all add: replicate_append_same)

lemma burst_step:
  assumes "burst_state cap t p k rl"
  shows "fst (checkLimit t t p rl) = (k < cap) \<and> burst_state cap t p (Suc k) (fst (snd (checkLimit t t p rl)))"
proof (cases "k \<le> cap + BAN_THRESHOLD")
  case False
  then have "is_banned t p rl" using assms by (simp add: burst_state_def is_banned_def)
  then show ?thesis using False assms by (simp add: checkLimit_banned burst_state_def)
next
  case True
  let ?rl = "refill t p (expire_ban p rl)"
  have nb: "\<not> is_banned t p rl" using True assms by (simp add: burst_state_def is_banned_def)
  obtain b where b: "map_get (buckets ?rl) p = Some b"
    and eq: "checkLimit t t p rl = (if 1 \<le> tokens b then
       (True, ?rl\<lparr>buckets := map_set (buckets ?rl) p (b\<lparr>tokens := tokens b - 1\<rparr>)\<rparr>, [])
     else (False, fst (recordViolation p t ?rl), Rate_Limited p # snd (recordViolation p t ?rl)))"
    by (rule checkLimit_unbanned [OF nb])
  have bv: "b = \<lparr>tokens = of_nat (cap - k), lastRefill = t\<rparr>"
    using b burst_bucket [OF assms True] by simp
  show ?thesis
  proof (cases "k < cap")
    case True
    then have "1 \<le> tokens b" by (simp add: bv one_le_of_nat_diff)
    moreover have "rat_of_nat (cap - k) - 1 = of_nat (cap - Suc k)" using True by (simp add: of_nat_diff)
    ultimately show ?thesis using True assms by (simp add: eq bv burst_state_def map_get_set)
  next
    case False
    then have "\<not> 1 \<le> tokens b" by (simp add: bv one_le_of_nat_diff)
    then show ?thesis using False True assms b bv
      by (auto simp: eq burst_state_def recordViolation_view dropWhile_replicate_self Suc_diff_le replicate_append_same)
  qed
qed

lemma burst_run:
  "burst_state cap t p k rl \<Longrightarrow>
    fst (admit_run checkLimit rl (replicate n (t, t, p))) = map (\<lambda>i. k + i < cap) [0..<n]
    \<and> burst_state cap t p (k + n) (snd (admit_run checkLimit rl (replicate n (t, t, p))))"
proof (induction n arbitrary: k rl)
  case (Suc n)
  from burst_step [OF Suc.prems] Suc.IH [of "Suc k" "fst (snd (checkLimit t t p rl))"]
  show ?case by (simp add: Let_def map_upt_Suc del: upt_Suc)
qed simp

text \<open>
  C27: a burst of \<open>n\<close> messages of one instant from a peer without a bucket has its first
  \<open>capacity\<close> messages accepted and all later ones refused; the eleventh refusal bans
  the peer for five minutes, and shorter bursts do not.
\<close>

theorem burst_outcome:
  assumes "map_get (buckets rl) p = None" "map_get (violations rl) p = None" "map_get (bannedPeers rl) p = None"
  shows "fst (admit_run checkLimit rl (replicate n (t, t, p))) = map (\<lambda>i. i < capacity rl) [0..<n]
    \<and> map_get (bannedPeers (snd (admit_run checkLimit rl (replicate n (t, t, p))))) p
      = (if n \<le> capacity rl + BAN_THRESHOLD then None else Some (t + BAN_DURATION_MS))"
proof -
  have "burst_state (capacity rl) t p 0 rl" using assms by (simp add: burst_state_def)
  from burst_run [OF this, of n] show ?thesis by (simp add: burst_state_def split: if_splits)
qed

theorem burst_outcome_witness:
  "fst (admit_run checkLimit (rl_init (Some 2) None) (replicate 3 (7, 7, ''p''))) = [True, True, False]"
  using burst_outcome [of "rl_init (Some 2) None" "''p''" 3 7]
  by (simp add: rl_init_def or_default_def upt_rec numeral_3_eq_3)

end
