(* ===== verification/TopicRouter.thy ===== *)
theory TopicRouter
  imports Prelude
begin

text \<open>
  The distance-vector subscription table of \<^verbatim>\<open>protocol/topicRouter.js\<close>: per topic and
  origin peer one route, kept in a map of maps. The detailed operations refine updates of one
  abstract table indexed by topic and origin.
\<close>

section \<open>Expiry times\<close>

text \<open>A number of milliseconds, or JavaScript's \<^verbatim>\<open>Infinity\<close> for a direct subscription.\<close>

datatype expiry = At time | Infinity

instantiation expiry :: linorder
begin

definition less_eq_expiry :: "expiry \<Rightarrow> expiry \<Rightarrow> bool" where
  "less_eq_expiry a b = (case b of Infinity \<Rightarrow> True | At y \<Rightarrow> (case a of Infinity \<Rightarrow> False | At x \<Rightarrow> x \<le> y))"

definition less_expiry :: "expiry \<Rightarrow> expiry \<Rightarrow> bool" where
  "less_expiry a b = (case a of Infinity \<Rightarrow> False | At x \<Rightarrow> (case b of Infinity \<Rightarrow> True | At y \<Rightarrow> x < y))"

instance
  by standard (auto simp: less_eq_expiry_def less_expiry_def split: expiry.splits)

end

lemma expiry_simps [simp]:
  "At x \<le> At y \<longleftrightarrow> x \<le> y" "a \<le> Infinity" "\<not> Infinity \<le> At y"
  by (simp_all add: less_eq_expiry_def split: expiry.splits)

section \<open>The table and its operations\<close>

record route =
  nextHop :: peer_id
  hopCount :: int
  sequenceNumber :: int
  route_path :: "peer_id list"
  expiresAt :: expiry

type_synonym routes = "(topic_name, (peer_id, route) jmap) jmap"

definition updateRoute ::
  "topic_name \<Rightarrow> peer_id \<Rightarrow> peer_id \<Rightarrow> int \<Rightarrow> int \<Rightarrow> peer_id list \<Rightarrow> expiry \<Rightarrow> routes \<Rightarrow> bool \<times> routes" where
  "updateRoute topic origin nh hops seq pth expires rs =
    (let rs = (if map_has rs topic then rs else map_set rs topic []);
         topicRoutes = (case map_get rs topic of None \<Rightarrow> [] | Some m \<Rightarrow> m);
         new = map_set rs topic (map_set topicRoutes origin
           \<lparr>nextHop = nh, hopCount = hops, sequenceNumber = seq, route_path = pth, expiresAt = expires\<rparr>)
     in case map_get topicRoutes origin of
          Some existing \<Rightarrow>
            if seq < sequenceNumber existing then (False, rs)
            else if seq = sequenceNumber existing \<and> hops \<ge> hopCount existing then
              (False,
               if nh = nextHop existing then
                 map_set rs topic (map_set topicRoutes origin
                   (existing\<lparr>expiresAt := max (expiresAt existing) expires\<rparr>))
               else rs)
            else (True, new)
        | None \<Rightarrow> (True, new))"

definition removeRoute :: "topic_name \<Rightarrow> peer_id \<Rightarrow> routes \<Rightarrow> bool \<times> routes" where
  "removeRoute topic origin rs =
    (case map_get rs topic of
       Some topicRoutes \<Rightarrow>
         (let deleted = map_has topicRoutes origin;
              topicRoutes = map_delete topicRoutes origin
          in (deleted, if topicRoutes = [] then map_delete rs topic else map_set rs topic topicRoutes))
     | None \<Rightarrow> (False, rs))"

definition router_subscribe :: "peer_id \<Rightarrow> topic_name \<Rightarrow> routes \<Rightarrow> routes" where
  "router_subscribe peer topic rs = snd (updateRoute topic peer peer 0 0 [] Infinity rs)"

definition router_unsubscribe :: "peer_id \<Rightarrow> topic_name \<Rightarrow> routes \<Rightarrow> routes" where
  "router_unsubscribe peer topic rs = snd (removeRoute topic peer rs)"

definition getPeersForTopic :: "topic_name \<Rightarrow> time \<Rightarrow> routes \<Rightarrow> peer_id list" where
  "getPeersForTopic topic now rs =
    (case map_get rs topic of
       Some topicRoutes \<Rightarrow>
         foldl (\<lambda>peers (origin, r). if At now \<le> expiresAt r then set_add peers (nextHop r) else peers) [] topicRoutes
     | None \<Rightarrow> [])"

definition dm_topic :: "peer_id \<Rightarrow> topic_name" where
  "dm_topic peer = ''dm:'' @ peer"

definition getTopicsForPeer :: "peer_id \<Rightarrow> routes \<Rightarrow> topic_name list" where
  "getTopicsForPeer peer rs =
    foldl (\<lambda>topics (topic, topicRoutes). if map_has topicRoutes peer then set_add topics topic else topics)
      (set_add (set_add [] ''global'') (dm_topic peer)) rs"

definition clearRoutesForPeer :: "peer_id \<Rightarrow> routes \<Rightarrow> routes" where
  "clearRoutesForPeer peer rs =
    filter (\<lambda>(topic, topicRoutes). topicRoutes \<noteq> [])
      (map (\<lambda>(topic, topicRoutes).
         (topic, filter (\<lambda>(origin, r). \<not> (nextHop r = peer \<or> origin = peer)) topicRoutes)) rs)"

definition router_gc :: "time \<Rightarrow> routes \<Rightarrow> routes" where
  "router_gc now rs =
    filter (\<lambda>(topic, topicRoutes). topicRoutes \<noteq> [])
      (map (\<lambda>(topic, topicRoutes). (topic, filter (\<lambda>(origin, r). \<not> expiresAt r < At now) topicRoutes)) rs)"

section \<open>Well-formed tables and the abstract table\<close>

definition router_ok :: "routes \<Rightarrow> bool" where
  "router_ok rs \<longleftrightarrow> map_ok rs \<and> (\<forall>(topic, m) \<in> set rs. map_ok m \<and> m \<noteq> [])"

definition route_table :: "routes \<Rightarrow> topic_name \<times> peer_id \<Rightarrow> route option" where
  "route_table rs = (\<lambda>(topic, origin). Option.bind (map_get rs topic) (\<lambda>m. map_get m origin))"

lemma router_okD: "router_ok rs \<Longrightarrow> map_get rs t = Some m \<Longrightarrow> map_ok m \<and> m \<noteq> []"
  unfolding router_ok_def by (fastforce dest: map_get_in)

lemma router_ok_Nil [simp]: "router_ok []"
  by (simp add: router_ok_def)

lemma router_ok_set: "router_ok rs \<Longrightarrow> map_ok m \<Longrightarrow> m \<noteq> [] \<Longrightarrow> router_ok (map_set rs t m)"
  unfolding router_ok_def using set_map_set [of t m rs] by auto

lemma router_ok_delete: "router_ok rs \<Longrightarrow> router_ok (map_delete rs t)"
  unfolding router_ok_def using set_map_delete [of t rs] by auto

lemma map_set_nonempty [simp]: "map_set m k v \<noteq> []"
  by (cases m) auto

lemma map_set_twice [simp]: "map_set (map_set m k v) k w = map_set m k w"
  by (induction m) auto

lemma router_ok_set_route:
  "router_ok rs \<Longrightarrow> map_get rs t = Some m \<Longrightarrow> router_ok (map_set rs t (map_set m u r))"
  "router_ok rs \<Longrightarrow> router_ok (map_set rs t [(u, r)])"
  by (auto intro!: router_ok_set dest: router_okD) (simp add: map_ok_def)

lemma updateRoute_ok: "router_ok rs \<Longrightarrow> router_ok (snd (updateRoute t u nh h s p e rs))"
  by (auto simp: updateRoute_def Let_def map_get_set router_ok_set_route
      split: option.splits)

lemma removeRoute_ok: "router_ok rs \<Longrightarrow> router_ok (snd (removeRoute t u rs))"
  by (auto simp: removeRoute_def Let_def dest: router_okD intro!: router_ok_set router_ok_delete
      split: option.splits)

text \<open>Both sweeps keep the routes that satisfy a condition and drop emptied topics.\<close>

definition sweep :: "(peer_id \<Rightarrow> route \<Rightarrow> bool) \<Rightarrow> routes \<Rightarrow> routes" where
  "sweep keep rs = filter (\<lambda>(topic, m). m \<noteq> [])
     (map (\<lambda>(topic, m). (topic, filter (\<lambda>(origin, r). keep origin r) m)) rs)"

lemma clear_sweep: "clearRoutesForPeer p = sweep (\<lambda>origin r. \<not> (nextHop r = p \<or> origin = p))"
  by (simp add: clearRoutesForPeer_def sweep_def fun_eq_iff)

lemma gc_sweep: "router_gc now = sweep (\<lambda>origin r. At now \<le> expiresAt r)"
  by (simp add: router_gc_def sweep_def fun_eq_iff not_less)

lemma map_ok_map_snd: "map_ok (map (\<lambda>(t, m). (t, f m)) rs) = map_ok rs"
  by (simp add: map_ok_def comp_def case_prod_beta)

lemma sweep_ok: "router_ok rs \<Longrightarrow> router_ok (sweep keep rs)"
  unfolding router_ok_def sweep_def by (auto simp: map_ok_map_snd)

lemma map_get_filter:
  "map_ok m \<Longrightarrow> map_get (filter (\<lambda>(k, v). P k v) m) k =
    (case map_get m k of None \<Rightarrow> None | Some v \<Rightarrow> if P k v then Some v else None)"
  unfolding map_ok_def
  by (induction m) (auto simp: map_of_eq_None_iff split: option.splits)

lemma map_get_map_snd: "map_get (map (\<lambda>(t, m). (t, f m)) rs) t = map_option f (map_get rs t)"
  by (induction rs) auto

lemma table_Nil: "route_table [] = (\<lambda>_. None)"
  by (simp add: route_table_def fun_eq_iff)

lemma table_sweep:
  assumes "router_ok rs"
  shows "route_table (sweep keep rs) (t, u) =
    (case route_table rs (t, u) of None \<Rightarrow> None | Some r \<Rightarrow> if keep u r then Some r else None)"
proof -
  have ok: "map_ok (map (\<lambda>(t, m). (t, filter (\<lambda>(u, r). keep u r) m)) rs)"
    using assms by (simp add: router_ok_def map_ok_map_snd)
  have inner: "map_get rs t = Some m \<Longrightarrow> map_get (filter (\<lambda>(u, r). keep u r) m) u =
      (case map_get m u of None \<Rightarrow> None | Some r \<Rightarrow> if keep u r then Some r else None)" for m
    using map_get_filter [of m keep u] router_okD [OF assms] by blast
  show ?thesis
    unfolding route_table_def sweep_def case_prod_conv
    using map_get_filter [OF ok, of "\<lambda>t m. m \<noteq> []" t] inner
    by (cases "map_get rs t") (auto simp: map_get_map_snd split: option.splits if_splits)
qed

lemma table_sweep_iff:
  "router_ok rs \<Longrightarrow> route_table (sweep keep rs) (t, u) = Some r \<longleftrightarrow> route_table rs (t, u) = Some r \<and> keep u r"
  by (auto simp: table_sweep split: option.splits if_splits)

lemma table_get: "map_get rs t = Some m \<Longrightarrow> route_table rs (t, u) = map_get m u"
  "map_get rs t = None \<Longrightarrow> route_table rs (t, u) = None"
  by (simp_all add: route_table_def)

lemma table_set:
  "map_get rs t = Some m \<Longrightarrow> route_table (map_set rs t (map_set m u r)) = (route_table rs)((t, u) \<mapsto> r)"
  "map_get rs t = None \<Longrightarrow> route_table (map_set rs t [(u, r)]) = (route_table rs)((t, u) \<mapsto> r)"
  by (auto simp: route_table_def map_get_set fun_eq_iff)

lemma table_delete:
  "map_get rs t = Some m \<Longrightarrow> route_table (map_set rs t (map_delete m u)) = (route_table rs)((t, u) := None)"
  by (auto simp: route_table_def map_get_set map_get_delete fun_eq_iff)

lemma table_delete_last:
  assumes "map_get rs t = Some m" "map_delete m u = []"
  shows "route_table (map_delete rs t) = (route_table rs)((t, u) := None)"
proof (rule ext)
  fix x :: "topic_name \<times> peer_id"
  obtain t' u' where x: "x = (t', u')" by (cases x)
  have "u' \<noteq> u \<Longrightarrow> map_get m u' = None"
    using map_get_delete [of u m u'] assms(2) by simp
  then show "route_table (map_delete rs t) x = ((route_table rs)((t, u) := None)) x"
    using assms(1) by (simp add: x route_table_def map_get_delete)
qed

lemma table_update:
  "route_table (snd (updateRoute t u nh h s p e rs)) =
    (case route_table rs (t, u) of
       None \<Rightarrow> (route_table rs)((t, u) \<mapsto> \<lparr>nextHop = nh, hopCount = h, sequenceNumber = s, route_path = p, expiresAt = e\<rparr>)
     | Some r \<Rightarrow>
         if s < sequenceNumber r then route_table rs
         else if s = sequenceNumber r \<and> hopCount r \<le> h then
           (if nh = nextHop r then (route_table rs)((t, u) \<mapsto> r\<lparr>expiresAt := max (expiresAt r) e\<rparr>) else route_table rs)
         else (route_table rs)((t, u) \<mapsto>
           \<lparr>nextHop = nh, hopCount = h, sequenceNumber = s, route_path = p, expiresAt = e\<rparr>))"
proof (cases "map_get rs t")
  case None
  then show ?thesis by (simp add: updateRoute_def map_get_set table_get table_set)
next
  case (Some m)
  then show ?thesis
    by (cases "map_get m u") (simp_all add: updateRoute_def table_get table_set)
qed

lemma table_remove:
  "route_table (snd (removeRoute t u rs)) = (route_table rs)((t, u) := None)"
  by (cases "map_get rs t")
    (auto simp: removeRoute_def Let_def table_get table_delete table_delete_last fun_upd_idem)

section \<open>Refinement of the abstract table\<close>

datatype router_op =
    Update topic_name peer_id peer_id int int "peer_id list" expiry
  | Remove topic_name peer_id
  | Clear peer_id
  | Gc time

fun exec_op :: "router_op \<Rightarrow> routes \<Rightarrow> routes" where
  "exec_op (Update t u nh h s p e) rs = snd (updateRoute t u nh h s p e rs)"
| "exec_op (Remove t u) rs = snd (removeRoute t u rs)"
| "exec_op (Clear p) rs = clearRoutesForPeer p rs"
| "exec_op (Gc now) rs = router_gc now rs"

text \<open>When the distance-vector rule takes an offered route in place of the present one.\<close>

definition better :: "int \<Rightarrow> int \<Rightarrow> route \<Rightarrow> bool" where
  "better s h r \<longleftrightarrow> sequenceNumber r < s \<or> (sequenceNumber r = s \<and> h < hopCount r)"

fun spec_op :: "router_op \<Rightarrow> (topic_name \<times> peer_id \<Rightarrow> route option) \<Rightarrow> topic_name \<times> peer_id \<Rightarrow> route option" where
  "spec_op (Update t u nh h s p e) T =
     (let offered = \<lparr>nextHop = nh, hopCount = h, sequenceNumber = s, route_path = p, expiresAt = e\<rparr>
      in case T (t, u) of
           None \<Rightarrow> T((t, u) \<mapsto> offered)
         | Some r \<Rightarrow>
             if better s h r then T((t, u) \<mapsto> offered)
             else if s = sequenceNumber r \<and> nh = nextHop r then T((t, u) \<mapsto> r\<lparr>expiresAt := max (expiresAt r) e\<rparr>)
             else T)"
| "spec_op (Remove t u) T = T((t, u) := None)"
| "spec_op (Clear p) T = (\<lambda>(t, u). case T (t, u) of None \<Rightarrow> None
     | Some r \<Rightarrow> if nextHop r = p \<or> u = p then None else Some r)"
| "spec_op (Gc now) T = (\<lambda>(t, u). case T (t, u) of None \<Rightarrow> None
     | Some r \<Rightarrow> if expiresAt r < At now then None else Some r)"

lemma exec_op_refines:
  assumes "router_ok rs"
  shows "router_ok (exec_op c rs) \<and> route_table (exec_op c rs) = spec_op c (route_table rs)"
proof (cases c)
  case (Update t u nh h s p e)
  then show ?thesis
    using assms
    by (auto simp: updateRoute_ok table_update better_def Let_def split: option.splits)
next
  case (Remove t u)
  then show ?thesis using assms by (simp add: removeRoute_ok table_remove)
next
  case (Clear p)
  then show ?thesis using assms
    by (auto simp: clear_sweep sweep_ok table_sweep fun_eq_iff split: option.splits)
next
  case (Gc now)
  then show ?thesis using assms
    by (auto simp: gc_sweep sweep_ok table_sweep fun_eq_iff not_less [symmetric] split: option.splits)
qed

lemma spec_run: "router_ok rs \<Longrightarrow>
    router_ok (foldl (\<lambda>rs c. exec_op c rs) rs cs)
    \<and> route_table (foldl (\<lambda>rs c. exec_op c rs) rs cs) = foldl (\<lambda>T c. spec_op c T) (route_table rs) cs"
  by (induction cs arbitrary: rs) (simp_all add: exec_op_refines)

text \<open>
  C10: the map of maps refines the abstract table: any sequence of updates, removals,
  disconnect sweeps and garbage collections from the empty router has the effect of the
  specified operations on one table indexed by topic and origin, and never leaves an empty
  topic or a duplicate entry behind.
\<close>

theorem router_refines_table:
  "router_ok (foldl (\<lambda>rs c. exec_op c rs) [] cs)
    \<and> route_table (foldl (\<lambda>rs c. exec_op c rs) [] cs) = foldl (\<lambda>T c. spec_op c T) (\<lambda>_. None) cs"
  using spec_run [of "[]" cs] by (simp add: table_Nil)

section \<open>Route quality\<close>

text \<open>Newer sequence numbers first, then fewer hops.\<close>

definition no_worse :: "route \<Rightarrow> route \<Rightarrow> bool" where
  "no_worse r r' \<longleftrightarrow> sequenceNumber r' < sequenceNumber r
     \<or> (sequenceNumber r' = sequenceNumber r \<and> hopCount r \<le> hopCount r')"

lemma no_worse_refl [simp]: "no_worse r r"
  by (simp add: no_worse_def)

lemma no_worse_trans: "no_worse r s \<Longrightarrow> no_worse s t \<Longrightarrow> no_worse r t"
  by (auto simp: no_worse_def)

fun is_update :: "router_op \<Rightarrow> bool" where
  "is_update (Update t u nh h s p e) = True"
| "is_update c = False"

lemma update_no_worse:
  assumes "is_update c" "T k = Some r"
  obtains r' where "spec_op c T k = Some r'" "no_worse r' r"
  using assms
  by (cases c) (force simp: Let_def better_def no_worse_def split: option.splits if_splits)+

lemma update_offer:
  obtains r where "spec_op (Update t u nh h s p e) T (t, u) = Some r"
    "no_worse r \<lparr>nextHop = nh, hopCount = h, sequenceNumber = s, route_path = p, expiresAt = e\<rparr>"
  by (cases "T (t, u)") (force simp: Let_def better_def no_worse_def split: if_splits)+

lemma updates_no_worse:
  "\<lbrakk>T k = Some r; \<forall>c \<in> set cs. is_update c\<rbrakk> \<Longrightarrow> \<exists>r'. foldl (\<lambda>T c. spec_op c T) T cs k = Some r' \<and> no_worse r' r"
proof (induction cs arbitrary: T r)
  case (Cons c cs)
  obtain r1 where "spec_op c T k = Some r1" "no_worse r1 r"
    using update_no_worse [of c T k r] Cons.prems by auto
  with Cons.IH [of "spec_op c T" r1] Cons.prems no_worse_trans show ?case by fastforce
qed simp

lemma updates_no_worse_offer:
  "\<lbrakk>\<forall>c \<in> set cs. is_update c; Update t u nh h s p e \<in> set cs\<rbrakk> \<Longrightarrow>
    \<exists>r. foldl (\<lambda>T c. spec_op c T) T cs (t, u) = Some r
      \<and> no_worse r \<lparr>nextHop = nh, hopCount = h, sequenceNumber = s, route_path = p, expiresAt = e\<rparr>"
proof (induction cs arbitrary: T)
  case (Cons c cs)
  show ?case
  proof (cases "c = Update t u nh h s p e")
    case True
    obtain r where "spec_op c T (t, u) = Some r"
      "no_worse r \<lparr>nextHop = nh, hopCount = h, sequenceNumber = s, route_path = p, expiresAt = e\<rparr>"
      unfolding True by (rule update_offer)
    then show ?thesis
      using updates_no_worse [of "spec_op c T" "(t, u)" r cs] Cons.prems(1) no_worse_trans by fastforce
  next
    case False
    then show ?thesis using Cons by simp
  qed
qed simp

text \<open>
  The router converges to the best advertised route: after any sequence of
  advertisements in any order, the installed route of an origin is no worse (newer sequence
  number, or the same and no more hops) than every advertisement received for it and than
  the route it had before.
\<close>

theorem router_installs_best:
  assumes "router_ok rs" "\<forall>c \<in> set cs. is_update c" "Update t u nh h s p e \<in> set cs"
  shows "\<exists>r. route_table (foldl (\<lambda>rs c. exec_op c rs) rs cs) (t, u) = Some r
    \<and> no_worse r \<lparr>nextHop = nh, hopCount = h, sequenceNumber = s, route_path = p, expiresAt = e\<rparr>
    \<and> (\<forall>r0. route_table rs (t, u) = Some r0 \<longrightarrow> no_worse r r0)"
proof -
  have run: "route_table (foldl (\<lambda>rs c. exec_op c rs) rs cs) = foldl (\<lambda>T c. spec_op c T) (route_table rs) cs"
    using spec_run assms(1) by blast
  show ?thesis
    unfolding run using updates_no_worse_offer [OF assms(2,3), of "route_table rs"]
      updates_no_worse [of "route_table rs" "(t, u)" _ cs] assms(2) by fastforce
qed

theorem router_installs_best_witness:
  "\<exists>r. route_table (foldl (\<lambda>rs c. exec_op c rs) [] [Update ''t'' ''o'' ''a'' 2 7 [] (At 9), Update ''t'' ''o'' ''b'' 5 6 [] (At 9)]) (''t'', ''o'') = Some r
    \<and> no_worse r \<lparr>nextHop = ''b'', hopCount = 5, sequenceNumber = 6, route_path = [], expiresAt = At 9\<rparr>"
  using router_installs_best [of "[]" "[Update ''t'' ''o'' ''a'' 2 7 [] (At 9), Update ''t'' ''o'' ''b'' 5 6 [] (At 9)]" "''t''" "''o''" "''b''" 5 6 "[]" "At 9"]
  by (simp del: exec_op.simps) blast

section \<open>Forwarding targets\<close>

lemma set_fold_targets:
  "set (foldl (\<lambda>peers (origin, r). if P r then set_add peers (f r) else peers) ps m) =
    set ps \<union> {f r |origin r. (origin, r) \<in> set m \<and> P r}"
  by (induction m arbitrary: ps) auto

lemma distinct_fold_targets:
  "distinct (foldl (\<lambda>peers (origin, r). if P r then set_add peers (f r) else peers) ps m) = distinct ps"
proof (induction m arbitrary: ps)
  case (Cons x m)
  show ?case by (cases x) (simp only: foldl_Cons Cons.IH, simp)
qed simp

lemma distinct_getPeers: "distinct (getPeersForTopic t now rs)"
  by (auto simp: getPeersForTopic_def distinct_fold_targets split: option.splits)

lemma set_getPeers:
  assumes "router_ok rs"
  shows "set (getPeersForTopic t now rs) =
    {nextHop r |u r. route_table rs (t, u) = Some r \<and> At now \<le> expiresAt r}"
proof (cases "map_get rs t")
  case (Some m)
  then show ?thesis
    using map_ok_get_iff [of m] router_okD [OF assms Some]
    by (auto simp: getPeersForTopic_def set_fold_targets table_get)
qed (simp add: getPeersForTopic_def table_get)

text \<open>
  What the gossip engine relies on when it asks for forwarding targets: a cleared peer is
  never a target, clearing adds no target, and collecting garbage at \<open>now\<close> changes no
  answer given at or after \<open>now\<close>.
\<close>

locale forwarding_table =
  fixes targets :: "topic_name \<Rightarrow> time \<Rightarrow> 'r \<Rightarrow> peer_id list"
    and clear :: "peer_id \<Rightarrow> 'r \<Rightarrow> 'r"
    and gc :: "time \<Rightarrow> 'r \<Rightarrow> 'r"
    and ok :: "'r \<Rightarrow> bool"
  assumes ok_clear: "ok r \<Longrightarrow> ok (clear p r)"
    and ok_gc: "ok r \<Longrightarrow> ok (gc now r)"
    and clear_removes: "ok r \<Longrightarrow> p \<notin> set (targets t now (clear p r))"
    and clear_adds_nothing: "ok r \<Longrightarrow> set (targets t now (clear p r)) \<subseteq> set (targets t now r)"
    and gc_transparent: "ok r \<Longrightarrow> now \<le> now' \<Longrightarrow> set (targets t now' (gc now r)) = set (targets t now' r)"
begin

lemma ok_clear_all: "ok r \<Longrightarrow> ok (foldl (\<lambda>r p. clear p r) r ps)"
  by (induction ps arbitrary: r) (simp_all add: ok_clear)

lemma clear_all:
  "ok r \<Longrightarrow> set (targets t now (foldl (\<lambda>r p. clear p r) r ps)) \<subseteq> set (targets t now r) - set ps"
proof (induction ps arbitrary: r)
  case (Cons p ps)
  from Cons.IH [OF ok_clear [OF Cons.prems]] clear_removes [OF Cons.prems] clear_adds_nothing [OF Cons.prems]
  show ?case by fastforce
qed simp

lemma gc_gc: "ok r \<Longrightarrow> now \<le> now' \<Longrightarrow> now' \<le> now'' \<Longrightarrow>
    set (targets t now'' (gc now' (gc now r))) = set (targets t now'' r)"
  by (simp add: gc_transparent ok_gc)

end

lemma At_le_trans: "now \<le> now' \<Longrightarrow> At now' \<le> e \<Longrightarrow> At now \<le> e"
  by (cases e) auto

interpretation ft: forwarding_table getPeersForTopic clearRoutesForPeer router_gc router_ok
proof unfold_locales
  fix rs :: routes and now now' :: time and t :: topic_name and p :: peer_id
  assume ok: "router_ok rs"
  show ok1: "router_ok (clearRoutesForPeer p rs)" and ok2: "router_ok (router_gc now rs)"
    using ok by (simp_all add: clear_sweep gc_sweep sweep_ok)
  show "p \<notin> set (getPeersForTopic t now (clearRoutesForPeer p rs))"
    "set (getPeersForTopic t now (clearRoutesForPeer p rs)) \<subseteq> set (getPeersForTopic t now rs)"
    using ok ok1 by (auto simp: set_getPeers clear_sweep table_sweep_iff)
  show "now \<le> now' \<Longrightarrow> set (getPeersForTopic t now' (router_gc now rs)) = set (getPeersForTopic t now' rs)"
    unfolding set_getPeers [OF ok] set_getPeers [OF ok2] unfolding gc_sweep table_sweep_iff [OF ok]
    by (auto dest: At_le_trans)
qed

text \<open>
  After the disconnect sweep of any number of peers, none of them is a forwarding target
  of any topic at any time, and every other live route is still used: the targets are
  exactly the next hops of the live routes that neither start at nor pass through them.
\<close>

theorem clear_routes_exact:
  assumes "router_ok rs"
  shows "set (getPeersForTopic t now (clearRoutesForPeer p rs)) =
      {nextHop r |u r. route_table rs (t, u) = Some r \<and> At now \<le> expiresAt r \<and> nextHop r \<noteq> p \<and> u \<noteq> p}
    \<and> set (getPeersForTopic t now (foldl (\<lambda>rs p. clearRoutesForPeer p rs) rs ps)) \<inter> set ps = {}"
  using ft.clear_all [OF assms, of t now ps] ft.ok_clear [OF assms, of p] assms
  by (auto simp: set_getPeers clear_sweep table_sweep_iff)

theorem clear_routes_exact_witness:
  "set (getPeersForTopic ''t'' 5 (clearRoutesForPeer ''b'' [(''t'', [(''o'', \<lparr>nextHop = ''b'', hopCount = 1,
      sequenceNumber = 1, route_path = [], expiresAt = Infinity\<rparr>)])])) = {}"
  using clear_routes_exact [of "[(''t'', [(''o'', \<lparr>nextHop = ''b'', hopCount = 1,
      sequenceNumber = 1, route_path = [], expiresAt = Infinity\<rparr>)])]" "''t''" 5 "''b''" "[]"]
  by (auto simp: router_ok_def map_ok_def route_table_def split: if_splits)



end
