(* ===== verification/GossipEngine.thy ===== *)
theory GossipEngine
  imports Security RateLimiter TopicRouter
begin

text \<open>
  The gossip engine of \<^verbatim>\<open>protocol/gossipEngine.js\<close>: one handler that takes a received
  message through proof of work, rate limit, signature, clock and duplicate checks and then
  routes it. The pool's \<^verbatim>\<open>getAllPeerIds()\<close> is the argument \<open>peers\<close> (broadcasting does
  not change it); clock readings and random numbers come from \<open>env\<close>. The outcome says
  whether the handler finished, threw, or met a subscription whose fields have other types
  than the factory gives them, on which the typed model stops.
\<close>

record env =
  t_check :: time
  t_refill :: time
  t_route :: time
  t_forward :: time
  rnd :: "nat \<Rightarrow> rat"

record engine =
  lamportClock :: lamport_clock
  securityManager :: "security option"
  seenMessages :: "string list"
  rateLimiter :: rate_limiter
  topicRouter :: routes
  metrics :: collector

datatype engine_out = Broadcast message "peer_id list" | New_Message message | Limiter rl_event

datatype outcome = Done | Threw js_error | Untyped

definition engine_init :: "nat option \<Rightarrow> nat option \<Rightarrow> security option \<Rightarrow> engine" where
  "engine_init cap rate sec = \<lparr>lamportClock = clock_init, securityManager = sec, seenMessages = [],
     rateLimiter = rl_init cap rate, topicRouter = [], metrics = collector_init\<rparr>"

definition count_metric :: "string \<Rightarrow> engine \<Rightarrow> engine" where
  "count_metric name e = e\<lparr>metrics := increment name (metrics e)\<rparr>"

text \<open>\<^verbatim>\<open>Math.floor(Math.random() * n)\<close>, in range for random numbers of the half-open unit interval.\<close>

definition rand_index :: "rat \<Rightarrow> nat \<Rightarrow> nat" where
  "rand_index r n = (let i = nat \<lfloor>r * of_nat n\<rfloor> in if i < n then i else 0)"

fun pick_peers :: "nat \<Rightarrow> nat \<Rightarrow> (nat \<Rightarrow> rat) \<Rightarrow> nat \<Rightarrow> peer_id list \<Rightarrow> peer_id list \<Rightarrow> peer_id list" where
  "pick_peers 0 k rs i selected available = selected"
| "pick_peers (Suc fuel) k rs i selected available =
    (if length selected < k \<and> available \<noteq> [] then
       let j = rand_index (rs i) (length available)
       in pick_peers fuel k rs (Suc i) (set_add selected (available ! j)) (take j available @ drop (Suc j) available)
     else selected)"

text \<open>The loop removes one available peer per round, so their number is enough fuel.\<close>

definition select_random :: "nat \<Rightarrow> (nat \<Rightarrow> rat) \<Rightarrow> peer_id list \<Rightarrow> peer_id list" where
  "select_random k rs available = pick_peers (length available) k rs 0 [] available"

definition eligible_peers :: "env \<Rightarrow> peer_id list \<Rightarrow> message \<Rightarrow> peer_id option \<Rightarrow> engine \<Rightarrow> peer_id list" where
  "eligible_peers ev peers m frm e =
    (let available =
           (if msg_topic m \<noteq> [] \<and> msg_topic m \<noteq> ''global''
            then let subscribed = getPeersForTopic (msg_topic m) (t_forward ev) (topicRouter e)
                 in filter (\<lambda>p. p \<in> set subscribed) peers
            else peers);
         excludeBase = set_add [] (sender m);
         excludeBase = (if truthy frm then set_add excludeBase (the frm) else excludeBase)
     in filter (\<lambda>p. p \<notin> set excludeBase) available)"

definition forwardMessage ::
  "env \<Rightarrow> peer_id list \<Rightarrow> message \<Rightarrow> peer_id option \<Rightarrow> engine \<Rightarrow> engine \<times> engine_out list" where
  "forwardMessage ev peers m frm e =
    (let available = eligible_peers ev peers m frm e;
         k = min GOSSIP_FANOUT (length available);
         selected = select_random k (rnd ev) available
     in if selected = [] then (e, [])
        else (count_metric ''messages_forwarded_total'' e,
              [Broadcast m (filter (\<lambda>p. p \<notin> set selected) peers)]))"

text \<open>The fields \<^verbatim>\<open>topic\<close>, \<^verbatim>\<open>sequenceNumber\<close> and \<^verbatim>\<open>action\<close> of a subscription payload.\<close>

definition sub_ad_fields :: "json \<Rightarrow> topic_name option \<times> int option \<times> string option" where
  "sub_ad_fields j = (case j of
     JObj fs \<Rightarrow> (str_field fs ''topic'', int_field fs ''sequenceNumber'', str_field fs ''action'')
   | _ \<Rightarrow> (None, None, None))"

text \<open>The propagation block, the same in the JOIN and the LEAVE branch.\<close>

definition propagate_sub_ad ::
  "peer_id \<Rightarrow> peer_id list \<Rightarrow> peer_id list \<Rightarrow> message \<Rightarrow> peer_id option \<Rightarrow> engine
    \<Rightarrow> message \<times> engine \<times> engine_out list" where
  "propagate_sub_ad me peers path m frm e =
    (let nextPath = path @ [me];
         m = m\<lparr>ttl := ttl m - 1, routingPath := Some nextPath\<rparr>;
         excludeSet = set_of_array nextPath;
         excludeSet = (if truthy frm then set_add excludeSet (the frm) else excludeSet);
         excludeSet = set_add excludeSet (sender m);
         selected = filter (\<lambda>p. p \<notin> set excludeSet) peers
     in if length selected > 0
        then (m, count_metric ''messages_forwarded_total'' e,
              [Broadcast m (filter (\<lambda>p. p \<notin> set selected) peers)])
        else (m, e, []))"

definition ROUTE_LEASE_MS :: time where [simp]: "ROUTE_LEASE_MS = 30000"

text \<open>
  What the fields do to the routing table: a changed or unchanged table, nothing for another
  action (or a LEAVE whose topic names no entry), or fields of other types.
\<close>

datatype route_change = Route bool routes | No_Action | Bad_Fields

definition sub_ad_change ::
  "time \<Rightarrow> peer_id \<Rightarrow> peer_id \<Rightarrow> peer_id list \<Rightarrow> topic_name option \<times> int option \<times> string option \<Rightarrow> routes \<Rightarrow> route_change" where
  "sub_ad_change now origin nh path = (\<lambda>(topic, seq, action) rs.
     if action = Some ''JOIN'' then
       (case (topic, seq) of
          (Some tp, Some sq) \<Rightarrow>
            (case updateRoute tp origin nh (int (length path)) sq path (At (now + ROUTE_LEASE_MS)) rs of
               (updated, rs) \<Rightarrow> Route updated rs)
        | _ \<Rightarrow> Bad_Fields)
     else if action = Some ''LEAVE'' then
       (case topic of
          Some tp \<Rightarrow> (case removeRoute tp origin rs of (deleted, rs) \<Rightarrow> Route deleted rs)
        | None \<Rightarrow> No_Action)
     else No_Action)"

definition path_of :: "message \<Rightarrow> peer_id list" where
  "path_of m = (case routingPath m of None \<Rightarrow> [] | Some p \<Rightarrow> p)"

text \<open>The SUB_AD branch: the outcome, the new state and the effects.\<close>

definition receive_sub_ad ::
  "env \<Rightarrow> peer_id \<Rightarrow> peer_id list \<Rightarrow> message \<Rightarrow> peer_id option \<Rightarrow> engine
    \<Rightarrow> outcome \<times> engine \<times> engine_out list" where
  "receive_sub_ad ev me peers m frm e =
    (case json_parse (payload m) of
       None \<Rightarrow> (Done, e, [])
     | Some JNull \<Rightarrow> (Threw Type_Error, e, [])
     | Some j \<Rightarrow>
         if me \<in> set (path_of m) then (Done, e, [])
         else
           (case sub_ad_change (t_route ev) (sender m) (if truthy frm then the frm else me) (path_of m)
                   (sub_ad_fields j) (topicRouter e) of
              Bad_Fields \<Rightarrow> (Untyped, e, [])
            | No_Action \<Rightarrow> (Done, e, [New_Message m])
            | Route changed router \<Rightarrow>
                (let e = e\<lparr>topicRouter := router\<rparr>
                 in if changed \<and> ttl m > 1
                    then (case propagate_sub_ad me peers (path_of m) m frm e of
                            (m, e, out) \<Rightarrow> (Done, e, out @ [New_Message m]))
                    else (Done, e, [New_Message m]))))"

definition receive_gossip ::
  "env \<Rightarrow> peer_id list \<Rightarrow> message \<Rightarrow> peer_id option \<Rightarrow> engine \<Rightarrow> engine \<times> engine_out list" where
  "receive_gossip ev peers m frm e =
    (let m = m\<lparr>ttl := ttl m - 1\<rparr>;
         (e, out) = (if ttl m > 0 then forwardMessage ev peers m frm e
                     else (count_metric ''messages_dropped_ttl'' e, []))
     in (e, out @ [New_Message m]))"

text \<open>The checks before the duplicate check: proof of work, rate limit, signature, then the clock.\<close>

definition admission_checks ::
  "sodium \<Rightarrow> env \<Rightarrow> message \<Rightarrow> peer_id option \<Rightarrow> engine \<Rightarrow> bool \<times> engine \<times> engine_out list" where
  "admission_checks s ev m frm e =
    (let e = count_metric ''messages_received_total'' e in
     if \<not> pow_ok m then (False, count_metric ''messages_dropped_pow'' e, [])
     else
       let (allowed, rl, evs) =
             (if truthy frm then checkLimit (t_check ev) (t_refill ev) (the frm) (rateLimiter e)
              else (True, rateLimiter e, []));
           e = e\<lparr>rateLimiter := rl\<rparr>;
           lims = map Limiter evs
       in if \<not> allowed then (False, count_metric ''messages_dropped_ratelimit'' e, lims)
          else
            let (valid, e) =
                  (case securityManager e of
                     None \<Rightarrow> (True, e)
                   | Some sec \<Rightarrow>
                       (case verifyIncomingMessage s m sec (metrics e) of (b, sec, col) \<Rightarrow>
                          (b, e\<lparr>securityManager := Some sec, metrics := col\<rparr>)))
            in if \<not> valid then (False, count_metric ''invalid_signature_count'' e, lims)
               else
                 (True,
                  (if lamportTimestamp m \<noteq> 0
                   then e\<lparr>lamportClock := clock_update (lamportClock e) (lamportTimestamp m)\<rparr> else e), lims))"

definition receiveMessage ::
  "sodium \<Rightarrow> env \<Rightarrow> peer_id \<Rightarrow> peer_id list \<Rightarrow> message \<Rightarrow> peer_id option \<Rightarrow> engine
    \<Rightarrow> outcome \<times> engine \<times> engine_out list" where
  "receiveMessage s ev me peers m frm e =
    (let (admitted, e, lims) = admission_checks s ev m frm e in
     if \<not> admitted then (Done, e, lims)
     else if msg_id m \<in> set (seenMessages e) then (Done, count_metric ''messages_dropped_duplicate'' e, lims)
     else
       let e = e\<lparr>seenMessages := set_add (seenMessages e) (msg_id m)\<rparr>
       in if msg_type m = ''SUB_AD''
          then let (r, e, out) = receive_sub_ad ev me peers m frm e in (r, e, lims @ out)
          else let (e, out) = receive_gossip ev peers m frm e in (Done, e, lims @ out))"

definition gossip_subscribe :: "peer_id \<Rightarrow> topic_name \<Rightarrow> engine \<Rightarrow> engine" where
  "gossip_subscribe p t e = e\<lparr>topicRouter := router_subscribe p t (topicRouter e)\<rparr>"

definition gossip_unsubscribe :: "peer_id \<Rightarrow> topic_name \<Rightarrow> engine \<Rightarrow> engine" where
  "gossip_unsubscribe p t e = e\<lparr>topicRouter := router_unsubscribe p t (topicRouter e)\<rparr>"

section \<open>The random selection\<close>

lemma rand_index_less: "0 < n \<Longrightarrow> rand_index r n < n"
  by (simp add: rand_index_def Let_def)

lemma rand_index_random: "0 \<le> r \<Longrightarrow> r < 1 \<Longrightarrow> 0 < n \<Longrightarrow> rand_index r n = nat \<lfloor>r * of_nat n\<rfloor>"
proof -
  assume r: "0 \<le> r" "r < 1" "0 < n"
  have "r * of_nat n < of_nat n" using r by simp
  then have "\<lfloor>r * of_nat n\<rfloor> < int n" by (simp add: floor_less_iff)
  then show ?thesis using r by (simp add: rand_index_def Let_def nat_less_iff)
qed

lemma remove_nth: 
  assumes "distinct xs" "j < length xs"
  shows "set (take j xs @ drop (Suc j) xs) = set xs - {xs ! j}" "distinct (take j xs @ drop (Suc j) xs)"
    "length (take j xs @ drop (Suc j) xs) = length xs - 1"
proof -
  have xs: "xs = take j xs @ xs ! j # drop (Suc j) xs" using assms(2) by (simp add: id_take_nth_drop)
  have d: "distinct (take j xs @ xs ! j # drop (Suc j) xs)" using assms(1) xs by simp
  have s: "set xs = set (take j xs @ xs ! j # drop (Suc j) xs)" using xs by simp
  show "distinct (take j xs @ drop (Suc j) xs)" using d by auto
  show "set (take j xs @ drop (Suc j) xs) = set xs - {xs ! j}" unfolding s using d by auto
  show "length (take j xs @ drop (Suc j) xs) = length xs - 1" using assms(2) by simp
qed

lemma pick_peers_props:
  assumes "distinct selected" "distinct available" "set selected \<inter> set available = {}"
    "length selected \<le> k" "fuel = length available"
  shows "distinct (pick_peers fuel k rs i selected available)
    \<and> set selected \<subseteq> set (pick_peers fuel k rs i selected available)
    \<and> set (pick_peers fuel k rs i selected available) \<subseteq> set selected \<union> set available
    \<and> length (pick_peers fuel k rs i selected available) = min k (length selected + length available)"
  using assms
proof (induction fuel arbitrary: i selected available)
  case (Suc fuel)
  show ?case
  proof (cases "length selected < k")
    case True
    let ?j = "rand_index (rs i) (length available)"
    let ?x = "available ! ?j" and ?av = "take ?j available @ drop (Suc ?j) available"
    have ne: "available \<noteq> []" using Suc.prems(5) by auto
    have j: "?j < length available" using ne by (simp add: rand_index_less)
    note rem = remove_nth [OF Suc.prems(2) j]
    have x: "?x \<in> set available" using j by simp
    have fresh: "?x \<notin> set selected" using x Suc.prems(3) by blast
    have sel: "set_add selected ?x = selected @ [?x]" using fresh by (simp add: set_add_def)
    have step: "pick_peers (Suc fuel) k rs i selected available
        = pick_peers fuel k rs (Suc i) (selected @ [?x]) ?av"
      using True ne sel by (simp add: Let_def)
    have "distinct (selected @ [?x])" "set (selected @ [?x]) \<inter> set ?av = {}" "length (selected @ [?x]) \<le> k"
      "fuel = length ?av"
      using Suc.prems fresh True rem by auto
    from Suc.IH [OF this(1) rem(2) this(2-4), of "Suc i"] rem x Suc.prems(5) show ?thesis
      unfolding step by auto
  next
    case False
    then have stop: "pick_peers (Suc fuel) k rs i selected available = selected" by simp
    show ?thesis unfolding stop using Suc.prems False by auto
  qed
qed simp

lemma select_random_props:
  assumes "distinct available" "k \<le> length available"
  shows "distinct (select_random k rs available)" "set (select_random k rs available) \<subseteq> set available"
    "length (select_random k rs available) = k"
  using pick_peers_props [of "[]" available k "length available" rs 0] assms
  by (simp_all add: select_random_def)

section \<open>The stages of the handler\<close>

lemma count_metric_frame [simp]:
  "lamportClock (count_metric n e) = lamportClock e" "seenMessages (count_metric n e) = seenMessages e"
  "topicRouter (count_metric n e) = topicRouter e" "rateLimiter (count_metric n e) = rateLimiter e"
  "securityManager (count_metric n e) = securityManager e"
  by (simp_all add: count_metric_def)

definition is_limiter :: "engine_out \<Rightarrow> bool" where
  "is_limiter x = (case x of Limiter _ \<Rightarrow> True | _ \<Rightarrow> False)"

lemma admission_checks_props:
  assumes "admission_checks s ev m frm e = (ok, e', lims)"
  shows "seenMessages e' = seenMessages e" "topicRouter e' = topicRouter e" "list_all is_limiter lims"
    "ok \<Longrightarrow> pow_ok m"
    "ok \<Longrightarrow> truthy frm \<Longrightarrow> fst (checkLimit (t_check ev) (t_refill ev) (the frm) (rateLimiter e))"
    "ok \<Longrightarrow> securityManager e = Some sec \<Longrightarrow>
      \<exists>col. fst (verifyIncomingMessage s m sec col) \<and> securityManager e' = Some (fst (snd (verifyIncomingMessage s m sec col)))"
    "lamportClock e' = (if ok \<and> lamportTimestamp m \<noteq> 0
       then clock_update (lamportClock e) (lamportTimestamp m) else lamportClock e)"
  using assms
  by (auto simp: admission_checks_def Let_def is_limiter_def list_all_iff split: prod.splits option.splits if_splits
      intro: exI [of _ "metrics (count_metric ''messages_received_total'' e)"])

lemma receive_cases:
  assumes "receiveMessage s ev me peers m frm e = (r, e', out)"
  obtains (dropped) "r = Done" "list_all is_limiter out" "seenMessages e' = seenMessages e" "topicRouter e' = topicRouter e"
    | (accepted) e1 lims out1 where "list_all is_limiter lims" "out = lims @ out1" "pow_ok m"
        "msg_id m \<notin> set (seenMessages e)" "seenMessages e1 = seenMessages e @ [msg_id m]" "topicRouter e1 = topicRouter e"
        "if msg_type m = ''SUB_AD'' then receive_sub_ad ev me peers m frm e1 = (r, e', out1)
         else r = Done \<and> receive_gossip ev peers m frm e1 = (e', out1)"
proof -
  obtain ok e0 lims where adm: "admission_checks s ev m frm e = (ok, e0, lims)"
    by (cases "admission_checks s ev m frm e")
  note p = admission_checks_props [OF adm]
  show thesis
  proof (cases "ok \<and> msg_id m \<notin> set (seenMessages e0)")
    case False
    then have "r = Done" "out = lims" "seenMessages e' = seenMessages e0" "topicRouter e' = topicRouter e0"
      using assms adm by (auto simp: receiveMessage_def split: if_splits)
    then show thesis using dropped p by simp
  next
    case True
    let ?e1 = "e0\<lparr>seenMessages := set_add (seenMessages e0) (msg_id m)\<rparr>"
    have seen: "seenMessages ?e1 = seenMessages e @ [msg_id m]" "topicRouter ?e1 = topicRouter e"
      using True p by (simp_all add: set_add_def)
    show thesis
    proof (cases "msg_type m = ''SUB_AD''")
      case sub: True
      obtain r1 e2 out1 where x: "receive_sub_ad ev me peers m frm ?e1 = (r1, e2, out1)"
        by (cases "receive_sub_ad ev me peers m frm ?e1")
      have "r1 = r" "e2 = e'" "out = lims @ out1"
        using assms True adm sub x by (auto simp: receiveMessage_def Let_def)
      then show thesis using accepted [OF p(3) _ _ _ seen] True p sub x by auto
    next
      case sub: False
      obtain e2 out1 where x: "receive_gossip ev peers m frm ?e1 = (e2, out1)"
        by (cases "receive_gossip ev peers m frm ?e1")
      have "r = Done" "e2 = e'" "out = lims @ out1"
        using assms True adm sub x by (auto simp: receiveMessage_def Let_def)
      then show thesis using accepted [OF p(3) _ _ _ seen] True p sub x by auto
    qed
  qed
qed

text \<open>Eligibility reads the topic and the author of a message only.\<close>

lemma eligible_ttl: "eligible_peers ev peers (m\<lparr>ttl := t\<rparr>) frm e = eligible_peers ev peers m frm e"
  by (simp add: eligible_peers_def)

definition gossip_selection :: "env \<Rightarrow> peer_id list \<Rightarrow> message \<Rightarrow> peer_id option \<Rightarrow> engine \<Rightarrow> peer_id list" where
  "gossip_selection ev peers m frm e =
    (let el = eligible_peers ev peers m frm e in select_random (min GOSSIP_FANOUT (length el)) (rnd ev) el)"

lemma receive_gossip_out:
  assumes "receive_gossip ev peers m frm e = (e', out)"
  shows "seenMessages e' = seenMessages e" "topicRouter e' = topicRouter e" "lamportClock e' = lamportClock e"
    "out = [New_Message (m\<lparr>ttl := ttl m - 1\<rparr>)] \<or>
      (1 < ttl m \<and> gossip_selection ev peers m frm e \<noteq> [] \<and>
        out = [Broadcast (m\<lparr>ttl := ttl m - 1\<rparr>) (filter (\<lambda>p. p \<notin> set (gossip_selection ev peers m frm e)) peers),
               New_Message (m\<lparr>ttl := ttl m - 1\<rparr>)])"
proof -
  let ?m = "m\<lparr>ttl := ttl m - 1\<rparr>" and ?sel = "gossip_selection ev peers m frm e"
  have fwd: "forwardMessage ev peers ?m frm e =
    (if ?sel = [] then (e, []) else (count_metric ''messages_forwarded_total'' e,
       [Broadcast ?m (filter (\<lambda>p. p \<notin> set ?sel) peers)]))"
    by (simp only: forwardMessage_def gossip_selection_def Let_def eligible_ttl)
  have eq: "receive_gossip ev peers m frm e =
    (if 0 < ttl m - 1 then (fst (forwardMessage ev peers ?m frm e), snd (forwardMessage ev peers ?m frm e) @ [New_Message ?m])
     else (count_metric ''messages_dropped_ttl'' e, [New_Message ?m]))"
    by (simp add: receive_gossip_def Let_def case_prod_beta)
  show "seenMessages e' = seenMessages e" "topicRouter e' = topicRouter e" "lamportClock e' = lamportClock e"
    "out = [New_Message ?m] \<or> (1 < ttl m \<and> ?sel \<noteq> [] \<and>
       out = [Broadcast ?m (filter (\<lambda>p. p \<notin> set ?sel) peers), New_Message ?m])"
    using assms unfolding eq fwd by (auto split: if_splits)
qed

definition next_hop_message :: "peer_id \<Rightarrow> message \<Rightarrow> message" where
  "next_hop_message me m = m\<lparr>ttl := ttl m - 1, routingPath := Some (path_of m @ [me])\<rparr>"

text \<open>Whom a forwarded subscription may reach.\<close>

definition off_path :: "peer_id \<Rightarrow> message \<Rightarrow> peer_id option \<Rightarrow> peer_id \<Rightarrow> bool" where
  "off_path me m frm p \<longleftrightarrow> p \<notin> set (path_of m) \<and> p \<noteq> me \<and> p \<noteq> sender m \<and> (truthy frm \<longrightarrow> p \<noteq> the frm)"

lemma complement_twice:
  assumes "\<And>p. p \<in> set X \<longleftrightarrow> \<not> P p"
  shows "filter (\<lambda>p. p \<notin> set (filter (\<lambda>p. p \<notin> set X) peers)) peers = filter (\<lambda>p. \<not> P p) peers"
  by (rule filter_cong) (simp_all add: assms)

lemma propagate_out:
  assumes "propagate_sub_ad me peers (path_of m) m frm e = (m', e', out)"
  shows "m' = next_hop_message me m" "seenMessages e' = seenMessages e" "topicRouter e' = topicRouter e"
    "lamportClock e' = lamportClock e"
    "out = [] \<or> out = [Broadcast m' (filter (\<lambda>p. \<not> off_path me m frm p) peers)]"
proof -
  define X where "X = set_add (if truthy frm then set_add (set_of_array (path_of m @ [me])) (the frm)
     else set_of_array (path_of m @ [me])) (sender m)"
  have X: "p \<in> set X \<longleftrightarrow> \<not> off_path me m frm p" for p
    by (auto simp: X_def off_path_def)
  have same: "sender (m\<lparr>ttl := t, routingPath := q\<rparr>) = sender m" for t q by simp
  have eq: "propagate_sub_ad me peers (path_of m) m frm e =
    (if filter (\<lambda>p. p \<notin> set X) peers \<noteq> []
     then (next_hop_message me m, count_metric ''messages_forwarded_total'' e,
           [Broadcast (next_hop_message me m) (filter (\<lambda>p. p \<notin> set (filter (\<lambda>p. p \<notin> set X) peers)) peers)])
     else (next_hop_message me m, e, []))"
    by (simp only: propagate_sub_ad_def Let_def X_def next_hop_message_def same length_greater_0_conv)
  show "m' = next_hop_message me m" "seenMessages e' = seenMessages e" "topicRouter e' = topicRouter e"
    "lamportClock e' = lamportClock e"
    "out = [] \<or> out = [Broadcast m' (filter (\<lambda>p. \<not> off_path me m frm p) peers)]"
    using assms unfolding eq complement_twice [OF X] by (auto split: if_splits)
qed

lemma receive_sub_ad_out:
  assumes "receive_sub_ad ev me peers m frm e = (r, e', out)"
  shows "seenMessages e' = seenMessages e" "lamportClock e' = lamportClock e"
    "out = [] \<or> out = [New_Message m] \<or> out = [New_Message (next_hop_message me m)] \<or>
      (1 < ttl m \<and> me \<notin> set (path_of m) \<and>
       out = [Broadcast (next_hop_message me m) (filter (\<lambda>p. \<not> off_path me m frm p) peers),
              New_Message (next_hop_message me m)])"
proof -
  have "seenMessages e' = seenMessages e \<and> lamportClock e' = lamportClock e \<and>
    (out = [] \<or> out = [New_Message m] \<or> out = [New_Message (next_hop_message me m)] \<or>
      (1 < ttl m \<and> me \<notin> set (path_of m) \<and>
       out = [Broadcast (next_hop_message me m) (filter (\<lambda>p. \<not> off_path me m frm p) peers),
              New_Message (next_hop_message me m)]))"
  proof (cases "json_parse (payload m)")
    case None
    then show ?thesis using assms by (simp add: receive_sub_ad_def)
  next
    case (Some j)
    let ?c = "sub_ad_change (t_route ev) (sender m) (if truthy frm then the frm else me) (path_of m)
                   (sub_ad_fields j) (topicRouter e)"
    consider "j = JNull" | "j \<noteq> JNull" "me \<in> set (path_of m)" | "j \<noteq> JNull" "me \<notin> set (path_of m)" by blast
    then show ?thesis
    proof cases
      case 3
      then have eq: "receive_sub_ad ev me peers m frm e = (case ?c of
              Bad_Fields \<Rightarrow> (Untyped, e, [])
            | No_Action \<Rightarrow> (Done, e, [New_Message m])
            | Route changed router \<Rightarrow>
                (let e = e\<lparr>topicRouter := router\<rparr>
                 in if changed \<and> ttl m > 1
                    then (case propagate_sub_ad me peers (path_of m) m frm e of
                            (m, e, out) \<Rightarrow> (Done, e, out @ [New_Message m]))
                    else (Done, e, [New_Message m])))"
        using Some by (cases j) (simp_all add: receive_sub_ad_def)
      show ?thesis
      proof (cases ?c)
        case (Route changed router)
        obtain m2 e2 o2 where pr: "propagate_sub_ad me peers (path_of m) m frm (e\<lparr>topicRouter := router\<rparr>) = (m2, e2, o2)"
          by (cases "propagate_sub_ad me peers (path_of m) m frm (e\<lparr>topicRouter := router\<rparr>)")
        show ?thesis
          using assms eq Route pr propagate_out [OF pr] 3 by (auto simp: Let_def split: if_splits)
      qed (use assms eq in auto)
    qed (use assms Some in \<open>auto simp: receive_sub_ad_def split: json.splits\<close>)
  qed
  then show "seenMessages e' = seenMessages e" "lamportClock e' = lamportClock e"
    "out = [] \<or> out = [New_Message m] \<or> out = [New_Message (next_hop_message me m)] \<or>
      (1 < ttl m \<and> me \<notin> set (path_of m) \<and>
       out = [Broadcast (next_hop_message me m) (filter (\<lambda>p. \<not> off_path me m frm p) peers),
              New_Message (next_hop_message me m)])"
    by blast+
qed

section \<open>Exactly-once processing\<close>

definition delivered :: "engine_out list \<Rightarrow> string list" where
  "delivered out = List.map_filter (\<lambda>x. case x of New_Message m \<Rightarrow> Some (msg_id m) | _ \<Rightarrow> None) out"

definition relayed :: "engine_out list \<Rightarrow> string list" where
  "relayed out = List.map_filter (\<lambda>x. case x of Broadcast m excl \<Rightarrow> Some (msg_id m) | _ \<Rightarrow> None) out"

lemma delivered_simps [simp]:
  "delivered [] = []" "delivered (a @ b) = delivered a @ delivered b"
  "delivered (New_Message m # out) = msg_id m # delivered out" "delivered (Broadcast m x # out) = delivered out"
  "relayed [] = []" "relayed (a @ b) = relayed a @ relayed b"
  "relayed (New_Message m # out) = relayed out" "relayed (Broadcast m x # out) = msg_id m # relayed out"
  by (simp_all add: delivered_def relayed_def List.map_filter_def)

lemma limiter_silent: "list_all is_limiter out \<Longrightarrow> delivered out = [] \<and> relayed out = []"
  by (induction out) (auto simp: delivered_def relayed_def is_limiter_def List.map_filter_simps split: engine_out.splits)

lemma next_hop_id [simp]: "msg_id (next_hop_message me m) = msg_id m"
  by (simp add: next_hop_message_def)

lemma receive_ids:
  assumes "receiveMessage s ev me peers m frm e = (r, e', out)"
  shows "(delivered out = [] \<and> relayed out = [] \<and> (seenMessages e' = seenMessages e \<or>
            (msg_id m \<notin> set (seenMessages e) \<and> seenMessages e' = seenMessages e @ [msg_id m]))) \<or>
    (msg_id m \<notin> set (seenMessages e) \<and> seenMessages e' = seenMessages e @ [msg_id m] \<and>
     delivered out = [msg_id m] \<and> (relayed out = [] \<or> relayed out = [msg_id m]))"
  using assms
proof (cases rule: receive_cases)
  case dropped
  then show ?thesis using limiter_silent by simp
next
  case (accepted e1 lims out1)
  show ?thesis
  proof (cases "msg_type m = ''SUB_AD''")
    case True
    then have "receive_sub_ad ev me peers m frm e1 = (r, e', out1)" using accepted by simp
    from receive_sub_ad_out [OF this] accepted limiter_silent show ?thesis by auto
  next
    case False
    then have "receive_gossip ev peers m frm e1 = (e', out1)" using accepted by simp
    from receive_gossip_out [OF this] accepted limiter_silent show ?thesis by auto
  qed
qed

text \<open>A run of received messages, each with its environment, connected peers and sender.\<close>

fun receive_run ::
  "sodium \<Rightarrow> peer_id \<Rightarrow> (env \<times> peer_id list \<times> message \<times> peer_id option) list \<Rightarrow> engine \<Rightarrow> engine \<times> engine_out list" where
  "receive_run s me [] e = (e, [])"
| "receive_run s me ((ev, peers, m, frm) # rest) e =
    (case receiveMessage s ev me peers m frm e of (r, e, out) \<Rightarrow>
       case receive_run s me rest e of (e, outs) \<Rightarrow> (e, out @ outs))"

lemma receive_run_ids:
  assumes "receive_run s me rs e = (e', outs)"
  shows "distinct (delivered outs) \<and> distinct (relayed outs) \<and>
    set (delivered outs) \<union> set (relayed outs) \<subseteq> set (seenMessages e') - set (seenMessages e) \<and>
    set (seenMessages e) \<subseteq> set (seenMessages e')"
  using assms
proof (induction rs arbitrary: e e' outs)
  case (Cons x rs)
  obtain ev peers m frm where x: "x = (ev, peers, m, frm)" by (cases x)
  obtain r e1 out where rcv: "receiveMessage s ev me peers m frm e = (r, e1, out)"
    by (cases "receiveMessage s ev me peers m frm e")
  obtain outs1 where run: "receive_run s me rs e1 = (e', outs1)" "outs = out @ outs1"
    using Cons.prems rcv by (auto simp: x split: prod.splits)
  note IH = Cons.IH [OF run(1)]
  from receive_ids [OF rcv] show ?case using IH run(2) by auto
qed simp

text \<open>
  C1: every message is processed and forwarded at most once: over any sequence of received
  messages, with duplicates arriving through any neighbours and in any order, no message id
  is handed to the node twice, none is broadcast twice, and ids seen before the sequence are
  never handed on again.
\<close>

theorem processed_at_most_once:
  "distinct (delivered (snd (receive_run s me rs e))) \<and> distinct (relayed (snd (receive_run s me rs e)))
    \<and> set (delivered (snd (receive_run s me rs e))) \<inter> set (seenMessages e) = {}
    \<and> set (relayed (snd (receive_run s me rs e))) \<inter> set (seenMessages e) = {}"
  using receive_run_ids [OF prod.collapse [symmetric], of s me rs e] by blast

section \<open>Where messages are forwarded\<close>

lemma eligible_props:
  assumes "p \<in> set (eligible_peers ev peers m frm e)" "router_ok (topicRouter e)"
  shows "p \<in> set peers \<and> p \<noteq> sender m \<and> (truthy frm \<longrightarrow> p \<noteq> the frm) \<and>
    (msg_topic m \<noteq> [] \<and> msg_topic m \<noteq> ''global'' \<longrightarrow>
      (\<exists>u r. route_table (topicRouter e) (msg_topic m, u) = Some r \<and> nextHop r = p \<and> At (t_forward ev) \<le> expiresAt r))"
  using assms(1) unfolding eligible_peers_def Let_def
  by (auto simp: set_getPeers [OF assms(2)] split: if_splits)

lemma filter_not_filter: "set sel \<subseteq> set peers \<Longrightarrow> set (filter (\<lambda>p. p \<notin> set (filter (\<lambda>p. p \<notin> set sel) peers)) peers) = set sel"
  by auto

definition receivers :: "peer_id list \<Rightarrow> peer_id list \<Rightarrow> peer_id list" where
  "receivers peers excl = filter (\<lambda>p. p \<notin> set excl) peers"


definition demo_message :: message where
  "demo_message = \<lparr>msg_id = ''fb1'', msg_type = ''CHAT'', ttl = 10, lamportTimestamp = 7, sender = ''a'',
     senderPublicKey = None, msg_topic = ''global'', payload = ''hi'', createdAt = ''d'', powNonce = Some 0,
     routingPath = None, signature = None\<rparr>"

definition demo_env :: env where
  "demo_env = \<lparr>t_check = 0, t_refill = 0, t_route = 0, t_forward = 0, rnd = (\<lambda>_. 0)\<rparr>"

lemma demo_pow: "pow_ok (demo_message\<lparr>msg_type := t, payload := p, routingPath := q\<rparr>)" "pow_ok demo_message"
proof -
  have "jsSimpleHash (''fb1'' @ ''0'') = 64736000"
    by (simp add: jsSimpleHash_def)
  then have "verifyPuzzle ''fb1'' 500 0"
    by (simp add: verifyPuzzle_def show_nat_eval)
  then show "pow_ok (demo_message\<lparr>msg_type := t, payload := p, routingPath := q\<rparr>)" "pow_ok demo_message"
    by (simp_all add: pow_ok_def demo_message_def)
qed

lemma demo_admission:
  "pow_ok m \<Longrightarrow> admission_checks s demo_env m None (engine_init None None None) =
    (True, (let e = count_metric ''messages_received_total'' (engine_init None None None)
            in if lamportTimestamp m \<noteq> 0 then e\<lparr>lamportClock := clock_update (lamportClock e) (lamportTimestamp m)\<rparr> else e), [])"
  by (simp add: admission_checks_def truthy_def engine_init_def count_metric_def Let_def)

lemma demo_receive:
  "\<exists>e'. receiveMessage s demo_env ''me'' [''a'', ''b''] demo_message None (engine_init None None None)
    = (Done, e', [Broadcast (demo_message\<lparr>ttl := 9\<rparr>) [''a''], New_Message (demo_message\<lparr>ttl := 9\<rparr>)])"
  unfolding receiveMessage_def demo_admission [OF demo_pow(2)] Let_def
  by (simp add: demo_message_def engine_init_def count_metric_def receive_gossip_def forwardMessage_def
      eligible_peers_def truthy_def set_add_def select_random_def rand_index_def demo_env_def Let_def)


section \<open>Refused messages and the clock\<close>

text \<open>When a message passes the checks before the duplicate check.\<close>

definition admissible :: "sodium \<Rightarrow> env \<Rightarrow> message \<Rightarrow> peer_id option \<Rightarrow> engine \<Rightarrow> bool" where
  "admissible s ev m frm e \<longleftrightarrow> pow_ok m \<and>
    (truthy frm \<longrightarrow> fst (checkLimit (t_check ev) (t_refill ev) (the frm) (rateLimiter e))) \<and>
    (\<forall>sec \<in> set_option (securityManager e). fst (verifyIncomingMessage s m sec collector_init))"

lemma verify_metrics_irrelevant:
  "fst (verifyIncomingMessage s m sec col) = fst (verifyIncomingMessage s m sec col')"
  by (simp add: verify_result)

lemma admission_iff: "fst (admission_checks s ev m frm e) \<longleftrightarrow> admissible s ev m frm e"
  using verify_metrics_irrelevant [of s m _ "metrics (count_metric ''messages_received_total'' e)" collector_init]
  by (cases "securityManager e")
    (auto simp: admission_checks_def admissible_def Let_def case_prod_beta split: if_splits)

lemma receive_clock:
  assumes "receiveMessage s ev me peers m frm e = (r, e', out)"
  shows "lamportClock e' = (if admissible s ev m frm e \<and> lamportTimestamp m \<noteq> 0
    then clock_update (lamportClock e) (lamportTimestamp m) else lamportClock e)"
proof -
  obtain ok e0 lims where adm: "admission_checks s ev m frm e = (ok, e0, lims)"
    by (cases "admission_checks s ev m frm e")
  have ok: "ok \<longleftrightarrow> admissible s ev m frm e" using admission_iff [of s ev m frm e] adm by simp
  note clk = admission_checks_props(7) [OF adm]
  let ?e1 = "e0\<lparr>seenMessages := set_add (seenMessages e0) (msg_id m)\<rparr>"
  obtain r1 e2 o2 where sub: "receive_sub_ad ev me peers m frm ?e1 = (r1, e2, o2)"
    by (cases "receive_sub_ad ev me peers m frm ?e1")
  obtain e3 o3 where gos: "receive_gossip ev peers m frm ?e1 = (e3, o3)"
    by (cases "receive_gossip ev peers m frm ?e1")
  have "lamportClock e' = lamportClock e0"
    using assms adm sub gos receive_sub_ad_out(2) [OF sub] receive_gossip_out(3) [OF gos]
    by (auto simp: receiveMessage_def Let_def split: if_splits)
  then show ?thesis using clk ok by simp
qed

lemma delivered_admissible:
  assumes "receiveMessage s ev me peers m frm e = (r, e', out)" "delivered out \<noteq> []"
  shows "admissible s ev m frm e"
proof (rule ccontr)
  assume no: "\<not> admissible s ev m frm e"
  obtain ok e0 lims where adm: "admission_checks s ev m frm e = (ok, e0, lims)"
    by (cases "admission_checks s ev m frm e")
  then have "\<not> ok" using admission_iff [of s ev m frm e] no by simp
  then have "out = lims" using assms(1) adm by (simp add: receiveMessage_def)
  then show False using admission_checks_props(3) [OF adm] limiter_silent assms(2) by blast
qed

lemma receive_gossip_done:
  assumes "receiveMessage s ev me peers m frm e = (r, e', out)" "msg_type m \<noteq> ''SUB_AD''"
  shows "r = Done"
  using assms(1) by (cases rule: receive_cases) (use assms(2) in auto)

lemma receive_gossip_rate: "rateLimiter (fst (receive_gossip ev peers m frm e)) = rateLimiter e"
  by (simp add: receive_gossip_def forwardMessage_def Let_def case_prod_beta)

lemma receive_sub_ad_rate: "rateLimiter (fst (snd (receive_sub_ad ev me peers m frm e))) = rateLimiter e"
  by (auto simp: receive_sub_ad_def propagate_sub_ad_def Let_def case_prod_beta
      split: option.split json.split route_change.split)

text \<open>The limiter is asked at most once per message, and only by messages with a valid proof of work.\<close>

lemma receive_rate:
  assumes "receiveMessage s ev me peers m frm e = (r, e', out)"
  shows "rateLimiter e' = (if pow_ok m \<and> truthy frm
    then fst (snd (checkLimit (t_check ev) (t_refill ev) (the frm) (rateLimiter e))) else rateLimiter e)"
proof -
  obtain ok e0 lims where adm: "admission_checks s ev m frm e = (ok, e0, lims)"
    by (cases "admission_checks s ev m frm e")
  have "rateLimiter e0 = (if pow_ok m \<and> truthy frm
    then fst (snd (checkLimit (t_check ev) (t_refill ev) (the frm) (rateLimiter e))) else rateLimiter e)"
    using adm by (auto simp: admission_checks_def Let_def case_prod_beta split: if_splits option.splits)
  moreover have "rateLimiter e' = rateLimiter e0"
    using assms adm receive_gossip_rate receive_sub_ad_rate
    by (auto simp: receiveMessage_def Let_def case_prod_beta split: if_splits)
  ultimately show ?thesis by simp
qed

text \<open>
  C9: a message that fails its proof of work, exceeds its neighbour's rate limit or carries
  no valid signature leaves no trace beyond metrics, limiter and learned keys: it is not
  marked as seen, moves no clock, changes no route, and is neither forwarded nor delivered.
\<close>

theorem refused_leaves_no_trace:
  assumes "\<not> admissible s ev m frm e" "receiveMessage s ev me peers m frm e = (r, e', out)"
  shows "r = Done \<and> delivered out = [] \<and> relayed out = [] \<and> seenMessages e' = seenMessages e
    \<and> topicRouter e' = topicRouter e \<and> lamportClock e' = lamportClock e"
proof -
  obtain ok e0 lims where adm: "admission_checks s ev m frm e = (ok, e0, lims)"
    by (cases "admission_checks s ev m frm e")
  have no: "\<not> ok" using admission_iff [of s ev m frm e] adm assms(1) by simp
  then have "r = Done \<and> e' = e0 \<and> out = lims" using assms(2) adm by (simp add: receiveMessage_def)
  then show ?thesis using admission_checks_props [OF adm] no limiter_silent by simp
qed

theorem refused_leaves_no_trace_witness:
  "seenMessages (fst (snd (receiveMessage toy_sodium demo_env ''me'' [] demo_message None
      (engine_init None None (Some (security_init (toy_keys (CHR ''a'')) None)))))) = []"
proof -
  let ?e = "engine_init None None (Some (security_init (toy_keys (CHR ''a'')) None))"
  obtain r e' out where x: "receiveMessage toy_sodium demo_env ''me'' [] demo_message None ?e = (r, e', out)"
    by (cases "receiveMessage toy_sodium demo_env ''me'' [] demo_message None ?e")
  have "\<not> admissible toy_sodium demo_env demo_message None ?e"
    by (simp add: admissible_def engine_init_def verify_result demo_message_def truthy_def)
  from refused_leaves_no_trace [OF this x] have "seenMessages e' = seenMessages ?e" by blast
  then show ?thesis unfolding x by (simp add: engine_init_def)
qed

text \<open>
  The node's clock follows causality: it never runs backwards, and after any admitted
  message that carries a timestamp, duplicates included, it is past both that timestamp and
  its own former value.
\<close>

theorem receive_advances_clock:
  assumes "receiveMessage s ev me peers m frm e = (r, e', out)"
  shows "clk_value (lamportClock e) \<le> clk_value (lamportClock e') \<and>
    (admissible s ev m frm e \<and> lamportTimestamp m \<noteq> 0 \<longrightarrow>
      lamportTimestamp m < clk_value (lamportClock e') \<and> clk_value (lamportClock e) < clk_value (lamportClock e'))"
  using receive_clock [OF assms] by (auto simp: clock_update_def)

theorem receive_advances_clock_witness:
  "\<exists>e'. 0 \<le> clk_value (lamportClock e') \<and> e' = fst (snd (receiveMessage toy_sodium demo_env ''me'' [''a'', ''b''] demo_message None (engine_init None None None)))"
  using demo_receive [of toy_sodium]
  by (elim exE) (frule receive_advances_clock, simp add: engine_init_def clock_init_def)

section \<open>Subscription advertisements\<close>

text \<open>
  C4: advertisements do not loop: one that already passed through this node changes no route
  and is neither forwarded nor delivered; a forwarded one has this node appended to its path,
  which stays free of repetitions, has one hop less to live, and goes only to peers that are
  not on the extended path, did not send it and did not originate it.
\<close>

theorem sub_ad_loop_free:
  assumes "receiveMessage s ev me peers m frm e = (r, e', out)" "msg_type m = ''SUB_AD''"
  shows "(me \<in> set (path_of m) \<longrightarrow> topicRouter e' = topicRouter e \<and> delivered out = [] \<and> relayed out = [])
    \<and> (\<forall>m' excl. Broadcast m' excl \<in> set out \<longrightarrow>
        path_of m' = path_of m @ [me] \<and> (distinct (path_of m) \<longrightarrow> distinct (path_of m')) \<and>
        ttl m' = ttl m - 1 \<and> 0 < ttl m' \<and>
        (\<forall>p \<in> set (receivers peers excl). p \<notin> set (path_of m') \<and> p \<noteq> sender m \<and> (truthy frm \<longrightarrow> p \<noteq> the frm)))"
  using assms(1)
proof (cases rule: receive_cases)
  case dropped
  then show ?thesis using limiter_silent by (auto simp: list_all_iff is_limiter_def)
next
  case (accepted e1 lims out1)
  then have sub: "receive_sub_ad ev me peers m frm e1 = (r, e', out1)" using assms(2) by simp
  have loop: "me \<in> set (path_of m) \<Longrightarrow> topicRouter e' = topicRouter e1 \<and> out1 = []"
    using sub by (auto simp: receive_sub_ad_def split: option.splits json.splits)
  have only: "Broadcast m' excl \<in> set out \<Longrightarrow> Broadcast m' excl \<in> set out1" for m' excl
    using accepted by (auto simp: list_all_iff is_limiter_def)
  have path: "path_of (next_hop_message me m) = path_of m @ [me]" "ttl (next_hop_message me m) = ttl m - 1"
    by (simp_all add: path_of_def next_hop_message_def)
  have quiet: "me \<in> set (path_of m) \<Longrightarrow> topicRouter e' = topicRouter e \<and> delivered out = [] \<and> relayed out = []"
    using loop accepted(2,6) limiter_silent [OF accepted(1)] by simp
  have fwd: "m' = next_hop_message me m \<and> 1 < ttl m \<and> me \<notin> set (path_of m)
      \<and> excl = filter (\<lambda>p. \<not> off_path me m frm p) peers" if "Broadcast m' excl \<in> set out" for m' excl
    using receive_sub_ad_out(3) [OF sub] only [OF that] by auto
  have "path_of m' = path_of m @ [me] \<and> (distinct (path_of m) \<longrightarrow> distinct (path_of m')) \<and>
        ttl m' = ttl m - 1 \<and> 0 < ttl m' \<and>
        (\<forall>p \<in> set (receivers peers excl). p \<notin> set (path_of m') \<and> p \<noteq> sender m \<and> (truthy frm \<longrightarrow> p \<noteq> the frm))"
    if "Broadcast m' excl \<in> set out" for m' excl
    using fwd [OF that] by (simp add: path receivers_def off_path_def)
  with quiet show ?thesis by blast
qed

theorem sub_ad_loop_free_witness:
  "topicRouter (fst (snd (receiveMessage toy_sodium demo_env ''me'' [''b'']
    (demo_message\<lparr>msg_type := ''SUB_AD'', payload := ''x'', routingPath := Some [''me'']\<rparr>) None (engine_init None None None)))) = []"
proof -
  let ?m = "demo_message\<lparr>msg_type := ''SUB_AD'', payload := ''x'', routingPath := Some [''me'']\<rparr>"
  let ?e = "engine_init None None None"
  obtain r e' out where x: "receiveMessage toy_sodium demo_env ''me'' [''b''] ?m None ?e = (r, e', out)"
    by (cases "receiveMessage toy_sodium demo_env ''me'' [''b''] ?m None ?e")
  have "topicRouter e' = topicRouter ?e" using sub_ad_loop_free [OF x] by (simp add: path_of_def)
  then show ?thesis unfolding x by (simp add: engine_init_def)
qed

lemma sub_ad_outcome:
  "fst (receive_sub_ad ev me peers m frm e) = Threw x \<longleftrightarrow> x = Type_Error \<and> json_parse (payload m) = Some JNull"
proof (cases "json_parse (payload m)")
  case None
  then show ?thesis by (simp add: receive_sub_ad_def)
next
  case (Some j)
  let ?c = "sub_ad_change (t_route ev) (sender m) (if truthy frm then the frm else me) (path_of m)
                   (sub_ad_fields j) (topicRouter e)"
  have eq: "j \<noteq> JNull \<Longrightarrow> fst (receive_sub_ad ev me peers m frm e) =
      (if me \<in> set (path_of m) then Done else case ?c of Bad_Fields \<Rightarrow> Untyped | _ \<Rightarrow> Done)"
    by (cases j; cases ?c) (simp_all add: receive_sub_ad_def Some Let_def case_prod_beta)
  show ?thesis
  proof (cases "j = JNull")
    case True
    then show ?thesis by (simp add: receive_sub_ad_def Some eq_commute [of Type_Error])
  next
    case False
    then show ?thesis unfolding eq [OF False] by (cases ?c) (simp_all add: Some)
  qed
qed

lemma receive_outcome:
  "fst (receiveMessage s ev me peers m frm e) = Threw x \<longleftrightarrow>
    x = Type_Error \<and> admissible s ev m frm e \<and> msg_id m \<notin> set (seenMessages e)
    \<and> msg_type m = ''SUB_AD'' \<and> json_parse (payload m) = Some JNull"
proof -
  obtain ok e0 lims where adm: "admission_checks s ev m frm e = (ok, e0, lims)"
    by (cases "admission_checks s ev m frm e")
  have ok: "ok \<longleftrightarrow> admissible s ev m frm e" using admission_iff [of s ev m frm e] adm by simp
  have seen: "seenMessages e0 = seenMessages e" using admission_checks_props(1) [OF adm] .
  show ?thesis
    using sub_ad_outcome [of ev me peers m frm "e0\<lparr>seenMessages := set_add (seenMessages e0) (msg_id m)\<rparr>" x]
    by (auto simp: receiveMessage_def adm ok seen Let_def case_prod_beta)
qed

text \<open>
  The handler throws in exactly one case: an admissible, not yet seen SUB_AD whose
  payload is the JSON text null. Invalid JSON is caught, but destructuring null is not, so one
  signed message makes the receiving handler fail with a TypeError.
\<close>

theorem receive_throws_iff:
  "(\<exists>x. fst (receiveMessage s ev me peers m frm e) = Threw x) \<longleftrightarrow>
    admissible s ev m frm e \<and> msg_id m \<notin> set (seenMessages e)
    \<and> msg_type m = ''SUB_AD'' \<and> json_parse (payload m) = Some JNull"
  unfolding receive_outcome by blast

lemma null_payload_throws:
  "\<exists>m. fst (receiveMessage toy_sodium demo_env ''me'' [''b''] m None (engine_init None None None)) = Threw Type_Error"
proof -
  have "json_parse (stringify JNull) = Some JNull" by (rule json_roundtrip) simp
  moreover have "admissible toy_sodium demo_env
      (demo_message\<lparr>msg_type := ''SUB_AD'', payload := stringify JNull, routingPath := None\<rparr>) None (engine_init None None None)"
    unfolding admissible_def using demo_pow(1) by (simp add: truthy_def engine_init_def)
  ultimately show ?thesis
    unfolding receive_outcome
    by (intro exI [of _ "demo_message\<lparr>msg_type := ''SUB_AD'', payload := stringify JNull, routingPath := None\<rparr>"])
      (simp add: engine_init_def)
qed

section \<open>Well-typed advertisements\<close>

text \<open>The payloads on which the SUB_AD branch neither throws nor reads fields of other types.\<close>

definition sub_ad_typed :: "message \<Rightarrow> bool" where
  "sub_ad_typed m \<longleftrightarrow> msg_type m = ''SUB_AD'' \<longrightarrow>
    (case json_parse (payload m) of
       None \<Rightarrow> True
     | Some j \<Rightarrow> j \<noteq> JNull \<and> (case sub_ad_fields j of (tp, seq, action) \<Rightarrow>
         action = Some ''JOIN'' \<longrightarrow> tp \<noteq> None \<and> seq \<noteq> None))"

lemma sub_ad_payload_fields:
  "\<exists>fs. json_parse (sub_ad_payload tp seq action) = Some (JObj fs) \<and>
    sub_ad_fields (JObj fs) = (Some tp, Some seq, Some action)"
proof -
  let ?fs = "[(''topic'', JStr tp), (''sequenceNumber'', JNum seq), (''action'', JStr action)]"
  have "json_parse (stringify (JObj ?fs)) = Some (JObj ?fs)" by (rule json_roundtrip) simp
  then show ?thesis by (intro exI [of _ ?fs]) (simp add: sub_ad_payload_def sub_ad_fields_def str_field_def int_field_def)
qed

lemma created_sub_ad_typed: "sub_ad_typed (fst (createSubAd uid date p tp seq action path key f))"
  using sub_ad_payload_fields [of tp seq action]
  by (auto simp: sub_ad_typed_def createSubAd_def createBaseMessage_def Let_def case_prod_beta)

lemma typed_forwarded [simp]:
  "sub_ad_typed (m\<lparr>ttl := t\<rparr>) = sub_ad_typed m" "sub_ad_typed (next_hop_message me m) = sub_ad_typed m"
  by (simp_all add: sub_ad_typed_def next_hop_message_def)

lemma sub_ad_change_typed:
  assumes "case sub_ad_fields j of (tp, seq, action) \<Rightarrow> action = Some ''JOIN'' \<longrightarrow> tp \<noteq> None \<and> seq \<noteq> None"
  shows "sub_ad_change now origin nh path (sub_ad_fields j) rs \<noteq> Bad_Fields"
  using assms by (cases "sub_ad_fields j") (auto simp: sub_ad_change_def split: prod.splits option.splits)

lemma receive_sub_ad_typed:
  assumes "sub_ad_typed m" "msg_type m = ''SUB_AD''"
  shows "fst (receive_sub_ad ev me peers m frm e) = Done"
proof (cases "json_parse (payload m)")
  case None
  then show ?thesis by (simp add: receive_sub_ad_def)
next
  case (Some j)
  let ?c = "sub_ad_change (t_route ev) (sender m) (if truthy frm then the frm else me) (path_of m)
                   (sub_ad_fields j) (topicRouter e)"
  have ne: "j \<noteq> JNull" and c: "?c \<noteq> Bad_Fields"
    using assms Some sub_ad_change_typed by (auto simp: sub_ad_typed_def)
  then show ?thesis
    by (cases j; cases ?c) (simp_all add: receive_sub_ad_def Some Let_def case_prod_beta)
qed

lemma receive_typed:
  assumes "receiveMessage s ev me peers m frm e = (r, e', out)" "sub_ad_typed m"
  shows "r = Done \<and> (\<forall>m' excl. Broadcast m' excl \<in> set out \<longrightarrow> sub_ad_typed m')"
  using assms(1)
proof (cases rule: receive_cases)
  case dropped
  then show ?thesis by (auto simp: list_all_iff is_limiter_def)
next
  case (accepted e1 lims out1)
  then have only: "Broadcast m' excl \<in> set out \<Longrightarrow> Broadcast m' excl \<in> set out1" for m' excl
    by (auto simp: list_all_iff is_limiter_def)
  show ?thesis
  proof (cases "msg_type m = ''SUB_AD''")
    case True
    then have sub: "receive_sub_ad ev me peers m frm e1 = (r, e', out1)" using accepted by simp
    then have "r = Done" using receive_sub_ad_typed [OF assms(2) True] by (metis fst_conv)
    moreover have "sub_ad_typed m'" if "Broadcast m' excl \<in> set out1" for m' excl
      using receive_sub_ad_out(3) [OF sub] that assms(2) by auto
    ultimately show ?thesis using only by blast
  next
    case False
    then have g: "r = Done" "receive_gossip ev peers m frm e1 = (e', out1)" using accepted by simp_all
    have "sub_ad_typed m'" if "Broadcast m' excl \<in> set out1" for m' excl
      using receive_gossip_out(4) [OF g(2)] that assms(2) by auto
    then show ?thesis using g(1) only by blast
  qed
qed

end
