(* ===== verification/Network.thy ===== *)
theory Network
  imports GossipEngine
begin

text \<open>
  Engines of several nodes connected by a fixed topology: messages in flight are delivered one
  at a time, in any order, and a broadcast of the receiving engine puts a copy in flight for
  every connected peer it does not exclude. What a node publishes itself is not a step here.
\<close>

record flight =
  f_from :: peer_id
  f_to :: peer_id
  f_msg :: message

record net =
  nodes :: "peer_id \<Rightarrow> engine"
  in_flight :: "flight list"

definition copies :: "(peer_id \<Rightarrow> peer_id list) \<Rightarrow> peer_id \<Rightarrow> engine_out list \<Rightarrow> flight list" where
  "copies adj me out = concat (map (\<lambda>x. case x of
     Broadcast m excl \<Rightarrow> map (\<lambda>q. \<lparr>f_from = me, f_to = q, f_msg = m\<rparr>) (receivers (adj me) excl)
   | _ \<Rightarrow> []) out)"

definition deliver :: "sodium \<Rightarrow> (peer_id \<Rightarrow> peer_id list) \<Rightarrow> env \<Rightarrow> nat \<Rightarrow> net \<Rightarrow> outcome \<times> net" where
  "deliver s adj ev i net =
    (let f = in_flight net ! i; me = f_to f;
         (r, e, out) = receiveMessage s ev me (adj me) (f_msg f) (Some (f_from f)) (nodes net me)
     in (r, \<lparr>nodes = (nodes net)(me := e),
             in_flight = take i (in_flight net) @ drop (Suc i) (in_flight net) @ copies adj me out\<rparr>))"

inductive net_step :: "sodium \<Rightarrow> (peer_id \<Rightarrow> peer_id list) \<Rightarrow> net \<Rightarrow> outcome \<Rightarrow> net \<Rightarrow> bool" for s adj where
  delivery: "i < length (in_flight net) \<Longrightarrow> deliver s adj ev i net = (r, net') \<Longrightarrow> net_step s adj net r net'"

inductive_cases net_stepE: "net_step s adj net r net'"

inductive net_run :: "sodium \<Rightarrow> (peer_id \<Rightarrow> peer_id list) \<Rightarrow> net \<Rightarrow> nat \<Rightarrow> net \<Rightarrow> bool" for s adj where
  start: "net_run s adj net 0 net"
| step: "net_run s adj net k net' \<Longrightarrow> net_step s adj net' r net'' \<Longrightarrow> net_run s adj net (Suc k) net''"

section \<open>Flooding stops\<close>

definition topology :: "peer_id set \<Rightarrow> nat \<Rightarrow> (peer_id \<Rightarrow> peer_id list) \<Rightarrow> bool" where
  "topology N d adj \<longleftrightarrow> finite N \<and> (\<forall>p \<in> N. set (adj p) \<subseteq> N \<and> length (adj p) \<le> d)"

definition flights_in :: "peer_id set \<Rightarrow> string set \<Rightarrow> flight list \<Rightarrow> bool" where
  "flights_in N ids fs \<longleftrightarrow> (\<forall>f \<in> set fs. f_to f \<in> N \<and> msg_id (f_msg f) \<in> ids)"

definition unseen :: "peer_id set \<Rightarrow> string set \<Rightarrow> (peer_id \<Rightarrow> engine) \<Rightarrow> (peer_id \<times> string) set" where
  "unseen N ids es = {(p, i). p \<in> N \<and> i \<in> ids \<and> i \<notin> set (seenMessages (es p))}"

definition energy :: "peer_id set \<Rightarrow> string set \<Rightarrow> nat \<Rightarrow> net \<Rightarrow> nat" where
  "energy N ids d net = length (in_flight net) + d * card (unseen N ids (nodes net))"

lemma copies_simps [simp]:
  "copies adj me [] = []" "copies adj me (a @ b) = copies adj me a @ copies adj me b"
  "copies adj me (New_Message m # out) = copies adj me out" "copies adj me (Limiter x # out) = copies adj me out"
  by (simp_all add: copies_def)

lemma copies_relayed:
  "length (copies adj me out) \<le> length (adj me) * length (relayed out)"
  "f \<in> set (copies adj me out) \<Longrightarrow> f_to f \<in> set (adj me) \<and> msg_id (f_msg f) \<in> set (relayed out)"
proof (induction out)
  case (Cons x out)
  { case 1
    show ?case
    proof (cases x)
      case (Broadcast m excl)
      have "length (receivers (adj me) excl) \<le> length (adj me)" by (simp add: receivers_def)
      then show ?thesis using Cons.IH(1) Broadcast by (simp add: copies_def)
    qed (use Cons.IH(1) in \<open>simp_all add: relayed_def List.map_filter_simps copies_def\<close>)
  next
    case 2
    then show ?case using Cons.IH(2)
      by (cases x) (auto simp: copies_def receivers_def relayed_def List.map_filter_simps)
  }
qed simp_all

lemma receive_relayed:
  assumes "receiveMessage s ev me peers m frm e = (r, e', out)"
  shows "relayed out = [] \<or> (relayed out = [msg_id m] \<and> msg_id m \<notin> set (seenMessages e)
      \<and> seenMessages e' = seenMessages e @ [msg_id m])"
    "set (seenMessages e) \<subseteq> set (seenMessages e')"
proof -
  from receive_ids [OF assms] show "relayed out = [] \<or> (relayed out = [msg_id m] \<and> msg_id m \<notin> set (seenMessages e)
      \<and> seenMessages e' = seenMessages e @ [msg_id m])" by metis
  from receive_ids [OF assms] have "seenMessages e' = seenMessages e \<or> seenMessages e' = seenMessages e @ [msg_id m]"
    by metis
  then show "set (seenMessages e) \<subseteq> set (seenMessages e')" by (elim disjE) auto
qed

lemma remove_flight:
  "i < length fs \<Longrightarrow> length (take i fs @ drop (Suc i) fs) = length fs - 1"
  "set (take i fs @ drop (Suc i) fs) \<subseteq> set fs"
  using set_take_subset set_drop_subset by fastforce+

lemma step_energy:
  assumes "topology N d adj" "finite ids" "flights_in N ids (in_flight net)" "net_step s adj net r net'"
  shows "flights_in N ids (in_flight net') \<and> energy N ids d net' < energy N ids d net"
proof -
  obtain i ev where i: "i < length (in_flight net)" and del: "deliver s adj ev i net = (r, net')"
    using assms(4) by (auto elim: net_stepE)
  define f where "f = in_flight net ! i"
  define me where "me = f_to f"
  have f: "me \<in> N" "msg_id (f_msg f) \<in> ids" using assms(3) i by (auto simp: flights_in_def f_def me_def)
  obtain r1 e out where rcv: "receiveMessage s ev me (adj me) (f_msg f) (Some (f_from f)) (nodes net me) = (r1, e, out)"
    by (cases "receiveMessage s ev me (adj me) (f_msg f) (Some (f_from f)) (nodes net me)")
  have net': "net' = \<lparr>nodes = (nodes net)(me := e),
      in_flight = take i (in_flight net) @ drop (Suc i) (in_flight net) @ copies adj me out\<rparr>"
    using del unfolding deliver_def Let_def f_def [symmetric] me_def [symmetric] rcv by simp
  note ids = receive_relayed [OF rcv] and cp = copies_relayed [where adj = adj and me = me and out = out]
  have deg: "length (adj me) \<le> d" "set (adj me) \<subseteq> N" using assms(1) f by (auto simp: topology_def)
  have "set (relayed out) \<subseteq> {msg_id (f_msg f)}" using ids(1) by (elim disjE) simp_all
  then have "\<forall>g \<in> set (copies adj me out). f_to g \<in> N \<and> msg_id (f_msg g) \<in> ids"
    using copies_relayed(2) deg(2) f(2) by (metis singletonD subsetD)
  moreover have "\<forall>g \<in> set (take i (in_flight net) @ drop (Suc i) (in_flight net)). f_to g \<in> N \<and> msg_id (f_msg g) \<in> ids"
    using assms(3) remove_flight(2) [of i "in_flight net"] unfolding flights_in_def by blast
  ultimately have fl: "flights_in N ids (in_flight net')"
    unfolding flights_in_def net' by auto
  have fin: "finite (unseen N ids (nodes net))"
    by (rule finite_subset [of _ "N \<times> ids"]) (use assms(1,2) in \<open>auto simp: unseen_def topology_def\<close>)
  have sub: "unseen N ids (nodes net') \<subseteq> unseen N ids (nodes net)"
    using ids(2) by (auto simp: unseen_def net' split: if_splits)
  have len: "length (in_flight net') = length (in_flight net) - 1 + length (copies adj me out)"
    using remove_flight(1) [OF i] by (simp add: net')
  show ?thesis
  proof (cases "relayed out = []")
    case True
    then have "length (in_flight net') < length (in_flight net)" using len cp(1) i by simp
    moreover have "d * card (unseen N ids (nodes net')) \<le> d * card (unseen N ids (nodes net))"
      using card_mono [OF fin sub] by simp
    ultimately show ?thesis using fl unfolding energy_def by linarith
  next
    case False
    then have new: "msg_id (f_msg f) \<notin> set (seenMessages (nodes net me))" "seenMessages e = seenMessages (nodes net me) @ [msg_id (f_msg f)]"
      and one: "length (relayed out) = 1" using ids(1) by (elim disjE; simp)+
    have "unseen N ids (nodes net') \<subseteq> unseen N ids (nodes net) - {(me, msg_id (f_msg f))}"
      using sub new(2) by (auto simp: unseen_def net')
    moreover have "(me, msg_id (f_msg f)) \<in> unseen N ids (nodes net)" using f new(1) by (simp add: unseen_def)
    ultimately have "card (unseen N ids (nodes net')) < card (unseen N ids (nodes net))"
      using fin by (meson card_Diff1_less card_mono finite_Diff le_less_trans)
    then have "d * Suc (card (unseen N ids (nodes net'))) \<le> d * card (unseen N ids (nodes net))"
      by (intro mult_left_mono) auto
    moreover have "length (copies adj me out) \<le> d" using cp(1) one deg(1) by simp
    ultimately show ?thesis using fl len i unfolding energy_def mult_Suc_right by linarith
  qed
qed

lemma run_energy:
  assumes "net_run s adj net k net'" "topology N d adj" "finite ids" "flights_in N ids (in_flight net)"
  shows "flights_in N ids (in_flight net') \<and> k + energy N ids d net' \<le> energy N ids d net"
  using assms(1,4)
proof (induction rule: net_run.induct)
  case (step net k net' r net'')
  then show ?case using step_energy [OF assms(2,3), of net' s r net''] by auto
qed simp

lemma step_exists: "in_flight net \<noteq> [] \<Longrightarrow> \<exists>r net'. net_step s adj net r net'"
  using delivery [of 0 net s adj undefined] by (metis length_greater_0_conv surj_pair)

text \<open>
  C5: gossip dies out: in a network of n nodes with at most d connections each, once nothing
  new is published the messages in flight cause at most d deliveries per node and message id
  beyond themselves, whatever the topology, the random choices and the order of delivery; and
  while anything is in flight a delivery is possible, so every run can be completed to one
  that ends with a silent network.
\<close>

theorem gossip_dies_out:
  assumes "topology N d adj" "flights_in N ids (in_flight net)" "finite ids" "net_run s adj net k net'"
  shows "k \<le> length (in_flight net) + d * (card N * card ids)
    \<and> (\<exists>j net''. net_run s adj net (k + j) net'' \<and> in_flight net'' = [])"
proof -
  have N: "finite N" using assms(1) by (simp add: topology_def)
  have "card (unseen N ids (nodes net)) \<le> card (N \<times> ids)"
    by (rule card_mono) (use N assms(3) in \<open>auto simp: unseen_def\<close>)
  then have "d * card (unseen N ids (nodes net)) \<le> d * (card N * card ids)"
    by (simp add: card_cartesian_product)
  moreover note run_energy [OF assms(4,1,3,2)]
  ultimately have bound: "k \<le> length (in_flight net) + d * (card N * card ids)"
    unfolding energy_def by linarith
  have "\<exists>j net''. net_run s adj net (k + j) net'' \<and> in_flight net'' = []" if "net_run s adj net k net'" for k net'
    using that
  proof (induction "energy N ids d net'" arbitrary: k net' rule: less_induct)
    case less
    show ?case
    proof (cases "in_flight net' = []")
      case True
      then show ?thesis using less.prems by (intro exI [of _ 0]) auto
    next
      case False
      then obtain r net2 where st: "net_step s adj net' r net2" using step_exists by blast
      have "energy N ids d net2 < energy N ids d net'"
        using step_energy [OF assms(1,3) _ st] run_energy [OF less.prems assms(1,3,2)] by blast
      from less.hyps [OF this net_run.step [OF less.prems st]] show ?thesis by (metis add_Suc_shift)
    qed
  qed
  then show ?thesis using bound assms(4) by blast
qed

text \<open>Two connected nodes and one chat on its way.\<close>

definition demo_adj :: "peer_id \<Rightarrow> peer_id list" where
  "demo_adj p = (if p = ''a'' then [''b''] else [''a''])"

definition demo_net :: net where
  "demo_net = \<lparr>nodes = (\<lambda>_. engine_init None None None),
     in_flight = [\<lparr>f_from = ''a'', f_to = ''b'', f_msg = demo_message\<rparr>]\<rparr>"

lemma demo_topology: "topology {''a'', ''b''} 1 demo_adj" "flights_in {''a'', ''b''} {''fb1''} (in_flight demo_net)"
  by (auto simp: topology_def flights_in_def demo_adj_def demo_net_def demo_message_def)

theorem gossip_dies_out_witness:
  "\<exists>j net''. net_run toy_sodium demo_adj demo_net j net'' \<and> in_flight net'' = []"
  using gossip_dies_out [OF demo_topology _ net_run.start, of toy_sodium] by simp

section \<open>Typed traffic never fails\<close>

definition flights_typed :: "net \<Rightarrow> bool" where
  "flights_typed net \<longleftrightarrow> (\<forall>f \<in> set (in_flight net). sub_ad_typed (f_msg f))"

lemma copies_broadcast:
  "f \<in> set (copies adj me out) \<Longrightarrow> \<exists>excl. Broadcast (f_msg f) excl \<in> set out"
  by (auto simp: copies_def split: engine_out.splits)

lemma step_typed:
  assumes "flights_typed net" "net_step s adj net r net'"
  shows "r = Done \<and> flights_typed net'"
proof -
  obtain i ev where i: "i < length (in_flight net)" and del: "deliver s adj ev i net = (r, net')"
    using assms(2) by (auto elim: net_stepE)
  define f where "f = in_flight net ! i"
  define me where "me = f_to f"
  obtain r1 e out where rcv: "receiveMessage s ev me (adj me) (f_msg f) (Some (f_from f)) (nodes net me) = (r1, e, out)"
    by (cases "receiveMessage s ev me (adj me) (f_msg f) (Some (f_from f)) (nodes net me)")
  have net': "r = r1" "in_flight net' = take i (in_flight net) @ drop (Suc i) (in_flight net) @ copies adj me out"
    using del unfolding deliver_def Let_def f_def [symmetric] me_def [symmetric] rcv by auto
  have "sub_ad_typed (f_msg f)" using assms(1) i by (simp add: flights_typed_def f_def)
  note typed = receive_typed [OF rcv this]
  have "sub_ad_typed (f_msg g)" if "g \<in> set (in_flight net')" for g
  proof (cases "g \<in> set (copies adj me out)")
    case True
    then show ?thesis using copies_broadcast typed by blast
  next
    case False
    then have "g \<in> set (in_flight net)"
      using that remove_flight(2) [of i "in_flight net"] unfolding net' by auto
    then show ?thesis using assms(1) by (simp add: flights_typed_def)
  qed
  then show ?thesis using typed net'(1) by (simp add: flights_typed_def)
qed

lemma run_typed: "net_run s adj net k net' \<Longrightarrow> flights_typed net \<Longrightarrow> flights_typed net'"
  by (induction rule: net_run.induct) (use step_typed in blast)+

text \<open>
  C6: type soundness of subscription traffic: the advertisements the factory makes are
  well-typed; forwarding keeps messages well-typed; and in a network whose messages in flight
  are well-typed no handler, however far and in whatever order messages travel, throws or
  meets a field of another type. Only a hand-made payload can make a handler fail.
\<close>

theorem typed_traffic_never_fails:
  "sub_ad_typed (fst (createSubAd uid date p tp seq action path key f))
    \<and> (flights_typed net \<and> net_run s adj net k net' \<longrightarrow>
        flights_typed net' \<and> (\<forall>r net''. net_step s adj net' r net'' \<longrightarrow> r = Done))"
proof (intro conjI impI allI)
  show "sub_ad_typed (fst (createSubAd uid date p tp seq action path key f))" by (rule created_sub_ad_typed)
  assume net: "flights_typed net \<and> net_run s adj net k net'"
  then show typed: "flights_typed net'" using run_typed by blast
  show "r = Done" if "net_step s adj net' r net''" for r net'' using step_typed [OF typed that] by blast
qed

theorem typed_traffic_never_fails_witness:
  "flights_typed demo_net \<and> fst (deliver toy_sodium demo_adj demo_env 0 demo_net) = Done"
proof -
  have typed: "flights_typed demo_net" by (simp add: flights_typed_def demo_net_def sub_ad_typed_def demo_message_def)
  have "net_step toy_sodium demo_adj demo_net (fst (deliver toy_sodium demo_adj demo_env 0 demo_net))
      (snd (deliver toy_sodium demo_adj demo_env 0 demo_net))"
    by (rule delivery [where ev = demo_env and i = 0]) (simp_all add: demo_net_def)
  then show ?thesis
    using typed typed_traffic_never_fails [of _ _ _ _ _ _ _ _ _ demo_net toy_sodium demo_adj 0 demo_net]
      net_run.start [of toy_sodium demo_adj demo_net] by blast
qed

end
