(* ===== verification/WSServer.thy ===== *)
theory WSServer
  imports Message
begin

text \<open>
  The accepting side, \<^verbatim>\<open>transport/wsServer.js\<close>. The closure variables of a connection's
  handlers (\<^verbatim>\<open>isHandshaked\<close>, \<^verbatim>\<open>connectedPeerId\<close> and the relay) are the record
  \<open>conn\<close>, kept by socket; a socket is a number. Frames are the raw strings the
  \<^verbatim>\<open>ws\<close> library delivers. What the handlers emit and write is returned in order.
\<close>

record conn =
  isHandshaked :: bool
  connectedPeerId :: "peer_id option"

record server =
  srv_port :: nat
  srv_peerId :: peer_id
  srv_publicKey :: "string option"
  srv_listening :: bool
  activeConnections :: "(peer_id, nat) jmap"
  srv_conns :: "(nat, conn) jmap"

datatype srv_out =
    Srv_Write nat json
  | Srv_Close nat "nat option"
  | Srv_Peer_Connected peer_id "json option"
  | Srv_Inbound peer_id nat json
  | Srv_Relay peer_id nat json
  | Srv_Received json peer_id
  | Srv_Inbound_Closed peer_id nat
  | Srv_Peer_Disconnected peer_id

definition server_init :: "nat \<Rightarrow> peer_id \<Rightarrow> string option \<Rightarrow> server" where
  "server_init port me key = \<lparr>srv_port = port, srv_peerId = me, srv_publicKey = key, srv_listening = False,
     activeConnections = [], srv_conns = []\<rparr>"

definition server_start :: "server \<Rightarrow> server" where
  "server_start srv = srv\<lparr>srv_listening := True\<rparr>"

definition on_connection :: "nat \<Rightarrow> server \<Rightarrow> server" where
  "on_connection sock srv =
    srv\<lparr>srv_conns := map_set (srv_conns srv) sock \<lparr>isHandshaked = False, connectedPeerId = None\<rparr>\<rparr>"

definition json_field :: "string \<Rightarrow> json \<Rightarrow> json option" where
  "json_field k j = (case j of JObj fs \<Rightarrow> map_of fs k | _ \<Rightarrow> None)"

text \<open>\<^verbatim>\<open>parsedMsg.type === 'HELLO' && parsedMsg.peerId\<close>, for string ids.\<close>

definition hello_peer :: "json \<Rightarrow> peer_id option" where
  "hello_peer j =
    (if json_field ''type'' j = Some (JStr ''HELLO'') then
       (case json_field ''peerId'' j of Some (JStr p) \<Rightarrow> if p = [] then None else Some p | _ \<Rightarrow> None)
     else None)"

text \<open>\<^verbatim>\<open>parsedMsg.subscriptions || []\<close>\<close>

definition hello_subs :: "json \<Rightarrow> json" where
  "hello_subs j = (case json_field ''subscriptions'' j of
     None \<Rightarrow> JArr [] | Some v \<Rightarrow> if v \<in> {JNull, JBool False, JNum 0, JStr []} then JArr [] else v)"

definition hello_response :: "topic_name list \<Rightarrow> server \<Rightarrow> json" where
  "hello_response subs srv =
    JObj [(''type'', JStr ''HELLO''), (''peerId'', JStr (srv_peerId srv)), (''port'', JNum (int (srv_port srv))),
      (''publicKey'', case srv_publicKey srv of None \<Rightarrow> JNull | Some k \<Rightarrow> JStr k),
      (''subscriptions'', JArr (map JStr subs))]"

definition on_message :: "topic_name list \<Rightarrow> nat \<Rightarrow> string \<Rightarrow> server \<Rightarrow> js_error + server \<times> srv_out list" where
  "on_message subs sock data srv =
    (case map_get (srv_conns srv) sock of
       None \<Rightarrow> Inr (srv, [])
     | Some c \<Rightarrow>
         (case json_parse data of
            None \<Rightarrow> Inr (srv, [])
          | Some j \<Rightarrow>
              if \<not> isHandshaked c then
                if j = JNull then Inl Type_Error
                else (case hello_peer j of
                  Some p \<Rightarrow>
                    Inr (srv\<lparr>activeConnections := map_set (activeConnections srv) p sock,
                            srv_conns := map_set (srv_conns srv) sock \<lparr>isHandshaked = True, connectedPeerId = Some p\<rparr>\<rparr>,
                         [Srv_Write sock (hello_response subs srv), Srv_Peer_Connected p (json_field ''publicKey'' j),
                          Srv_Inbound p sock (hello_subs j)])
                | None \<Rightarrow> Inr (srv, [Srv_Close sock (Some 1008)]))
              else Inr (srv, (case connectedPeerId c of None \<Rightarrow> [] | Some p \<Rightarrow> [Srv_Relay p sock j, Srv_Received j p]))))"

definition on_conn_close :: "nat \<Rightarrow> server \<Rightarrow> server \<times> srv_out list" where
  "on_conn_close sock srv =
    (case map_get (srv_conns srv) sock of
       None \<Rightarrow> (srv, [])
     | Some c \<Rightarrow>
         (case connectedPeerId c of
            None \<Rightarrow> (srv\<lparr>srv_conns := map_delete (srv_conns srv) sock\<rparr>, [])
          | Some p \<Rightarrow>
              (srv\<lparr>activeConnections := map_delete (activeConnections srv) p, srv_conns := map_delete (srv_conns srv) sock\<rparr>,
               [Srv_Peer_Disconnected p, Srv_Inbound_Closed p sock])))"

text \<open>Closing a socket twice or after it has gone is ignored by the code.\<close>

definition server_stop :: "server \<Rightarrow> server \<times> srv_out list" where
  "server_stop srv =
    (if srv_listening srv then
       (srv\<lparr>activeConnections := [], srv_listening := False\<rparr>,
        map (\<lambda>(p, sock). Srv_Close sock None) (activeConnections srv))
     else (srv, []))"

section \<open>Interleaved connections\<close>

datatype srv_event = Accept nat | Data nat string "topic_name list" | Hangup nat

fun srv_step :: "srv_event \<Rightarrow> server \<Rightarrow> js_error + server \<times> srv_out list" where
  "srv_step (Accept sock) srv = Inr (on_connection sock srv, [])"
| "srv_step (Data sock data subs) srv = on_message subs sock data srv"
| "srv_step (Hangup sock) srv = Inr (on_conn_close sock srv)"

fun srv_run :: "srv_event list \<Rightarrow> server \<Rightarrow> js_error + server \<times> srv_out list" where
  "srv_run [] srv = Inr (srv, [])"
| "srv_run (e # es) srv =
    (case srv_step e srv of Inl x \<Rightarrow> Inl x | Inr (srv, out) \<Rightarrow>
       (case srv_run es srv of Inl x \<Rightarrow> Inl x | Inr (srv, outs) \<Rightarrow> Inr (srv, out @ outs)))"

text \<open>What a connection lets through, from its own data alone: nothing before its greeting.\<close>

fun through :: "peer_id option \<Rightarrow> string list \<Rightarrow> (peer_id \<times> json) list" where
  "through p [] = []"
| "through p (d # ds) =
    (case json_parse d of
       None \<Rightarrow> through p ds
     | Some j \<Rightarrow>
         (case p of
            Some q \<Rightarrow> (q, j) # through p ds
          | None \<Rightarrow> through (hello_peer j) ds))"

fun data_of :: "nat \<Rightarrow> srv_event list \<Rightarrow> string list" where
  "data_of s [] = []"
| "data_of s (Data s' d subs # es) = (if s' = s then d # data_of s es else data_of s es)"
| "data_of s (_ # es) = data_of s es"

definition relayed_from :: "nat \<Rightarrow> srv_out list \<Rightarrow> (peer_id \<times> json) list" where
  "relayed_from s outs = List.map_filter (\<lambda>x. case x of Srv_Relay p s' j \<Rightarrow> if s' = s then Some (p, j) else None | _ \<Rightarrow> None) outs"

definition conn_ok :: "server \<Rightarrow> bool" where
  "conn_ok srv \<longleftrightarrow> (\<forall>s c. map_get (srv_conns srv) s = Some c \<longrightarrow> isHandshaked c = (connectedPeerId c \<noteq> None))"

lemma relayed_from_simps [simp]:
  "relayed_from s [] = []" "relayed_from s (a @ b) = relayed_from s a @ relayed_from s b"
  by (simp_all add: relayed_from_def List.map_filter_def)

lemma srv_step_conn:
  assumes "conn_ok srv" "srv_step e srv = Inr (srv', out)" "map_get (srv_conns srv) s = Some c"
    "e \<noteq> Accept s" "e \<noteq> Hangup s"
  shows "conn_ok srv' \<and> (\<exists>c'. map_get (srv_conns srv') s = Some c' \<and>
    relayed_from s out @ through (connectedPeerId c') ds = through (connectedPeerId c) (data_of s [e] @ ds))"
proof (cases e)
  case (Accept s')
  then show ?thesis using assms by (auto simp: on_connection_def conn_ok_def map_get_set split: if_splits)
next
  case (Hangup s')
  then show ?thesis using assms
    by (auto simp: on_conn_close_def conn_ok_def map_get_delete relayed_from_def List.map_filter_def split: option.splits if_splits)
next
  case (Data s' d subs)
  then show ?thesis using assms
    by (auto simp: on_message_def conn_ok_def map_get_set relayed_from_def List.map_filter_def split: option.splits if_splits)
qed

lemma data_of_Cons: "data_of s (e # es) = data_of s [e] @ data_of s es"
  by (cases e) auto

lemma srv_run_conn:
  assumes "conn_ok srv" "srv_run es srv = Inr (srv', outs)" "map_get (srv_conns srv) s = Some c"
    "Accept s \<notin> set es" "Hangup s \<notin> set es"
  shows "relayed_from s outs = through (connectedPeerId c) (data_of s es)"
  using assms
proof (induction es arbitrary: srv c outs)
  case (Cons e es)
  obtain srv1 out where s: "srv_step e srv = Inr (srv1, out)" using Cons.prems(2) by (auto split: sum.splits)
  obtain outs1 where r: "srv_run es srv1 = Inr (srv', outs1)" "outs = out @ outs1"
    using Cons.prems(2) s by (auto split: sum.splits)
  obtain c' where c': "conn_ok srv1" "map_get (srv_conns srv1) s = Some c'"
    "relayed_from s out @ through (connectedPeerId c') (data_of s es) = through (connectedPeerId c) (data_of s [e] @ data_of s es)"
    using srv_step_conn [OF Cons.prems(1) s Cons.prems(3)] Cons.prems(4,5) by (metis list.set_intros(1))
  have "relayed_from s outs1 = through (connectedPeerId c') (data_of s es)"
    by (rule Cons.IH [OF c'(1) r(1) c'(2)]) (use Cons.prems(4,5) in auto)
  then show ?case using c'(3) r(2) by (simp add: data_of_Cons [of s e es])
qed simp

text \<open>
  C17: nobody speaks before greeting: whatever other connections do meanwhile, a freshly
  accepted connection hands to the node exactly the well-formed frames that follow its first
  valid HELLO, in order and each once, all under the id that this HELLO claimed; malformed
  frames are skipped and earlier frames never get through.
\<close>

theorem handshake_gates_traffic:
  assumes "conn_ok srv" "srv_run (Accept s # es) srv = Inr (srv', outs)" "Accept s \<notin> set es" "Hangup s \<notin> set es"
  shows "relayed_from s outs = through None (data_of s es)"
proof -
  let ?srv = "on_connection s srv"
  obtain outs1 where r: "srv_run es ?srv = Inr (srv', outs1)" "outs = outs1" using assms(2) by (auto split: sum.splits)
  have "conn_ok ?srv" using assms(1) by (auto simp: on_connection_def conn_ok_def map_get_set)
  moreover have "map_get (srv_conns ?srv) s = Some \<lparr>isHandshaked = False, connectedPeerId = None\<rparr>"
    by (simp add: on_connection_def map_get_set)
  ultimately show ?thesis using srv_run_conn [OF _ r(1) _ assms(3,4)] r(2) by fastforce
qed


definition greeting :: json where
  "greeting = JObj [(''type'', JStr ''HELLO''), (''peerId'', JStr ''p'')]"

theorem handshake_gates_traffic_witness:
  "\<exists>srv' outs. srv_run [Accept 1, Data 1 (stringify (JStr ''early'')) [], Data 1 (stringify greeting) [], Data 1 (stringify (JStr ''hi'')) []]
      (server_init 8080 ''me'' None) = Inr (srv', outs) \<and> relayed_from 1 outs = [(''p'', JStr ''hi'')]"
proof -
  have parse: "json_parse (stringify (JStr t)) = Some (JStr t)" "json_parse (stringify greeting) = Some greeting" for t
    by (rule json_roundtrip, simp add: greeting_def)+
  have hello: "hello_peer greeting = Some ''p''" "hello_peer (JStr t) = None" for t
    by (simp_all add: hello_peer_def json_field_def greeting_def)
  let ?es = "[Data 1 (stringify (JStr ''early'')) [], Data 1 (stringify greeting) [], Data 1 (stringify (JStr ''hi'')) []]"
  let ?srv = "server_init 8080 ''me'' None"
  have ok: "conn_ok ?srv" by (simp add: conn_ok_def server_init_def)
  have "\<exists>srv' outs. srv_run (Accept 1 # ?es) ?srv = Inr (srv', outs)"
    by (simp add: on_connection_def on_message_def parse hello map_get_set del: stringify.simps) (simp add: greeting_def)
  then obtain srv' outs where run: "srv_run (Accept 1 # ?es) ?srv = Inr (srv', outs)" by blast
  have "relayed_from 1 outs = through None (data_of 1 ?es)"
    by (rule handshake_gates_traffic [OF ok run]) simp_all
  also have "\<dots> = [(''p'', JStr ''hi'')]" by (simp add: parse hello del: stringify.simps)
  finally show ?thesis using run by blast
qed

end
