(* ===== verification/WSClient.thy ===== *)
theory WSClient
  imports Prelude Config
begin

text \<open>
  The outbound connection of \<^verbatim>\<open>transport/wsClient.js\<close>: a socket that is opened again
  with exponential backoff when it closes, and a queue that keeps the messages sent while it
  is not open. The \<^verbatim>\<open>ws\<close> library is the environment: it moves \<^verbatim>\<open>readyState\<close> and
  fires the open and close events. The effects of a handler are returned in order; reading a
  property of a null socket is the exception \<^const>\<open>Type_Error\<close>. The listeners the program
  registers on the client's events send nothing on it, so they run after the handler.
\<close>

datatype ready_state = CONNECTING | OPEN | CLOSING | CLOSED

datatype 'm frame = Hello peer_id nat "string option" "topic_name list" | Frame 'm

datatype 'm client_out =
    New_Socket
  | Wire "'m frame"
  | Emit_Connected
  | Emit_Disconnected
  | Emit_Failed
  | Set_Timer time
  | Clear_Timer
  | Close_Socket

record 'm ws_client =
  localPeerId :: peer_id
  localPublicKey :: "string option"
  remotePeerId :: peer_id
  ws :: "ready_state option"
  isConnected :: bool
  isClosedIntentionally :: bool
  reconnectAttempts :: nat
  reconnectDelay :: time
  reconnectTimer :: bool
  messageQueue :: "'m list"

definition ws_client_init :: "peer_id \<Rightarrow> peer_id \<Rightarrow> string option \<Rightarrow> 'm ws_client" where
  "ws_client_init local remote key =
    \<lparr>localPeerId = local, localPublicKey = key, remotePeerId = remote, ws = None, isConnected = False,
     isClosedIntentionally = False, reconnectAttempts = 0, reconnectDelay = INITIAL_RECONNECT_DELAY_MS,
     reconnectTimer = False, messageQueue = []\<rparr>"

definition client_connect :: "'m ws_client \<Rightarrow> 'm ws_client \<times> 'm client_out list" where
  "client_connect c =
    (if ws c = Some CONNECTING \<or> ws c = Some OPEN then (c, [])
     else (c\<lparr>isClosedIntentionally := False, ws := Some CONNECTING\<rparr>, [New_Socket]))"

text \<open>The loop of \<^verbatim>\<open>#flushQueue\<close>; its condition is read again after every send.\<close>

fun flush_loop :: "bool \<Rightarrow> 'm list \<Rightarrow> 'm list \<times> 'm client_out list" where
  "flush_loop up [] = ([], [])"
| "flush_loop up (m # q) =
    (if up then let (q', out) = flush_loop up q in (q', Wire (Frame m) # out) else (m # q, []))"

definition flushQueue :: "'m ws_client \<Rightarrow> 'm ws_client \<times> 'm client_out list" where
  "flushQueue c =
    (let (q, out) = flush_loop (isConnected c \<and> ws c = Some OPEN) (messageQueue c)
     in (c\<lparr>messageQueue := q\<rparr>, out))"

definition on_open :: "topic_name list \<Rightarrow> 'm ws_client \<Rightarrow> js_error + 'm ws_client \<times> 'm client_out list" where
  "on_open subs c =
    (case ws c of
       None \<Rightarrow> Inl Type_Error
     | Some _ \<Rightarrow>
         (let c = c\<lparr>isConnected := True, reconnectAttempts := 0, reconnectDelay := INITIAL_RECONNECT_DELAY_MS\<rparr>;
              hello = Hello (localPeerId c) PORT (localPublicKey c) subs;
              (c, out) = flushQueue c
          in Inr (c, Wire hello # Emit_Connected # out)))"

definition handleReconnect :: "'m ws_client \<Rightarrow> 'm ws_client \<times> 'm client_out list" where
  "handleReconnect c =
    (if isClosedIntentionally c then (c, [])
     else if reconnectAttempts c \<ge> MAX_RECONNECT_ATTEMPTS then (c, [Emit_Failed])
     else (c\<lparr>reconnectAttempts := reconnectAttempts c + 1, reconnectTimer := True,
             reconnectDelay := min (reconnectDelay c * 2) MAX_RECONNECT_DELAY_MS\<rparr>,
           [Set_Timer (reconnectDelay c)]))"

definition on_close :: "'m ws_client \<Rightarrow> 'm ws_client \<times> 'm client_out list" where
  "on_close c =
    (let (c, out) = handleReconnect (c\<lparr>isConnected := False\<rparr>) in (c, Emit_Disconnected # out))"

definition client_send :: "'m \<Rightarrow> 'm ws_client \<Rightarrow> js_error + 'm ws_client \<times> 'm client_out list" where
  "client_send m c =
    (if \<not> isConnected c then Inr (c\<lparr>messageQueue := messageQueue c @ [m]\<rparr>, [])
     else case ws c of
       None \<Rightarrow> Inl Type_Error
     | Some s \<Rightarrow>
         if s \<noteq> OPEN then Inr (c\<lparr>messageQueue := messageQueue c @ [m]\<rparr>, [])
         else Inr (c, [Wire (Frame m)]))"

definition client_disconnect :: "'m ws_client \<Rightarrow> 'm ws_client \<times> 'm client_out list" where
  "client_disconnect c =
    (c\<lparr>isClosedIntentionally := True, reconnectTimer := False, ws := None, messageQueue := []\<rparr>,
     (if reconnectTimer c then [Clear_Timer] else []) @ (if ws c \<noteq> None then [Close_Socket] else []))"

section \<open>The connection under its environment\<close>

text \<open>
  One event: a send, the socket opening, leaving the open state, closing, or the reconnect
  timer firing. The library fires an event only in the socket states given by the guards.
\<close>

inductive client_step :: "'m ws_client \<Rightarrow> 'm list \<Rightarrow> 'm client_out list \<Rightarrow> 'm ws_client \<Rightarrow> bool" where
  send: "client_send m c = Inr (c', out) \<Longrightarrow> client_step c [m] out c'"
| opened: "ws c = Some CONNECTING \<Longrightarrow> on_open subs (c\<lparr>ws := Some OPEN\<rparr>) = Inr (c', out) \<Longrightarrow> client_step c [] out c'"
| closing: "ws c = Some OPEN \<Longrightarrow> client_step c [] [] (c\<lparr>ws := Some CLOSING\<rparr>)"
| closed: "ws c \<noteq> None \<Longrightarrow> ws c \<noteq> Some CLOSED \<Longrightarrow> on_close (c\<lparr>ws := Some CLOSED\<rparr>) = (c', out) \<Longrightarrow> client_step c [] out c'"
| timer: "ws c = None \<or> ws c = Some CLOSED \<Longrightarrow> client_connect c = (c', out) \<Longrightarrow> client_step c [] out c'"

inductive client_run :: "'m ws_client \<Rightarrow> 'm list \<Rightarrow> 'm client_out list \<Rightarrow> 'm ws_client \<Rightarrow> bool" where
  start: "client_run c [] [] c"
| step: "client_run c sent out c' \<Longrightarrow> client_step c' ms out' c'' \<Longrightarrow> client_run c (sent @ ms) (out @ out') c''"

inductive_cases client_stepE: "client_step c ms out c'"

text \<open>Connected means there is a socket; while it is open nothing waits in the queue.\<close>

definition client_ok :: "'m ws_client \<Rightarrow> bool" where
  "client_ok c \<longleftrightarrow>
    (isConnected c \<longrightarrow> ws c = Some OPEN \<or> ws c = Some CLOSING) \<and>
    (isConnected c \<and> ws c = Some OPEN \<longrightarrow> messageQueue c = []) \<and>
    reconnectAttempts c \<le> MAX_RECONNECT_ATTEMPTS \<and>
    INITIAL_RECONNECT_DELAY_MS \<le> reconnectDelay c \<and> reconnectDelay c \<le> MAX_RECONNECT_DELAY_MS"

definition wired :: "'m client_out list \<Rightarrow> 'm list" where
  "wired out = List.map_filter (\<lambda>e. case e of Wire (Frame m) \<Rightarrow> Some m | _ \<Rightarrow> None) out"

lemma wired_simps [simp]:
  "wired [] = []" "wired (a @ b) = wired a @ wired b"
  "wired (Wire (Frame m) # out) = m # wired out" "wired (Wire (Hello i n k s) # out) = wired out"
  "wired (New_Socket # out) = wired out" "wired (Emit_Connected # out) = wired out"
  "wired (Emit_Disconnected # out) = wired out" "wired (Emit_Failed # out) = wired out"
  "wired (Set_Timer d # out) = wired out"
  by (simp_all add: wired_def List.map_filter_def)

lemma flush_loop_up: "flush_loop True q = ([], map (\<lambda>m. Wire (Frame m)) q)"
  by (induction q) auto

lemma flush_loop_down: "flush_loop False q = (q, [])"
  by (cases q) auto

lemma wired_frames [simp]: "wired (map (\<lambda>m. Wire (Frame m)) q) = q"
  by (induction q) auto

lemma ws_client_init_ok [simp]: "client_ok (ws_client_init l r k)"
  by (simp add: client_ok_def ws_client_init_def)

lemma client_send_total: "client_ok c \<Longrightarrow> client_send m c = Inr
    (if isConnected c \<and> ws c = Some OPEN then (c, [Wire (Frame m)]) else (c\<lparr>messageQueue := messageQueue c @ [m]\<rparr>, []))"
  by (auto simp: client_send_def client_ok_def)

lemma client_send_ok:
  "client_ok c \<Longrightarrow> client_send m c = Inr (c', out) \<Longrightarrow> client_ok c' \<and> wired out @ messageQueue c' = messageQueue c @ [m]"
  by (auto simp: client_send_total client_ok_def split: if_splits)

lemma on_open_ok:
  "client_ok c \<Longrightarrow> on_open subs (c\<lparr>ws := Some OPEN\<rparr>) = Inr (c', out) \<Longrightarrow>
    client_ok c' \<and> wired out @ messageQueue c' = messageQueue c"
  by (auto simp: on_open_def flushQueue_def flush_loop_up client_ok_def)

lemma on_close_ok:
  "client_ok c \<Longrightarrow> on_close (c\<lparr>ws := Some CLOSED\<rparr>) = (c', out) \<Longrightarrow>
    client_ok c' \<and> wired out @ messageQueue c' = messageQueue c"
  by (auto simp: on_close_def handleReconnect_def client_ok_def split: if_splits)

lemma client_connect_ok:
  "client_ok c \<Longrightarrow> ws c = None \<or> ws c = Some CLOSED \<Longrightarrow> client_connect c = (c', out) \<Longrightarrow>
    client_ok c' \<and> wired out @ messageQueue c' = messageQueue c"
  by (auto simp: client_connect_def client_ok_def split: if_splits)

lemma client_step_ok:
  assumes "client_step c ms out c'" "client_ok c"
  shows "client_ok c' \<and> wired out @ messageQueue c' = messageQueue c @ ms"
  using assms(1)
proof (elim client_stepE)
  assume "c' = c\<lparr>ws := Some CLOSING\<rparr>" "ms = []" "out = []"
  then show ?thesis using assms(2) by (auto simp: client_ok_def)
qed (use client_send_ok [OF assms(2)] on_open_ok [OF assms(2)] on_close_ok [OF assms(2)]
    client_connect_ok [OF assms(2)] in auto)

text \<open>
  C31: an outbound connection neither loses, duplicates nor reorders messages: over any run of
  sends, opens, closes and reconnects, what was written to the socket followed by what still
  waits in the queue is exactly what was sent, in order; and once it is connected over an
  open socket everything has been written.
\<close>

theorem client_delivers_in_order:
  assumes "client_run (ws_client_init l r k) sent out c"
  shows "wired out @ messageQueue c = sent \<and> (isConnected c \<and> ws c = Some OPEN \<longrightarrow> wired out = sent)"
proof -
  have "client_ok c \<and> wired out @ messageQueue c = sent"
    using assms
  proof (induction "ws_client_init l r k :: 'a ws_client" sent out c rule: client_run.induct)
    case start
    then show ?case by (simp add: ws_client_init_def client_ok_def)
  next
    case (step sent out c' ms out' c'')
    then show ?case using client_step_ok [of c' ms out' c''] by (metis append.assoc wired_simps(2))
  qed
  then show ?thesis by (auto simp: client_ok_def)
qed

lemma client_example_run:
  "\<exists>c. client_run (ws_client_init ''a'' ''b'' None) ([1 :: nat, 2] @ []) ([New_Socket] @ [Wire (Hello ''a'' 8080 None []),
     Emit_Connected, Wire (Frame 1), Wire (Frame 2)]) c"
proof -
  let ?c0 = "ws_client_init ''a'' ''b'' None :: nat ws_client"
  let ?c1 = "?c0\<lparr>messageQueue := [1]\<rparr>" and ?c2 = "?c0\<lparr>messageQueue := [1, 2], ws := Some CONNECTING\<rparr>"
  have s1: "client_step ?c0 [1] [] ?c1"
    by (rule client_step.send) (simp add: client_send_def ws_client_init_def)
  have s2: "client_step ?c1 [2] [] (?c0\<lparr>messageQueue := [1, 2]\<rparr>)"
    by (rule client_step.send) (simp add: client_send_def ws_client_init_def)
  have s3: "client_step (?c0\<lparr>messageQueue := [1, 2]\<rparr>) [] [New_Socket] ?c2"
    by (rule client_step.timer) (simp_all add: client_connect_def ws_client_init_def)
  have s4: "client_step ?c2 [] [Wire (Hello ''a'' 8080 None []), Emit_Connected, Wire (Frame 1), Wire (Frame 2)]
      (?c2\<lparr>ws := Some OPEN, isConnected := True, messageQueue := []\<rparr>)"
    by (rule client_step.opened [where subs = "[]"]) (simp_all add: on_open_def flushQueue_def ws_client_init_def Let_def)
  have "client_run ?c0 [] [] ?c0" by (rule client_run.start)
  from client_run.step [OF client_run.step [OF client_run.step [OF client_run.step [OF this s1] s2] s3] s4]
  show ?thesis by auto
qed

theorem client_delivers_in_order_witness:
  "\<exists>c. wired [New_Socket, Wire (Hello ''a'' 8080 None []), Emit_Connected, Wire (Frame (1 :: nat)), Wire (Frame 2)]
     @ messageQueue (c :: nat ws_client) = [1, 2]"
  using client_example_run by (elim exE) (drule client_delivers_in_order, auto)

section \<open>The offline queue is a FIFO buffer\<close>

definition queue_message :: "'m ws_client \<Rightarrow> 'm \<Rightarrow> 'm ws_client" where
  "queue_message c m = (case client_send m c of Inr (c', out) \<Rightarrow> c' | Inl e \<Rightarrow> c)"

interpretation wq: unbounded_fifo messageQueue queue_message "\<lambda>c. \<not> isConnected c" "\<lambda>n. 0"
  by unfold_locales (auto simp: queue_message_def client_send_def)

section \<open>Exponential backoff\<close>

text \<open>A connection whose attempts all fail: a close, then the reconnect timer, \<open>n\<close> times.\<close>

fun failing :: "nat \<Rightarrow> 'm ws_client \<Rightarrow> 'm ws_client \<times> 'm client_out list" where
  "failing 0 c = (c, [])"
| "failing (Suc n) c =
    (let (c, out1) = on_close (c\<lparr>ws := Some CLOSED\<rparr>);
         (c, out2) = (if Emit_Failed \<in> set out1 then (c, []) else client_connect c);
         (c, out3) = failing n c
     in (c, out1 @ out2 @ out3))"

definition timers :: "'m client_out list \<Rightarrow> time list" where
  "timers out = List.map_filter (\<lambda>e. case e of Set_Timer d \<Rightarrow> Some d | _ \<Rightarrow> None) out"

definition backoff :: "nat \<Rightarrow> time" where
  "backoff i = min (INITIAL_RECONNECT_DELAY_MS * 2 ^ i) MAX_RECONNECT_DELAY_MS"

lemma timers_simps [simp]:
  "timers [] = []" "timers (a @ b) = timers a @ timers b" "timers (Set_Timer d # out) = d # timers out"
  "timers (New_Socket # out) = timers out" "timers (Emit_Disconnected # out) = timers out"
  "timers (Emit_Failed # out) = timers out"
  by (simp_all add: timers_def List.map_filter_def)

lemma backoff_Suc: "min (backoff i * 2) MAX_RECONNECT_DELAY_MS = backoff (Suc i)"
  by (simp add: backoff_def min_def)

lemma failing_from:
  assumes "reconnectAttempts c = k" "k \<le> MAX_RECONNECT_ATTEMPTS" "reconnectDelay c = backoff k" "\<not> isClosedIntentionally c"
  shows "timers (snd (failing n c)) = map backoff [k..<min (k + n) MAX_RECONNECT_ATTEMPTS]
    \<and> (Emit_Failed \<in> set (snd (failing n c)) \<longleftrightarrow> MAX_RECONNECT_ATTEMPTS < k + n)"
  using assms
proof (induction n arbitrary: c k)
  case (Suc n)
  let ?c = "fst (on_close (c\<lparr>ws := Some CLOSED\<rparr>))"
  show ?case
  proof (cases "k = MAX_RECONNECT_ATTEMPTS")
    case True
    then show ?thesis using Suc.IH [of ?c k] Suc.prems
      by (auto simp: on_close_def handleReconnect_def case_prod_beta Let_def)
  next
    case False
    let ?c' = "fst (client_connect ?c)"
    have "reconnectAttempts ?c' = Suc k" "reconnectDelay ?c' = backoff (Suc k)" "\<not> isClosedIntentionally ?c'"
      using False Suc.prems backoff_Suc [of k]
      by (auto simp: on_close_def handleReconnect_def client_connect_def)
    moreover have "[k..<min (k + Suc n) MAX_RECONNECT_ATTEMPTS] = k # [Suc k..<min (Suc k + n) MAX_RECONNECT_ATTEMPTS]"
      using False Suc.prems by (subst upt_conv_Cons) simp_all
    ultimately show ?thesis
      using Suc.IH [of ?c' "Suc k"] False Suc.prems unfolding map_append
      by (auto simp: on_close_def handleReconnect_def client_connect_def case_prod_beta Let_def)
  qed
qed simp

text \<open>
  Bounded exponential backoff: a connection whose attempts keep failing waits
  1, 2, 4, 8 and 16 seconds (doubling, capped at 30 seconds) before its at most
  MAX_RECONNECT_ATTEMPTS reconnects, and reports the failure exactly when one more attempt
  than that has failed.
\<close>

theorem backoff_schedule:
  fixes c :: "'m ws_client"
  assumes "c = ws_client_init l r k"
  shows "timers (snd (failing n c)) = map backoff [0..<min n MAX_RECONNECT_ATTEMPTS]
    \<and> (Emit_Failed \<in> set (snd (failing n c)) \<longleftrightarrow> MAX_RECONNECT_ATTEMPTS < n)
    \<and> map backoff [0..<MAX_RECONNECT_ATTEMPTS] = [1000, 2000, 4000, 8000, 16000]"
proof -
  have "timers (snd (failing n c)) = map backoff [0..<min (0 + n) MAX_RECONNECT_ATTEMPTS]
    \<and> (Emit_Failed \<in> set (snd (failing n c)) \<longleftrightarrow> MAX_RECONNECT_ATTEMPTS < 0 + n)"
    by (rule failing_from) (simp_all add: assms ws_client_init_def backoff_def)
  moreover have "map backoff [0..<MAX_RECONNECT_ATTEMPTS] = [1000, 2000, 4000, 8000, 16000]"
    by (simp add: backoff_def upt_rec)
  ultimately show ?thesis by simp
qed

theorem backoff_schedule_witness:
  "timers (snd (failing 2 (ws_client_init ''a'' ''b'' None :: nat ws_client))) = [backoff 0, backoff 1]"
  using backoff_schedule [OF refl, of 2 "''a''" "''b''" None, where 'm = nat] by (simp add: upt_rec)

end
