(* ===== verification/NativeTransport.thy ===== *)
theory NativeTransport
  imports WSServer WSClient
begin

text \<open>
  The bridge over the native socket engine, \<^verbatim>\<open>transport/nativeTransport.js\<close>, and the choice
  between the two transports in \<^verbatim>\<open>transport/index.js\<close>. The addon delivers events and takes
  frames; whether it is loaded is the argument \<open>addon\<close>. The result of a native send is only
  logged. The objects handed out for inbound peers are named by their socket descriptor.
\<close>

section \<open>The server\<close>

record native_peer =
  np_handshaked :: bool
  np_remotePeerId :: "peer_id option"

record native_server =
  ns_port :: nat
  ns_peerId :: peer_id
  ns_publicKey :: "string option"
  ns_peers :: "(nat, native_peer) jmap"
  ns_native :: bool

record native_event =
  ev_fd :: nat
  ev_isConnect :: bool
  ev_isClose :: bool
  ev_payload :: "string option"

datatype native_out =
    N_Send nat json
  | N_Peer_Connected peer_id "json option"
  | N_Connection peer_id nat
  | N_Relay "peer_id option" nat json
  | N_Received json "peer_id option"
  | N_Closed "peer_id option" nat
  | N_Peer_Disconnected peer_id

definition native_init :: "nat \<Rightarrow> peer_id \<Rightarrow> string option \<Rightarrow> native_server" where
  "native_init port me key = \<lparr>ns_port = port, ns_peerId = me, ns_publicKey = key, ns_peers = [], ns_native = False\<rparr>"

definition native_start :: "bool \<Rightarrow> native_server \<Rightarrow> js_error + native_server" where
  "native_start addon ns = (if \<not> addon then Inl Addon_Error else Inr (ns\<lparr>ns_native := True\<rparr>))"

definition native_stop :: "native_server \<Rightarrow> native_server" where
  "native_stop ns = (if ns_native ns then ns\<lparr>ns_native := False, ns_peers := []\<rparr> else ns)"

text \<open>\<^verbatim>\<open>NativePeerEmitter.send\<close>: the engine of a stopped server is null.\<close>

definition native_peer_send :: "nat \<Rightarrow> json \<Rightarrow> native_server \<Rightarrow> js_error + native_out list" where
  "native_peer_send fd j ns = (if ns_native ns then Inr [N_Send fd j] else Inl Type_Error)"

definition native_hello :: "topic_name list \<Rightarrow> native_server \<Rightarrow> json" where
  "native_hello subs ns =
    JObj [(''type'', JStr ''HELLO''), (''peerId'', JStr (ns_peerId ns)), (''port'', JNum (int (ns_port ns))),
      (''publicKey'', case ns_publicKey ns of None \<Rightarrow> JNull | Some k \<Rightarrow> JStr k),
      (''subscriptions'', JArr (map JStr subs))]"

definition native_data :: "topic_name list \<Rightarrow> nat \<Rightarrow> string \<Rightarrow> native_server \<Rightarrow> js_error + native_server \<times> native_out list" where
  "native_data subs fd data ns =
    (case map_get (ns_peers ns) fd of
       None \<Rightarrow> Inr (ns, [])
     | Some peer \<Rightarrow>
         (case json_parse data of
            None \<Rightarrow> Inr (ns, [])
          | Some j \<Rightarrow>
              if \<not> np_handshaked peer then
                if j = JNull then Inl Type_Error
                else (case hello_peer j of
                  Some p \<Rightarrow>
                    (case native_peer_send fd (native_hello subs ns) ns of
                       Inl x \<Rightarrow> Inl x
                     | Inr sent \<Rightarrow>
                         Inr (ns\<lparr>ns_peers := map_set (ns_peers ns) fd \<lparr>np_handshaked = True, np_remotePeerId = Some p\<rparr>\<rparr>,
                              sent @ [N_Peer_Connected p (json_field ''publicKey'' j), N_Connection p fd]))
                | None \<Rightarrow> Inr (ns\<lparr>ns_peers := map_delete (ns_peers ns) fd\<rparr>, []))
              else Inr (ns, [N_Relay (np_remotePeerId peer) fd j, N_Received j (np_remotePeerId peer)])))"

definition onNativeEvent :: "topic_name list \<Rightarrow> native_event \<Rightarrow> native_server \<Rightarrow> js_error + native_server \<times> native_out list" where
  "onNativeEvent subs e ns =
    (if ev_isConnect e then
       Inr (ns\<lparr>ns_peers := map_set (ns_peers ns) (ev_fd e) \<lparr>np_handshaked = False, np_remotePeerId = None\<rparr>\<rparr>, [])
     else if ev_isClose e then
       (case map_get (ns_peers ns) (ev_fd e) of
          None \<Rightarrow> Inr (ns, [])
        | Some peer \<Rightarrow>
            Inr (ns\<lparr>ns_peers := map_delete (ns_peers ns) (ev_fd e)\<rparr>,
                 N_Closed (np_remotePeerId peer) (ev_fd e)
                 # (case np_remotePeerId peer of None \<Rightarrow> [] | Some p \<Rightarrow> [N_Peer_Disconnected p])))
     else
       (case ev_payload e of
          Some d \<Rightarrow> (if d \<noteq> [] then native_data subs (ev_fd e) d ns else Inr (ns, []))
        | None \<Rightarrow> Inr (ns, [])))"

section \<open>The client\<close>

record native_client =
  nc_port :: nat
  nc_peerId :: peer_id
  nc_publicKey :: "string option"
  nc_isConnected :: bool
  nc_native :: bool
  nc_queue :: "json list"

datatype native_client_event = NC_Connected | NC_Data string | NC_Close | NC_Error string

datatype native_client_out =
    NC_Wire json | NC_Emit_Connected | NC_Emit_Message json | NC_Emit_Disconnected | NC_Emit_Error string

definition native_client_init :: "nat \<Rightarrow> peer_id \<Rightarrow> string option \<Rightarrow> native_client" where
  "native_client_init port me key = \<lparr>nc_port = port, nc_peerId = me, nc_publicKey = key,
     nc_isConnected = False, nc_native = False, nc_queue = []\<rparr>"

definition native_connect :: "bool \<Rightarrow> native_client \<Rightarrow> js_error + native_client" where
  "native_connect addon c = (if \<not> addon then Inl Addon_Error else Inr (c\<lparr>nc_native := True\<rparr>))"

definition native_client_send :: "json \<Rightarrow> native_client \<Rightarrow> native_client \<times> native_client_out list" where
  "native_client_send m c =
    (if \<not> nc_isConnected c \<or> \<not> nc_native c then (c\<lparr>nc_queue := nc_queue c @ [m]\<rparr>, [])
     else (c, [NC_Wire m]))"

definition native_disconnect :: "native_client \<Rightarrow> native_client" where
  "native_disconnect c = c\<lparr>nc_native := False, nc_isConnected := False, nc_queue := []\<rparr>"

definition native_client_hello :: "topic_name list \<Rightarrow> native_client \<Rightarrow> json" where
  "native_client_hello subs c = JObj (
    [(''type'', JStr ''HELLO''), (''peerId'', JStr (nc_peerId c)), (''port'', JNum (int (nc_port c)))]
    @ (case nc_publicKey c of Some k \<Rightarrow> if k \<noteq> [] then [(''publicKey'', JStr k)] else [] | None \<Rightarrow> [])
    @ [(''subscriptions'', JArr (map JStr subs))])"

text \<open>Nothing changes the two flags between two frames of the loop, so it empties the queue or does nothing.\<close>

definition native_flushQueue :: "native_client \<Rightarrow> native_client \<times> native_client_out list" where
  "native_flushQueue c =
    (if nc_isConnected c \<and> nc_native c then (c\<lparr>nc_queue := []\<rparr>, map NC_Wire (nc_queue c)) else (c, []))"

fun onClientEvent :: "topic_name list \<Rightarrow> native_client_event \<Rightarrow> native_client \<Rightarrow> js_error + native_client \<times> native_client_out list" where
  "onClientEvent subs NC_Connected c =
    (if \<not> nc_native c then Inl Type_Error
     else case native_flushQueue (c\<lparr>nc_isConnected := True\<rparr>) of (c', out) \<Rightarrow>
       Inr (c', NC_Wire (native_client_hello subs c) # NC_Emit_Connected # out))"
| "onClientEvent subs (NC_Data d) c = Inr (c, case json_parse d of None \<Rightarrow> [] | Some j \<Rightarrow> [NC_Emit_Message j])"
| "onClientEvent subs NC_Close c = Inr (c\<lparr>nc_isConnected := False\<rparr>, [NC_Emit_Disconnected])"
| "onClientEvent subs (NC_Error msg) c = Inr (c, [NC_Emit_Error msg])"

section \<open>The choice of the transport\<close>

datatype transport_server = WS server | Native native_server

definition useNative :: "bool \<Rightarrow> bool \<Rightarrow> bool" where
  "useNative onLinux addon \<longleftrightarrow> onLinux \<and> addon"

definition createServer :: "bool \<Rightarrow> bool \<Rightarrow> nat \<Rightarrow> peer_id \<Rightarrow> string option \<Rightarrow> transport_server" where
  "createServer onLinux addon port me key =
    (if useNative onLinux addon then Native (native_init port me key) else WS (server_init port me key))"

datatype 'm transport_client = WS_Client "'m ws_client" | Native_Client native_client

definition createClient :: "bool \<Rightarrow> bool \<Rightarrow> nat \<Rightarrow> peer_id \<Rightarrow> peer_id \<Rightarrow> string option \<Rightarrow> 'm transport_client" where
  "createClient onLinux addon port me remote key =
    (if useNative onLinux addon then Native_Client (native_client_init port me key) else WS_Client (ws_client_init me remote key))"

definition activeTransport :: "bool \<Rightarrow> bool \<Rightarrow> string" where
  "activeTransport onLinux addon = (if useNative onLinux addon then ''native-epoll'' else ''websocket'')"

text \<open>What is left of loading the addon: it is available unless loading throws or the platform is unsupported.\<close>

definition isNativeAvailable :: "bool \<Rightarrow> bool \<Rightarrow> bool" where
  "isNativeAvailable loads platform_unsupported \<longleftrightarrow> loads \<and> \<not> platform_unsupported"

lemma chosen_server_starts:
  "createServer onLinux addon port me key = Native ns \<Longrightarrow> native_start addon ns = Inr (ns\<lparr>ns_native := True\<rparr>)"
  by (simp add: createServer_def useNative_def native_start_def split: if_splits)

section \<open>The two servers side by side\<close>

text \<open>The same traffic as the two libraries report it.\<close>

definition conn_event :: "nat \<Rightarrow> bool \<Rightarrow> bool \<Rightarrow> string option \<Rightarrow> native_event" where
  "conn_event s c x d = \<lparr>ev_fd = s, ev_isConnect = c, ev_isClose = x, ev_payload = d\<rparr>"

fun native_step :: "srv_event \<Rightarrow> native_server \<Rightarrow> js_error + native_server \<times> native_out list" where
  "native_step (Accept s) ns = onNativeEvent [] (conn_event s True False None) ns"
| "native_step (Data s d subs) ns = onNativeEvent subs (conn_event s False False (Some d)) ns"
| "native_step (Hangup s) ns = onNativeEvent [] (conn_event s False True None) ns"

fun native_run :: "srv_event list \<Rightarrow> native_server \<Rightarrow> js_error + native_server \<times> native_out list" where
  "native_run [] ns = Inr (ns, [])"
| "native_run (e # es) ns =
    (case native_step e ns of Inl x \<Rightarrow> Inl x | Inr (ns, out) \<Rightarrow>
       (case native_run es ns of Inl x \<Rightarrow> Inl x | Inr (ns, outs) \<Rightarrow> Inr (ns, out @ outs)))"

text \<open>
  Where an output of the one server shows in the other: the subscriptions of an inbound peer
  and the close of a refused socket have no counterpart, and the two closing events come in
  the other order.
\<close>

fun as_native :: "srv_out \<Rightarrow> native_out list" where
  "as_native (Srv_Write s j) = [N_Send s j]"
| "as_native (Srv_Close s code) = []"
| "as_native (Srv_Peer_Connected p key) = [N_Peer_Connected p key]"
| "as_native (Srv_Inbound p s subs) = [N_Connection p s]"
| "as_native (Srv_Relay p s j) = [N_Relay (Some p) s j]"
| "as_native (Srv_Received j p) = [N_Received j (Some p)]"
| "as_native (Srv_Peer_Disconnected p) = []"
| "as_native (Srv_Inbound_Closed p s) = [N_Closed (Some p) s, N_Peer_Disconnected p]"

text \<open>The close of a socket that never greeted is emitted on an object nobody holds.\<close>

definition held :: "native_out \<Rightarrow> bool" where
  "held x = (case x of N_Closed None s \<Rightarrow> False | _ \<Rightarrow> True)"

definition refuses :: "srv_out \<Rightarrow> bool" where
  "refuses x = (case x of Srv_Close s (Some code) \<Rightarrow> True | _ \<Rightarrow> False)"

definition peer_of :: "conn \<Rightarrow> native_peer" where
  "peer_of c = \<lparr>np_handshaked = isHandshaked c, np_remotePeerId = connectedPeerId c\<rparr>"

definition twins :: "server \<Rightarrow> native_server \<Rightarrow> bool" where
  "twins srv ns \<longleftrightarrow> conn_ok srv \<and> ns_native ns
    \<and> srv_port srv = ns_port ns \<and> srv_peerId srv = ns_peerId ns \<and> srv_publicKey srv = ns_publicKey ns
    \<and> (\<forall>s. map_get (ns_peers ns) s = map_option peer_of (map_get (srv_conns srv) s))"

lemma twins_get: "twins srv ns \<Longrightarrow> map_get (ns_peers ns) s = map_option peer_of (map_get (srv_conns srv) s)"
  by (simp add: twins_def)

lemma twins_hello: "twins srv ns \<Longrightarrow> native_hello subs ns = hello_response subs srv"
  by (simp add: twins_def native_hello_def hello_response_def)

lemma twins_set:
  "twins srv ns \<Longrightarrow> isHandshaked c = (connectedPeerId c \<noteq> None) \<Longrightarrow>
    twins (srv\<lparr>srv_conns := map_set (srv_conns srv) s c\<rparr>) (ns\<lparr>ns_peers := map_set (ns_peers ns) s (peer_of c)\<rparr>)"
  "twins srv ns \<Longrightarrow>
    twins (srv\<lparr>srv_conns := map_delete (srv_conns srv) s\<rparr>) (ns\<lparr>ns_peers := map_delete (ns_peers ns) s\<rparr>)"
  "twins (srv\<lparr>activeConnections := a, srv_conns := x\<rparr>) ns = twins (srv\<lparr>srv_conns := x\<rparr>) ns"
  by (auto simp: twins_def conn_ok_def map_get_set map_get_delete)

lemma twins_data:
  assumes "twins srv ns" "on_message subs s d srv = Inr (srv', out)" "\<not> list_ex refuses out"
  shows "\<exists>ns' nout. native_data subs s d ns = Inr (ns', nout) \<and> twins srv' ns' \<and> nout = concat (map as_native out) \<and> list_all held nout"
proof (cases "map_get (srv_conns srv) s")
  case None
  then show ?thesis using assms by (auto simp: native_data_def on_message_def twins_get)
next
  case (Some c)
  have get: "map_get (ns_peers ns) s = Some (peer_of c)" using assms(1) Some by (simp add: twins_get)
  have ok: "isHandshaked c = (connectedPeerId c \<noteq> None)" using assms(1) Some by (auto simp: twins_def conn_ok_def)
  have up: "ns_native ns" using assms(1) by (simp add: twins_def)
  show ?thesis
  proof (cases "json_parse d")
    case None
    then show ?thesis using assms get Some by (auto simp: native_data_def on_message_def)
  next
    case j: (Some j)
    show ?thesis
    proof (cases "connectedPeerId c")
      case None
      then have raw: "\<not> isHandshaked c" using ok by simp
      then obtain p where p: "j \<noteq> JNull" "hello_peer j = Some p"
        using assms(2,3) Some j by (auto simp: on_message_def refuses_def split: if_splits option.splits)
      let ?c = "\<lparr>isHandshaked = True, connectedPeerId = Some p\<rparr>"
      have "twins (srv\<lparr>srv_conns := map_set (srv_conns srv) s ?c\<rparr>) (ns\<lparr>ns_peers := map_set (ns_peers ns) s (peer_of ?c)\<rparr>)"
        using twins_set(1) [OF assms(1)] by simp
      then show ?thesis
        using assms(2) Some j p raw get up twins_hello [OF assms(1)] twins_set(3)
        by (auto simp: on_message_def native_data_def native_peer_send_def peer_of_def held_def)
    next
      case (Some p)
      then show ?thesis
        using assms ok get \<open>map_get (srv_conns srv) s = Some c\<close> j
        by (auto simp: on_message_def native_data_def peer_of_def held_def)
    qed
  qed
qed

lemma twins_step:
  assumes "twins srv ns" "srv_step e srv = Inr (srv', out)" "\<not> list_ex refuses out"
  shows "\<exists>ns' nout. native_step e ns = Inr (ns', nout) \<and> twins srv' ns' \<and> filter held nout = concat (map as_native out)"
proof (cases e)
  case (Accept s)
  then show ?thesis
    using assms twins_set(1) [OF assms(1), of "\<lparr>isHandshaked = False, connectedPeerId = None\<rparr>" s]
    by (auto simp: on_connection_def onNativeEvent_def conn_event_def peer_of_def)
next
  case (Hangup s)
  show ?thesis
  proof (cases "map_get (srv_conns srv) s")
    case None
    then show ?thesis using assms Hangup by (auto simp: on_conn_close_def onNativeEvent_def conn_event_def twins_get)
  next
    case (Some c)
    then show ?thesis
      using assms Hangup twins_set(2) [OF assms(1), of s] twins_set(3)
      by (auto simp: on_conn_close_def onNativeEvent_def conn_event_def twins_get peer_of_def held_def split: option.splits)
  qed
next
  case (Data s d subs)
  show ?thesis
  proof (cases "d = []")
    case True
    then have "json_parse d = None" by (simp add: json_parse_def parse_value.simps)
    then show ?thesis using assms Data True
      by (auto simp: on_message_def onNativeEvent_def conn_event_def split: option.splits)
  next
    case False
    then have "native_step e ns = native_data subs s d ns" using Data by (simp add: onNativeEvent_def conn_event_def)
    then show ?thesis using twins_data [OF assms(1) _ assms(3), of subs s d] assms(2) Data
      by (fastforce simp: list_all_iff filter_id_conv)
  qed
qed


lemma twins_init: "twins (server_init port me key) ((native_init port me key)\<lparr>ns_native := True\<rparr>)"
  by (simp add: twins_def conn_ok_def server_init_def native_init_def)


end
