(* ===== verification/ConnectionPool.thy ===== *)
theory ConnectionPool
  imports WSClient
begin

text \<open>
  The pool of \<^verbatim>\<open>transport/connectionPool.js\<close>: the outbound clients and the inbound
  sockets, each by peer. An inbound socket is an identity (a number); writing to it is an
  effect. The listeners the pool registers on a client's events are folded into the pool's
  handlers: \<^verbatim>\<open>connected\<close> and \<^verbatim>\<open>failed\<close> are turned into the pool's own events.
\<close>

datatype 'm pool_out =
    Client peer_id "'m client_out"
  | Inbound_Send peer_id nat 'm
  | Inbound_Close peer_id nat
  | Peer_Connected peer_id "topic_name list"
  | Peer_Disconnected peer_id
  | Peer_Failed peer_id

record 'm pool =
  pool_peerId :: peer_id
  pool_publicKey :: "string option"
  outboundConnections :: "(peer_id, 'm ws_client) jmap"
  inboundConnections :: "(peer_id, nat) jmap"

definition pool_init :: "peer_id \<Rightarrow> string option \<Rightarrow> 'm pool" where
  "pool_init peer key =
    \<lparr>pool_peerId = peer, pool_publicKey = key, outboundConnections = [], inboundConnections = []\<rparr>"

text \<open>The pool's listeners: \<^verbatim>\<open>connected\<close> is relayed, \<^verbatim>\<open>failed\<close> removes the client.\<close>

fun relay_out :: "peer_id \<Rightarrow> 'm client_out \<Rightarrow> 'm pool_out list" where
  "relay_out p Emit_Connected = [Peer_Connected p []]"
| "relay_out p Emit_Failed = [Peer_Failed p]"
| "relay_out p Emit_Disconnected = []"
| "relay_out p e = [Client p e]"

definition client_listeners ::
  "peer_id \<Rightarrow> 'm ws_client \<times> 'm client_out list \<Rightarrow> 'm pool \<Rightarrow> 'm pool \<times> 'm pool_out list" where
  "client_listeners p = (\<lambda>(c, out) pool.
     (if Emit_Failed \<in> set out
      then pool\<lparr>outboundConnections := map_delete (outboundConnections pool) p\<rparr>
      else pool\<lparr>outboundConnections := map_set (outboundConnections pool) p c\<rparr>,
      concat (map (relay_out p) out)))"

definition pool_connect :: "peer_id \<Rightarrow> 'm pool \<Rightarrow> 'm pool \<times> 'm pool_out list" where
  "pool_connect p pool =
    (if map_has (outboundConnections pool) p then (pool, [])
     else if length (outboundConnections pool) \<ge> MAX_PEERS then (pool, [])
     else client_listeners p (client_connect (ws_client_init (pool_peerId pool) p (pool_publicKey pool))) pool)"

definition addInboundConnection :: "peer_id \<Rightarrow> nat \<Rightarrow> topic_name list \<Rightarrow> 'm pool \<Rightarrow> 'm pool \<times> 'm pool_out list" where
  "addInboundConnection p sock subs pool =
    (pool\<lparr>inboundConnections := map_set (inboundConnections pool) p sock\<rparr>, [Peer_Connected p subs])"

definition inbound_closed :: "peer_id \<Rightarrow> 'm pool \<Rightarrow> 'm pool \<times> 'm pool_out list" where
  "inbound_closed p pool =
    (pool\<lparr>inboundConnections := map_delete (inboundConnections pool) p\<rparr>, [Peer_Disconnected p])"

definition pool_disconnect :: "peer_id \<Rightarrow> 'm pool \<Rightarrow> 'm pool \<times> 'm pool_out list" where
  "pool_disconnect p pool =
    (case map_get (outboundConnections pool) p of
       Some c \<Rightarrow>
         (pool\<lparr>outboundConnections := map_delete (outboundConnections pool) p\<rparr>,
          concat (map (relay_out p) (snd (client_disconnect c))) @ [Peer_Disconnected p])
     | None \<Rightarrow> (pool, []))"

definition pool_send :: "peer_id \<Rightarrow> 'm \<Rightarrow> 'm pool \<Rightarrow> js_error + 'm pool \<times> 'm pool_out list" where
  "pool_send p m pool =
    (case map_get (outboundConnections pool) p of
       Some c \<Rightarrow>
         (case client_send m c of
            Inl e \<Rightarrow> Inl e
          | Inr r \<Rightarrow> Inr (client_listeners p r pool))
     | None \<Rightarrow>
         (case map_get (inboundConnections pool) p of
            Some sock \<Rightarrow> Inr (pool, [Inbound_Send p sock m])
          | None \<Rightarrow> Inr (pool, [])))"

text \<open>The two loops of \<^verbatim>\<open>broadcast\<close>; an exception in the first ends the handler.\<close>

fun broadcast_outbound ::
  "peer_id list \<Rightarrow> 'm \<Rightarrow> (peer_id, 'm ws_client) jmap \<Rightarrow> js_error + (peer_id, 'm ws_client) jmap \<times> 'm pool_out list" where
  "broadcast_outbound excl m [] = Inr ([], [])"
| "broadcast_outbound excl m ((p, c) # cs) =
    (case (if p \<in> set excl then Inr (c, []) else client_send m c) of
       Inl e \<Rightarrow> Inl e
     | Inr (c', out) \<Rightarrow>
         (case broadcast_outbound excl m cs of
            Inl e \<Rightarrow> Inl e
          | Inr (cs', outs) \<Rightarrow> Inr ((p, c') # cs', map (Client p) out @ outs)))"

definition broadcast_inbound :: "peer_id list \<Rightarrow> 'm \<Rightarrow> (peer_id, nat) jmap \<Rightarrow> 'm pool_out list" where
  "broadcast_inbound excl m inb =
    map (\<lambda>(p, sock). Inbound_Send p sock m) (filter (\<lambda>(p, sock). p \<notin> set excl) inb)"

definition pool_broadcast :: "'m \<Rightarrow> peer_id list \<Rightarrow> 'm pool \<Rightarrow> js_error + 'm pool \<times> 'm pool_out list" where
  "pool_broadcast m excl pool =
    (case broadcast_outbound excl m (outboundConnections pool) of
       Inl e \<Rightarrow> Inl e
     | Inr (cs, outs) \<Rightarrow>
         Inr (pool\<lparr>outboundConnections := cs\<rparr>, outs @ broadcast_inbound excl m (inboundConnections pool)))"

datatype peer_state = PS_CONNECTED | PS_CONNECTING | PS_DISCONNECTED | PS_UNKNOWN

definition getPeerState :: "peer_id \<Rightarrow> 'm pool \<Rightarrow> peer_state" where
  "getPeerState p pool =
    (case map_get (outboundConnections pool) p of
       None \<Rightarrow> PS_UNKNOWN
     | Some c \<Rightarrow> if isConnected c then PS_CONNECTED
                else if ws c = Some CONNECTING then PS_CONNECTING else PS_DISCONNECTED)"

definition getAllPeerIds :: "'m pool \<Rightarrow> peer_id list" where
  "getAllPeerIds pool =
    set_of_array (map_keys (outboundConnections pool) @ map_keys (inboundConnections pool))"

definition pool_clear :: "'m pool \<Rightarrow> 'm pool \<times> 'm pool_out list" where
  "pool_clear pool =
    (pool\<lparr>outboundConnections := [], inboundConnections := []\<rparr>,
     concat (map (\<lambda>(p, c). concat (map (relay_out p) (snd (client_disconnect c)))) (outboundConnections pool))
     @ map (\<lambda>(p, sock). Inbound_Close p sock) (inboundConnections pool))"

text \<open>Socket events of an outbound client reach the pool through the client's handlers.\<close>

datatype socket_event = Sock_Open "topic_name list" | Sock_Closing | Sock_Closed | Reconnect_Timer

definition client_event :: "socket_event \<Rightarrow> 'm ws_client \<Rightarrow> js_error + 'm ws_client \<times> 'm client_out list" where
  "client_event e c =
    (case e of
       Sock_Open subs \<Rightarrow> if ws c = Some CONNECTING then on_open subs (c\<lparr>ws := Some OPEN\<rparr>) else Inr (c, [])
     | Sock_Closing \<Rightarrow> Inr (if ws c = Some OPEN then (c\<lparr>ws := Some CLOSING\<rparr>, []) else (c, []))
     | Sock_Closed \<Rightarrow> Inr (if ws c \<noteq> None \<and> ws c \<noteq> Some CLOSED then on_close (c\<lparr>ws := Some CLOSED\<rparr>) else (c, []))
     | Reconnect_Timer \<Rightarrow> Inr (if ws c = None \<or> ws c = Some CLOSED then client_connect c else (c, [])))"

definition pool_socket_event :: "peer_id \<Rightarrow> socket_event \<Rightarrow> 'm pool \<Rightarrow> js_error + 'm pool \<times> 'm pool_out list" where
  "pool_socket_event p e pool =
    (case map_get (outboundConnections pool) p of
       None \<Rightarrow> Inr (pool, [])
     | Some c \<Rightarrow> (case client_event e c of Inl x \<Rightarrow> Inl x | Inr r \<Rightarrow> Inr (client_listeners p r pool)))"

section \<open>Commands on the pool and their invariant\<close>

datatype 'm pool_cmd =
    Connect peer_id
  | Add_Inbound peer_id nat "topic_name list"
  | Inbound_Closed peer_id
  | Disconnect peer_id
  | Send peer_id 'm
  | Broadcast 'm "peer_id list"
  | Socket peer_id socket_event
  | Clear_All

fun pool_exec :: "'m pool_cmd \<Rightarrow> 'm pool \<Rightarrow> js_error + 'm pool \<times> 'm pool_out list" where
  "pool_exec (Connect p) pool = Inr (pool_connect p pool)"
| "pool_exec (Add_Inbound p s subs) pool = Inr (addInboundConnection p s subs pool)"
| "pool_exec (Inbound_Closed p) pool = Inr (inbound_closed p pool)"
| "pool_exec (Disconnect p) pool = Inr (pool_disconnect p pool)"
| "pool_exec (Send p m) pool = pool_send p m pool"
| "pool_exec (Broadcast m excl) pool = pool_broadcast m excl pool"
| "pool_exec (Socket p e) pool = pool_socket_event p e pool"
| "pool_exec Clear_All pool = Inr (pool_clear pool)"

fun pool_run :: "'m pool_cmd list \<Rightarrow> 'm pool \<Rightarrow> js_error + 'm pool \<times> 'm pool_out list" where
  "pool_run [] pool = Inr (pool, [])"
| "pool_run (c # cs) pool =
    (case pool_exec c pool of
       Inl e \<Rightarrow> Inl e
     | Inr (pool, out) \<Rightarrow>
         (case pool_run cs pool of Inl e \<Rightarrow> Inl e | Inr (pool, outs) \<Rightarrow> Inr (pool, out @ outs)))"

definition pool_ok :: "'m pool \<Rightarrow> bool" where
  "pool_ok pool \<longleftrightarrow>
    map_ok (outboundConnections pool) \<and> map_ok (inboundConnections pool) \<and>
    length (outboundConnections pool) \<le> MAX_PEERS \<and>
    (\<forall>(p, c) \<in> set (outboundConnections pool). client_ok c \<and> remotePeerId c = p)"

lemma pool_init_ok [simp]: "pool_ok (pool_init p k)"
  by (simp add: pool_ok_def pool_init_def)

lemma pool_okD: "pool_ok pool \<Longrightarrow> map_get (outboundConnections pool) p = Some c \<Longrightarrow> client_ok c \<and> remotePeerId c = p"
  unfolding pool_ok_def by (fastforce dest: map_get_in)

lemma pool_ok_delete: "pool_ok pool \<Longrightarrow> pool_ok (pool\<lparr>outboundConnections := map_delete (outboundConnections pool) p\<rparr>)"
  using set_map_delete [of p "outboundConnections pool"] length_map_delete [of p "outboundConnections pool"]
  unfolding pool_ok_def by fastforce

lemma pool_ok_set:
  assumes "pool_ok pool" "client_ok c" "remotePeerId c = p"
    and "map_has (outboundConnections pool) p \<or> length (outboundConnections pool) < MAX_PEERS"
  shows "pool_ok (pool\<lparr>outboundConnections := map_set (outboundConnections pool) p c\<rparr>)"
  using assms set_map_set [of p c "outboundConnections pool"]
  unfolding pool_ok_def by (auto simp: length_map_set)

lemma client_listeners_ok:
  assumes "pool_ok pool" "client_ok (fst r)" "remotePeerId (fst r) = p"
    and "map_has (outboundConnections pool) p \<or> length (outboundConnections pool) < MAX_PEERS"
  shows "pool_ok (fst (client_listeners p r pool))"
  using pool_ok_set [OF assms] pool_ok_delete [OF assms(1), of p]
  by (auto simp: client_listeners_def case_prod_beta)

lemma client_event_ok:
  assumes "client_ok c"
  obtains r where "client_event e c = Inr r" "client_ok (fst r)" "remotePeerId (fst r) = remotePeerId c"
proof (cases e)
  case (Sock_Open subs)
  show thesis
  proof (cases "ws c = Some CONNECTING")
    case True
    then show thesis using that on_open_ok [OF assms, of subs] Sock_Open
      by (auto simp: client_event_def on_open_def flushQueue_def case_prod_beta)
  qed (use that Sock_Open assms in \<open>simp add: client_event_def\<close>)
next
  case Sock_Closing
  show thesis
    by (rule that) (use assms Sock_Closing in \<open>auto simp: client_event_def client_ok_def split: if_splits\<close>)
next
  case Sock_Closed
  show thesis
    by (rule that) (use on_close_ok [OF assms] assms Sock_Closed in
      \<open>auto simp: client_event_def on_close_def handleReconnect_def case_prod_beta\<close>)
next
  case Reconnect_Timer
  show thesis
    by (rule that) (use client_connect_ok [OF assms] assms Reconnect_Timer in
      \<open>auto simp: client_event_def client_connect_def\<close>)
qed

text \<open>What a send leaves in the client and what it writes, on a well-formed client.\<close>

definition sent_client :: "'m \<Rightarrow> 'm ws_client \<Rightarrow> 'm ws_client" where
  "sent_client m c = (if isConnected c \<and> ws c = Some OPEN then c else c\<lparr>messageQueue := messageQueue c @ [m]\<rparr>)"

definition sent_out :: "peer_id \<Rightarrow> 'm \<Rightarrow> 'm ws_client \<Rightarrow> 'm pool_out list" where
  "sent_out p m c = (if isConnected c \<and> ws c = Some OPEN then [Client p (Wire (Frame m))] else [])"

lemma client_send_sent:
  "client_ok c \<Longrightarrow> client_send m c = Inr (sent_client m c, if isConnected c \<and> ws c = Some OPEN then [Wire (Frame m)] else [])"
  by (auto simp: client_send_total sent_client_def)

lemma sent_client_ok [simp]: "client_ok c \<Longrightarrow> client_ok (sent_client m c)" "remotePeerId (sent_client m c) = remotePeerId c"
  by (auto simp: sent_client_def client_ok_def)

lemma broadcast_outbound_eq:
  "\<forall>(p, c) \<in> set cs. client_ok c \<Longrightarrow> broadcast_outbound excl m cs =
    Inr (map (\<lambda>(p, c). (p, if p \<in> set excl then c else sent_client m c)) cs,
         concat (map (\<lambda>(p, c). if p \<in> set excl then [] else sent_out p m c) cs))"
  by (induction cs) (auto simp: client_send_sent sent_out_def)

lemma broadcast_ok:
  assumes "pool_ok pool"
  obtains pool' outs where "pool_broadcast m excl pool = Inr (pool', outs)" "pool_ok pool'"
proof (rule that)
  have ok: "\<forall>(p, c) \<in> set (outboundConnections pool). client_ok c"
    using assms by (auto simp: pool_ok_def)
  show "pool_broadcast m excl pool = Inr
     (pool\<lparr>outboundConnections := map (\<lambda>(p, c). (p, if p \<in> set excl then c else sent_client m c)) (outboundConnections pool)\<rparr>,
      concat (map (\<lambda>(p, c). if p \<in> set excl then [] else sent_out p m c) (outboundConnections pool))
      @ broadcast_inbound excl m (inboundConnections pool))"
    by (simp add: pool_broadcast_def broadcast_outbound_eq [OF ok])
  show "pool_ok (pool\<lparr>outboundConnections := map (\<lambda>(p, c). (p, if p \<in> set excl then c else sent_client m c)) (outboundConnections pool)\<rparr>)"
    using assms unfolding pool_ok_def by (auto simp: map_ok_def comp_def case_prod_beta)
qed

lemma pool_exec_ok:
  assumes "pool_ok pool"
  obtains pool' outs where "pool_exec cmd pool = Inr (pool', outs)" "pool_ok pool'"
proof (cases cmd)
  case (Connect p)
  have "pool_ok (fst (pool_connect p pool))"
    using assms by (auto simp: pool_connect_def client_connect_def ws_client_init_def client_ok_def
        intro!: client_listeners_ok)
  then show thesis using that Connect by (cases "pool_connect p pool") simp
next
  case (Broadcast m excl)
  obtain pool' outs where "pool_broadcast m excl pool = Inr (pool', outs)" "pool_ok pool'"
    by (rule broadcast_ok [OF assms])
  then show thesis using that Broadcast by simp
next
  case (Send p m)
  show thesis
  proof (cases "map_get (outboundConnections pool) p")
    case None
    then show thesis using that assms Send
      by (cases "map_get (inboundConnections pool) p") (simp_all add: pool_send_def)
  next
    case (Some c)
    note ok = pool_okD [OF assms Some]
    obtain r where r: "client_send m c = Inr r" "client_ok (fst r)" "remotePeerId (fst r) = remotePeerId c"
      using client_send_sent [of c m] ok by simp
    have "pool_ok (fst (client_listeners p r pool))"
      using ok Some r by (intro client_listeners_ok [OF assms]) auto
    then show thesis
      using Send Some r by (auto simp: pool_send_def intro!: that prod.collapse [symmetric])
  qed
next
  case (Disconnect p)
  then show thesis using that assms pool_ok_delete [OF assms, of p]
    by (cases "map_get (outboundConnections pool) p") (simp_all add: pool_disconnect_def)
next
  case (Socket p e)
  show thesis
  proof (cases "map_get (outboundConnections pool) p")
    case None
    then show thesis using that assms Socket by (simp add: pool_socket_event_def)
  next
    case (Some c)
    note ok = pool_okD [OF assms Some]
    obtain r where r: "client_event e c = Inr r" "client_ok (fst r)" "remotePeerId (fst r) = remotePeerId c"
      using client_event_ok ok by blast
    have "pool_ok (fst (client_listeners p r pool))"
      using ok Some r by (intro client_listeners_ok [OF assms]) auto
    then show thesis
      using Socket Some r by (auto simp: pool_socket_event_def intro!: that prod.collapse [symmetric])
  qed
qed (use that assms pool_ok_delete [OF assms] in
    \<open>auto simp: addInboundConnection_def inbound_closed_def pool_clear_def pool_ok_def\<close>)

text \<open>
  The pool never throws and stays bounded: from an empty pool, any sequence of
  connects, sends, broadcasts, disconnects, inbound connections and socket events completes
  without an exception, keeps at most MAX_PEERS outbound clients, one per peer, and leaves
  every client in a consistent state.
\<close>

theorem pool_never_throws:
  fixes cmds :: "'m pool_cmd list"
  shows "\<exists>pool outs. pool_run cmds (pool_init p k) = Inr (pool, outs) \<and> pool_ok pool
    \<and> length (outboundConnections pool) \<le> MAX_PEERS \<and> distinct (map_keys (outboundConnections pool))"
proof -
  have "\<exists>pool' outs. pool_run cmds pool = Inr (pool', outs) \<and> pool_ok pool'" if "pool_ok pool" for pool :: "'m pool"
    using that
  proof (induction cmds arbitrary: pool)
    case (Cons c cmds)
    obtain pool1 outs1 where "pool_exec c pool = Inr (pool1, outs1)" "pool_ok pool1"
      using pool_exec_ok [OF Cons.prems] .
    with Cons.IH [of pool1] show ?case by auto
  qed simp
  then show ?thesis using pool_init_ok by (metis (no_types) pool_ok_def map_ok_def)
qed

section \<open>Who a broadcast reaches\<close>

fun to_peer :: "peer_id \<Rightarrow> 'm pool_out \<Rightarrow> bool" where
  "to_peer p (Client q (Wire (Frame m))) = (q = p)"
| "to_peer p (Inbound_Send q sock m) = (q = p)"
| "to_peer p e = False"

definition on_wire :: "peer_id \<Rightarrow> 'm pool_out list \<Rightarrow> nat" where
  "on_wire p outs = length (filter (to_peer p) outs)"

definition queued :: "peer_id \<Rightarrow> 'm pool \<Rightarrow> nat" where
  "queued p pool = (case map_get (outboundConnections pool) p of None \<Rightarrow> 0 | Some c \<Rightarrow> length (messageQueue c))"

definition connections :: "peer_id \<Rightarrow> 'm pool \<Rightarrow> nat" where
  "connections p pool = (if map_has (outboundConnections pool) p then 1 else 0)
     + (if map_has (inboundConnections pool) p then 1 else 0)"

lemma on_wire_simps [simp]: "on_wire p [] = 0" "on_wire p (a @ b) = on_wire p a + on_wire p b"
  by (simp_all add: on_wire_def)

lemma on_wire_sent: "on_wire p (sent_out q m c) = (if q = p \<and> isConnected c \<and> ws c = Some OPEN then 1 else 0)"
  by (simp add: on_wire_def sent_out_def)

lemma on_wire_outbound:
  "map_ok cs \<Longrightarrow> on_wire p (concat (map (\<lambda>(q, c). if q \<in> set excl then [] else sent_out q m c) cs)) =
    (case map_get cs p of None \<Rightarrow> 0
     | Some c \<Rightarrow> if p \<notin> set excl \<and> isConnected c \<and> ws c = Some OPEN then 1 else 0)"
proof (induction cs)
  case (Cons x cs)
  obtain q c where x: "x = (q, c)" by (cases x)
  have "q = p \<Longrightarrow> map_get cs p = None" using Cons.prems by (simp add: x map_ok_def map_of_eq_None_iff)
  with Cons show ?case by (auto simp: x on_wire_sent map_ok_def split: option.splits)
qed simp

lemma broadcast_inbound_simps:
  "broadcast_inbound excl m [] = []"
  "broadcast_inbound excl m ((q, sock) # inb) =
    (if q \<in> set excl then [] else [Inbound_Send q sock m]) @ broadcast_inbound excl m inb"
  by (simp_all add: broadcast_inbound_def)

lemma on_wire_inbound:
  "map_ok inb \<Longrightarrow> on_wire p (broadcast_inbound excl m inb) = (if p \<notin> set excl \<and> map_has inb p then 1 else 0)"
proof (induction inb)
  case (Cons x inb)
  obtain q c where x: "x = (q, c)" by (cases x)
  have "q = p \<Longrightarrow> map_get inb p = None" using Cons.prems by (simp add: x map_ok_def map_of_eq_None_iff)
  moreover have "on_wire p' [Inbound_Send q c m] = (if q = p' then 1 else 0)" for p' by (simp add: on_wire_def)
  moreover have "map_ok inb" using Cons.prems by (simp add: x map_ok_def)
  ultimately show ?case using Cons.IH
    by (cases "q = p") (simp_all add: x broadcast_inbound_simps del: not_None_eq)
qed (simp add: broadcast_inbound_simps)

lemma map_get_map_val: "map_get (map (\<lambda>(p, c). (p, f p c)) cs) p = map_option (f p) (map_get cs p)"
  by (induction cs) auto

lemma set_getAllPeerIds:
  "p \<in> set (getAllPeerIds pool) \<longleftrightarrow> map_has (outboundConnections pool) p \<or> map_has (inboundConnections pool) p"
  by (auto simp: getAllPeerIds_def map_of_eq_None_iff)

lemma distinct_getAllPeerIds [simp]: "distinct (getAllPeerIds pool)"
  by (simp add: getAllPeerIds_def)

lemma broadcast_counts:
  assumes "pool_ok pool"
  shows "\<exists>pool' outs. pool_broadcast m excl pool = Inr (pool', outs)
    \<and> (\<forall>p. on_wire p outs + queued p pool' = queued p pool + (if p \<in> set excl then 0 else connections p pool))
    \<and> (\<forall>p. p \<in> set excl \<or> connections p pool = 0 \<longrightarrow> on_wire p outs = 0
        \<and> map_get (outboundConnections pool') p = map_get (outboundConnections pool) p)"
proof -
  let ?cs = "outboundConnections pool" and ?inb = "inboundConnections pool"
  define cs' where "cs' = map (\<lambda>(p, c). (p, if p \<in> set excl then c else sent_client m c)) ?cs"
  define outs where "outs = concat (map (\<lambda>(p, c). if p \<in> set excl then [] else sent_out p m c) ?cs)
    @ broadcast_inbound excl m ?inb"
  have ok: "\<forall>(p, c) \<in> set ?cs. client_ok c" and mok: "map_ok ?cs" "map_ok ?inb"
    using assms by (auto simp: pool_ok_def)
  have run: "pool_broadcast m excl pool = Inr (pool\<lparr>outboundConnections := cs'\<rparr>, outs)"
    by (simp add: pool_broadcast_def broadcast_outbound_eq [OF ok] cs'_def outs_def)
  have get: "map_get cs' p = map_option (\<lambda>c. if p \<in> set excl then c else sent_client m c) (map_get ?cs p)" for p
    unfolding cs'_def by (rule map_get_map_val)
  have wire: "on_wire p outs =
      (case map_get ?cs p of None \<Rightarrow> 0 | Some c \<Rightarrow> if p \<notin> set excl \<and> isConnected c \<and> ws c = Some OPEN then 1 else 0)
      + (if p \<notin> set excl \<and> map_has ?inb p then 1 else 0)" for p
    unfolding outs_def by (simp only: on_wire_simps on_wire_outbound [OF mok(1)] on_wire_inbound [OF mok(2)])
  have count: "on_wire p outs + queued p (pool\<lparr>outboundConnections := cs'\<rparr>)
      = queued p pool + (if p \<in> set excl then 0 else connections p pool)" for p
    by (cases "map_get ?cs p")
      (auto simp: wire get queued_def connections_def sent_client_def)
  have other: "p \<in> set excl \<or> connections p pool = 0 \<longrightarrow> on_wire p outs = 0 \<and> map_get cs' p = map_get ?cs p" for p
    by (cases "map_get ?cs p") (auto simp: wire get connections_def)
  show ?thesis
    using count other by (intro exI [of _ "pool\<lparr>outboundConnections := cs'\<rparr>"] exI [of _ outs] conjI allI)
      (simp_all add: run)
qed

lemma connections_none: "connections p pool = 0 \<longleftrightarrow> p \<notin> set (getAllPeerIds pool)"
  by (simp add: connections_def set_getAllPeerIds)

text \<open>
  A broadcast that excludes every peer of the pool but a selection reaches exactly the
  selection: each selected peer gets one copy per connection it has (written, or queued
  while its socket is not open), and nothing is written to or queued for any other peer.
\<close>

theorem broadcast_hits_selected:
  assumes "pool_ok pool"
  shows "\<exists>pool' outs. pool_broadcast m (filter (\<lambda>p. p \<notin> set sel) (getAllPeerIds pool)) pool = Inr (pool', outs)
    \<and> (\<forall>p. on_wire p outs + queued p pool' = queued p pool + (if p \<in> set sel then connections p pool else 0))
    \<and> (\<forall>p. p \<notin> set sel \<longrightarrow> on_wire p outs = 0
        \<and> map_get (outboundConnections pool') p = map_get (outboundConnections pool) p)"
proof -
  let ?excl = "filter (\<lambda>p. p \<notin> set sel) (getAllPeerIds pool)"
  obtain pool' outs where b: "pool_broadcast m ?excl pool = Inr (pool', outs)"
    "\<And>p. on_wire p outs + queued p pool' = queued p pool + (if p \<in> set ?excl then 0 else connections p pool)"
    "\<And>p. p \<in> set ?excl \<or> connections p pool = 0 \<Longrightarrow> on_wire p outs = 0
        \<and> map_get (outboundConnections pool') p = map_get (outboundConnections pool) p"
    using broadcast_counts [OF assms, of m ?excl] by blast
  have "p \<notin> set sel \<Longrightarrow> p \<in> set ?excl \<or> connections p pool = 0" for p
    using connections_none [of p pool] by auto
  moreover have "p \<in> set sel \<Longrightarrow> p \<notin> set ?excl" for p by simp
  ultimately show ?thesis using b by (intro exI [of _ pool'] exI [of _ outs]) fastforce
qed

theorem broadcast_hits_selected_witness:
  "\<exists>pool' outs. pool_broadcast (1 :: nat) (filter (\<lambda>p. p \<notin> set [''b'']) (getAllPeerIds
      (\<lparr>pool_peerId = ''a'', pool_publicKey = None, outboundConnections = [], inboundConnections = [(''b'', 7), (''c'', 8)]\<rparr> :: nat pool)))
      \<lparr>pool_peerId = ''a'', pool_publicKey = None, outboundConnections = [], inboundConnections = [(''b'', 7), (''c'', 8)]\<rparr>
      = Inr (pool', outs) \<and> on_wire ''c'' outs = 0"
proof -
  let ?pool = "\<lparr>pool_peerId = ''a'', pool_publicKey = None, outboundConnections = [],
      inboundConnections = [(''b'', 7), (''c'', 8)]\<rparr> :: nat pool"
  have "pool_ok ?pool" by (simp add: pool_ok_def map_ok_def)
  from broadcast_hits_selected [OF this, of 1 "[''b'']"]
  obtain pool' outs where "pool_broadcast 1 (filter (\<lambda>p. p \<notin> set [''b'']) (getAllPeerIds ?pool)) ?pool = Inr (pool', outs)"
    "\<forall>p. p \<notin> set [''b''] \<longrightarrow> on_wire p outs = 0 \<and> map_get (outboundConnections pool') p = map_get (outboundConnections ?pool) p"
    by blast
  then show ?thesis by (intro exI [of _ pool'] exI [of _ outs]) auto
qed

end
