(* ===== verification/Peers.thy ===== *)
theory Peers
  imports ConnectionPool Message Collector
begin

text \<open>
  The lifecycle of peers: the process-wide registry of \<^verbatim>\<open>node/state.js\<close>, the transitions of
  \<^verbatim>\<open>node/peerManager.js\<close> and the failure detector of \<^verbatim>\<open>node/heartbeatManager.js\<close>. A
  peer's record is shared by reference between the registry and its holders in the code; every
  change goes through \<open>setPeer\<close> here. Clock readings are arguments, emitted events and the
  effects of the pool are returned in order.
\<close>

datatype peer_status = P_CONNECTING | P_ACTIVE | P_SUSPECTED | P_DEAD

record peer_info =
  pi_host :: string
  pi_port :: nat
  lastSeen :: time
  pi_status :: peer_status
  lamportTime :: int

record node_state =
  st_peers :: "(peer_id, peer_info) jmap"
  st_seen :: "string list"
  st_clock :: lamport_clock
  st_topics :: "(topic_name, peer_id list) jmap"

definition MAX_SEEN_MESSAGES :: nat where "MAX_SEEN_MESSAGES = 10000"
definition CLEANUP_COUNT :: nat where "CLEANUP_COUNT = 1000"

definition state_init :: node_state where
  "state_init = \<lparr>st_peers = [], st_seen = [], st_clock = clock_init, st_topics = []\<rparr>"

definition setPeer :: "peer_id \<Rightarrow> peer_info \<Rightarrow> node_state \<Rightarrow> node_state" where
  "setPeer p info st = st\<lparr>st_peers := map_set (st_peers st) p info\<rparr>"

definition getPeer :: "peer_id \<Rightarrow> node_state \<Rightarrow> peer_info option" where
  "getPeer p st = map_get (st_peers st) p"

definition hasPeer :: "peer_id \<Rightarrow> node_state \<Rightarrow> bool" where
  "hasPeer p st \<longleftrightarrow> map_has (st_peers st) p"

definition deletePeer :: "peer_id \<Rightarrow> node_state \<Rightarrow> node_state" where
  "deletePeer p st = st\<lparr>st_peers := map_delete (st_peers st) p\<rparr>"

definition getPeerEntries :: "node_state \<Rightarrow> (peer_id \<times> peer_info) list" where
  "getPeerEntries st = st_peers st"

definition getPeerCount :: "node_state \<Rightarrow> nat" where
  "getPeerCount st = length (st_peers st)"

definition getActivePeerCount :: "node_state \<Rightarrow> nat" where
  "getActivePeerCount st = length (filter (\<lambda>(p, info). pi_status info = P_ACTIVE) (st_peers st))"

text \<open>The cleanup deletes the first ids in insertion order.\<close>

definition addSeenMessage :: "string \<Rightarrow> node_state \<Rightarrow> node_state" where
  "addSeenMessage i st =
    (let seen = set_add (st_seen st) i
     in st\<lparr>st_seen := (if length seen > MAX_SEEN_MESSAGES then drop CLEANUP_COUNT seen else seen)\<rparr>)"

definition hasSeenMessage :: "string \<Rightarrow> node_state \<Rightarrow> bool" where
  "hasSeenMessage i st \<longleftrightarrow> i \<in> set (st_seen st)"

definition addPeerToTopic :: "topic_name \<Rightarrow> peer_id \<Rightarrow> node_state \<Rightarrow> node_state" where
  "addPeerToTopic t p st =
    (let members = (case map_get (st_topics st) t of None \<Rightarrow> [] | Some s \<Rightarrow> s)
     in st\<lparr>st_topics := map_set (st_topics st) t (set_add members p)\<rparr>)"

section \<open>The peer manager\<close>

record 'm peers =
  pr_state :: node_state
  pr_pool :: "'m pool"
  pr_metrics :: collector

datatype 'm peer_out =
    Pool_Event "'m pool_out"
  | Peer_Removed peer_id
  | Peer_Recovered peer_id
  | Peer_Active peer_id
  | Peer_Suspected peer_id
  | Peer_Dead peer_id

definition addPeer :: "time \<Rightarrow> peer_id \<Rightarrow> string \<Rightarrow> nat \<Rightarrow> 'm peers \<Rightarrow> 'm peers \<times> 'm peer_out list" where
  "addPeer now p host port L =
    (if hasPeer p (pr_state L) then (L, [])
     else
       let info = \<lparr>pi_host = host, pi_port = port, lastSeen = now, pi_status = P_CONNECTING, lamportTime = 0\<rparr>;
           (pool, out) = pool_connect p (pr_pool L)
       in (L\<lparr>pr_state := setPeer p info (pr_state L), pr_pool := pool\<rparr>, map Pool_Event out))"

definition removePeer :: "peer_id \<Rightarrow> 'm peers \<Rightarrow> 'm peers \<times> 'm peer_out list" where
  "removePeer p L =
    (case getPeer p (pr_state L) of
       None \<Rightarrow> (L, [])
     | Some info \<Rightarrow>
         let st = setPeer p (info\<lparr>pi_status := P_DEAD\<rparr>) (pr_state L);
             (pool, out) = pool_disconnect p (pr_pool L);
             st = deletePeer p st
         in (L\<lparr>pr_state := st, pr_pool := pool,
                pr_metrics := set_gauge ''active_peers'' (int (getActivePeerCount st)) (pr_metrics L)\<rparr>,
             map Pool_Event out @ [Peer_Removed p]))"

definition updateHeartbeat :: "time \<Rightarrow> peer_id \<Rightarrow> int option \<Rightarrow> 'm peers \<Rightarrow> 'm peers \<times> 'm peer_out list" where
  "updateHeartbeat now p lt L =
    (case getPeer p (pr_state L) of
       None \<Rightarrow> (L, [])
     | Some info \<Rightarrow>
         let oldStatus = pi_status info;
             info = info\<lparr>lastSeen := now,
                      lamportTime := (case lt of None \<Rightarrow> lamportTime info | Some t \<Rightarrow> max (lamportTime info) t)\<rparr>
         in if oldStatus \<noteq> P_ACTIVE then
              let st = setPeer p (info\<lparr>pi_status := P_ACTIVE\<rparr>) (pr_state L)
              in (L\<lparr>pr_state := st, pr_metrics := set_gauge ''active_peers'' (int (getActivePeerCount st)) (pr_metrics L)\<rparr>,
                  if oldStatus = P_SUSPECTED then [Peer_Recovered p]
                  else if oldStatus = P_CONNECTING then [Peer_Active p] else [])
            else (L\<lparr>pr_state := setPeer p info (pr_state L)\<rparr>, []))"

section \<open>The heartbeat manager\<close>

text \<open>The timer handle, if the interval is running; a fresh handle is the environment's.\<close>

definition hb_start :: "nat \<Rightarrow> nat option \<Rightarrow> nat option" where
  "hb_start handle timer = (if timer \<noteq> None then timer else Some handle)"

definition hb_stop :: "nat option \<Rightarrow> nat option" where
  "hb_stop timer = None"

definition hb_send :: "'m \<Rightarrow> peer_id \<Rightarrow> 'm pool \<Rightarrow> js_error + 'm pool \<times> 'm pool_out list" where
  "hb_send m p pool =
    (case map_get (outboundConnections pool) p of
       Some c \<Rightarrow> if isConnected c then
           (case client_send m c of Inl e \<Rightarrow> Inl e | Inr r \<Rightarrow> Inr (client_listeners p r pool)) else Inr (pool, [])
     | None \<Rightarrow> Inr (pool, []))"

definition hb_check :: "time \<Rightarrow> peer_id \<Rightarrow> peer_info \<Rightarrow> 'm peers \<Rightarrow> 'm peers \<times> 'm peer_out list" where
  "hb_check now p info L =
    (let timeSinceLastSeen = now - lastSeen info in
     if pi_status info = P_ACTIVE \<and> timeSinceLastSeen > PEER_TIMEOUT_MS then
       (L\<lparr>pr_state := setPeer p (info\<lparr>pi_status := P_SUSPECTED\<rparr>) (pr_state L)\<rparr>, [Peer_Suspected p])
     else if pi_status info = P_SUSPECTED \<and> timeSinceLastSeen > 2 * PEER_TIMEOUT_MS then
       (case removePeer p L of (L, out) \<Rightarrow> (L, Peer_Dead p # out))
     else (L, []))"

fun hb_loop :: "time \<Rightarrow> 'm \<Rightarrow> (peer_id \<times> peer_info) list \<Rightarrow> 'm peers \<Rightarrow> js_error + 'm peers \<times> 'm peer_out list" where
  "hb_loop now m [] L = Inr (L, [])"
| "hb_loop now m ((p, info) # entries) L =
    (case (if pi_status info = P_ACTIVE then hb_send m p (pr_pool L) else Inr (pr_pool L, [])) of
       Inl e \<Rightarrow> Inl e
     | Inr (pool, sent) \<Rightarrow>
         (case hb_check now p info (L\<lparr>pr_pool := pool\<rparr>) of (L, out) \<Rightarrow>
            (case hb_loop now m entries L of
               Inl e \<Rightarrow> Inl e
             | Inr (L, outs) \<Rightarrow> Inr (L, map Pool_Event sent @ out @ outs))))"

text \<open>\<open>wrap\<close> puts a protocol message on the wire.\<close>

definition hb_tick ::
  "(message \<Rightarrow> 'm) \<Rightarrow> string \<Rightarrow> string \<Rightarrow> time \<Rightarrow> peer_id \<Rightarrow> 'm peers \<Rightarrow> factory
    \<Rightarrow> (js_error + 'm peers \<times> 'm peer_out list) \<times> factory" where
  "hb_tick wrap uid date now me L f =
    (case createHeartbeat uid date me f of (m, f) \<Rightarrow>
       (hb_loop now (wrap m) (getPeerEntries (pr_state L)) L, f))"

section \<open>The registry as a failure detector\<close>

text \<open>One check of a peer, without the pool: what a tick at \<open>now\<close> makes of its record.\<close>

definition detect :: "time \<Rightarrow> peer_info \<Rightarrow> peer_info option" where
  "detect now info =
    (if pi_status info = P_ACTIVE \<and> now - lastSeen info > PEER_TIMEOUT_MS then Some (info\<lparr>pi_status := P_SUSPECTED\<rparr>)
     else if pi_status info = P_SUSPECTED \<and> now - lastSeen info > 2 * PEER_TIMEOUT_MS then None
     else Some info)"

datatype 'm life_cmd =
    Add_Peer time peer_id string nat
  | Remove_Peer peer_id
  | Beat time peer_id "int option"
  | Tick time 'm
  | On_Pool "'m pool_cmd"

fun life_exec :: "'m life_cmd \<Rightarrow> 'm peers \<Rightarrow> js_error + 'm peers \<times> 'm peer_out list" where
  "life_exec (Add_Peer now p h port) L = Inr (addPeer now p h port L)"
| "life_exec (Remove_Peer p) L = Inr (removePeer p L)"
| "life_exec (Beat now p lt) L = Inr (updateHeartbeat now p lt L)"
| "life_exec (Tick now m) L = hb_loop now m (getPeerEntries (pr_state L)) L"
| "life_exec (On_Pool c) L = (case pool_exec c (pr_pool L) of
     Inl e \<Rightarrow> Inl e | Inr (pool, out) \<Rightarrow> Inr (L\<lparr>pr_pool := pool\<rparr>, map Pool_Event out))"

fun life_run :: "'m life_cmd list \<Rightarrow> 'm peers \<Rightarrow> js_error + 'm peers" where
  "life_run [] L = Inr L"
| "life_run (c # cs) L = (case life_exec c L of Inl e \<Rightarrow> Inl e | Inr (L, out) \<Rightarrow> life_run cs L)"

type_synonym registry = "peer_id \<Rightarrow> peer_info option"

text \<open>The specification: a registry is a partial map, and only these entries change.\<close>

definition beaten :: "time \<Rightarrow> int option \<Rightarrow> peer_info \<Rightarrow> peer_info" where
  "beaten now lt info = info\<lparr>lastSeen := now, pi_status := P_ACTIVE,
     lamportTime := (case lt of None \<Rightarrow> lamportTime info | Some t \<Rightarrow> max (lamportTime info) t)\<rparr>"

fun spec_life :: "'m life_cmd \<Rightarrow> registry \<Rightarrow> registry" where
  "spec_life (Add_Peer now p h port) f = (if f p = None
     then f(p \<mapsto> \<lparr>pi_host = h, pi_port = port, lastSeen = now, pi_status = P_CONNECTING, lamportTime = 0\<rparr>) else f)"
| "spec_life (Remove_Peer p) f = f(p := None)"
| "spec_life (Beat now p lt) f = f(p := map_option (beaten now lt) (f p))"
| "spec_life (Tick now m) f = (\<lambda>p. Option.bind (f p) (detect now))"
| "spec_life (On_Pool c) f = f"

definition registry_of :: "'m peers \<Rightarrow> registry" where
  "registry_of L = (\<lambda>p. getPeer p (pr_state L))"

definition peers_ok :: "'m peers \<Rightarrow> bool" where
  "peers_ok L \<longleftrightarrow> pool_ok (pr_pool L) \<and> map_ok (st_peers (pr_state L))"

lemma registry_simps [simp]:
  "getPeer q (setPeer p info st) = (if q = p then Some info else getPeer q st)"
  "getPeer q (deletePeer p st) = (if q = p then None else getPeer q st)"
  "registry_of (L\<lparr>pr_pool := pool\<rparr>) = registry_of L"
  "map_ok (st_peers st) \<Longrightarrow> map_ok (st_peers (setPeer p info st))"
  "map_ok (st_peers st) \<Longrightarrow> map_ok (st_peers (deletePeer p st))"
  by (simp_all add: getPeer_def setPeer_def deletePeer_def registry_of_def map_get_set map_get_delete)

lemma pool_cmds_ok:
  assumes "pool_ok pool"
  shows "pool_ok (fst (pool_connect p pool))" "pool_ok (fst (pool_disconnect p pool))"
  using pool_exec_ok [OF assms, of "Connect p"] pool_exec_ok [OF assms, of "Disconnect p"]
  by (auto simp: prod_eq_iff)

lemma hb_send_ok:
  assumes "pool_ok pool"
  obtains pool' out where "hb_send m p pool = Inr (pool', out)" "pool_ok pool'"
proof (cases "\<exists>c. map_get (outboundConnections pool) p = Some c \<and> isConnected c")
  case True
  then have "hb_send m p pool = pool_exec (pool_cmd.Send p m) pool" by (auto simp: hb_send_def pool_send_def split: sum.split)
  then show thesis using pool_exec_ok [OF assms, of "pool_cmd.Send p m"] that by metis
next
  case False
  then have "hb_send m p pool = Inr (pool, [])" by (auto simp: hb_send_def split: option.splits)
  then show thesis using that assms by blast
qed

lemma addPeer_ok:
  fixes L :: "'m peers"
  shows "peers_ok L \<Longrightarrow> peers_ok (fst (addPeer now p h port L))"
    "registry_of (fst (addPeer now p h port L)) = spec_life (Add_Peer now p h port :: 'm life_cmd) (registry_of L)"
  using pool_cmds_ok(1) [of "pr_pool L" p]
  by (auto simp: addPeer_def peers_ok_def registry_of_def hasPeer_def getPeer_def [symmetric] Let_def case_prod_beta fun_eq_iff)

lemma removePeer_ok:
  fixes L :: "'m peers"
  shows "peers_ok L \<Longrightarrow> peers_ok (fst (removePeer p L))"
    "registry_of (fst (removePeer p L)) = spec_life (Remove_Peer p :: 'm life_cmd) (registry_of L)"
  using pool_cmds_ok(2) [of "pr_pool L" p]
  by (auto simp: removePeer_def peers_ok_def registry_of_def Let_def case_prod_beta fun_eq_iff split: option.splits)

lemma updateHeartbeat_ok:
  fixes L :: "'m peers"
  shows "peers_ok L \<Longrightarrow> peers_ok (fst (updateHeartbeat now p lt L))"
    "registry_of (fst (updateHeartbeat now p lt L)) = spec_life (Beat now p lt :: 'm life_cmd) (registry_of L)"
  by (auto simp: updateHeartbeat_def peers_ok_def registry_of_def beaten_def Let_def fun_eq_iff split: option.splits)

lemma hb_check_ok:
  assumes "registry_of L p = Some info"
  shows "peers_ok L \<Longrightarrow> peers_ok (fst (hb_check now p info L))"
    "registry_of (fst (hb_check now p info L)) = (registry_of L)(p := detect now info)"
  using assms removePeer_ok [where p = p and L = L]
  by (auto simp: hb_check_def detect_def Let_def case_prod_beta peers_ok_def registry_of_def fun_eq_iff)

lemma hb_loop_ok:
  "peers_ok L \<Longrightarrow> distinct (map fst entries) \<Longrightarrow> \<forall>(p, info) \<in> set entries. registry_of L p = Some info \<Longrightarrow>
    \<exists>L' outs. hb_loop now m entries L = Inr (L', outs) \<and> peers_ok L'
      \<and> registry_of L' = (\<lambda>q. if q \<in> fst ` set entries then Option.bind (registry_of L q) (detect now) else registry_of L q)"
proof (induction entries arbitrary: L)
  case (Cons x entries)
  obtain p info where x: "x = (p, info)" by (cases x)
  have pool: "pool_ok (pr_pool L)" using Cons.prems(1) by (simp add: peers_ok_def)
  obtain pool' sent where s: "(if pi_status info = P_ACTIVE then hb_send m p (pr_pool L) else Inr (pr_pool L, [])) = Inr (pool', sent)"
    "pool_ok pool'"
  proof (cases "pi_status info = P_ACTIVE")
    case True
    obtain q out where "hb_send m p (pr_pool L) = Inr (q, out)" "pool_ok q"
      using hb_send_ok [OF pool, of m p thesis] by metis
    with True show thesis by (intro that [of q out]) simp_all
  qed (use that pool in simp)
  let ?L = "L\<lparr>pr_pool := pool'\<rparr>"
  obtain L1 out where c: "hb_check now p info ?L = (L1, out)" by (cases "hb_check now p info ?L")
  have L: "peers_ok ?L" "registry_of ?L p = Some info"
    using Cons.prems(1,3) s(2) x by (simp_all add: peers_ok_def)
  have L1: "peers_ok L1" "registry_of L1 = (registry_of L)(p := detect now info)"
    using hb_check_ok [OF L(2), of now] L(1) c by simp_all
  have fresh: "p \<notin> fst ` set entries" using Cons.prems(2) x by simp
  then have "\<forall>(q, info') \<in> set entries. registry_of L1 q = Some info'"
    using Cons.prems(3) by (force simp: L1 x)
  from Cons.IH [OF L1(1) _ this] Cons.prems(2)
  obtain L' outs where r: "hb_loop now m entries L1 = Inr (L', outs)" "peers_ok L'"
    "registry_of L' = (\<lambda>q. if q \<in> fst ` set entries then Option.bind (registry_of L1 q) (detect now) else registry_of L1 q)"
    by auto
  have "registry_of L p = Some info" using Cons.prems(3) x by simp
  then show ?case using r s(1) c fresh by (auto simp: x L1 fun_eq_iff)
qed simp

lemma life_exec_refines:
  assumes "peers_ok L"
  obtains L' out where "life_exec c L = Inr (L', out)" "peers_ok L'" "registry_of L' = spec_life c (registry_of L)"
proof (cases c)
  case (Tick now m)
  let ?es = "getPeerEntries (pr_state L)"
  have ok: "map_ok (st_peers (pr_state L))" using assms by (simp add: peers_ok_def)
  have "\<forall>(p, info) \<in> set ?es. registry_of L p = Some info"
    using map_ok_get_iff [OF ok] by (auto simp: registry_of_def getPeer_def getPeerEntries_def)
  with hb_loop_ok [OF assms, of ?es now m] ok obtain L' outs where r: "hb_loop now m ?es L = Inr (L', outs)" "peers_ok L'"
    "registry_of L' = (\<lambda>q. if q \<in> fst ` set ?es then Option.bind (registry_of L q) (detect now) else registry_of L q)"
    by (auto simp: map_ok_def getPeerEntries_def)
  have "q \<notin> fst ` set ?es \<Longrightarrow> registry_of L q = None" for q
    by (simp add: registry_of_def getPeer_def getPeerEntries_def map_of_eq_None_iff)
  then have "registry_of L' = spec_life c (registry_of L)" by (auto simp: r(3) Tick fun_eq_iff)
  then show thesis using that r Tick by simp
next
  case (On_Pool pc)
  obtain pool' outs where "pool_exec pc (pr_pool L) = Inr (pool', outs)" "pool_ok pool'"
    using pool_exec_ok [of "pr_pool L" pc] assms by (auto simp: peers_ok_def)
  then show thesis using that On_Pool assms by (simp add: peers_ok_def)
next
  case (Add_Peer now p h port)
  then show thesis using that [of "fst (addPeer now p h port L)" "snd (addPeer now p h port L)"] assms by (simp add: addPeer_ok)
next
  case (Remove_Peer p)
  then show thesis using that [of "fst (removePeer p L)" "snd (removePeer p L)"] assms by (simp add: removePeer_ok)
next
  case (Beat now p lt)
  then show thesis
    using that [of "fst (updateHeartbeat now p lt L)" "snd (updateHeartbeat now p lt L)"] assms by (simp add: updateHeartbeat_ok)
qed

lemma life_run_refines:
  "peers_ok L \<Longrightarrow> \<exists>L'. life_run cs L = Inr L' \<and> peers_ok L' \<and> registry_of L' = fold spec_life cs (registry_of L)"
proof (induction cs arbitrary: L)
  case (Cons c cs)
  obtain L1 out where "life_exec c L = Inr (L1, out)" "peers_ok L1" "registry_of L1 = spec_life c (registry_of L)"
    by (rule life_exec_refines [OF Cons.prems])
  with Cons.IH [of L1] show ?case by simp
qed simp


section \<open>Silent peers\<close>

fun about :: "peer_id \<Rightarrow> 'm life_cmd \<Rightarrow> bool" where
  "about p (Add_Peer now q h port) = (q = p)"
| "about p (Remove_Peer q) = (q = p)"
| "about p (Beat now q lt) = (q = p)"
| "about p _ = False"

fun tick_times :: "'m life_cmd list \<Rightarrow> time list" where
  "tick_times [] = []"
| "tick_times (Tick now m # cs) = now # tick_times cs"
| "tick_times (_ # cs) = tick_times cs"

text \<open>What the detector makes of a peer last heard at \<open>s\<close>, from the times of its ticks alone.\<close>

definition silent_fate :: "peer_info \<Rightarrow> time list \<Rightarrow> peer_info option" where
  "silent_fate info ts =
    (case dropWhile (\<lambda>t. t \<le> lastSeen info + PEER_TIMEOUT_MS) ts of
       [] \<Rightarrow> Some info
     | t # ts \<Rightarrow> if \<exists>u \<in> set ts. lastSeen info + 2 * PEER_TIMEOUT_MS < u then None
                 else Some (info\<lparr>pi_status := P_SUSPECTED\<rparr>))"

lemma spec_gone: "\<forall>c \<in> set cs. \<not> about p c \<Longrightarrow> f p = None \<Longrightarrow> fold spec_life cs f p = None"
proof (induction cs arbitrary: f)
  case (Cons c cs)
  have "spec_life c f p = None" using Cons.prems by (cases c) auto
  then show ?case using Cons by simp
qed simp

lemma spec_suspected:
  "\<forall>c \<in> set cs. \<not> about p c \<Longrightarrow> f p = Some info \<Longrightarrow> pi_status info = P_SUSPECTED \<Longrightarrow>
    fold spec_life cs f p = (if \<exists>u \<in> set (tick_times cs). lastSeen info + 2 * PEER_TIMEOUT_MS < u then None else Some info)"
proof (induction cs arbitrary: f)
  case (Cons c cs)
  show ?case
  proof (cases "\<exists>now m. c = Tick now m \<and> lastSeen info + 2 * PEER_TIMEOUT_MS < now")
    case True
    then have "spec_life c f p = None" using Cons.prems by (auto simp: detect_def)
    then show ?thesis using True spec_gone [of cs p] Cons.prems(1) by auto
  next
    case False
    then have "spec_life c f p = Some info" using Cons.prems by (cases c) (auto simp: detect_def)
    then have "fold spec_life cs (spec_life c f) p =
      (if \<exists>u \<in> set (tick_times cs). lastSeen info + 2 * PEER_TIMEOUT_MS < u then None else Some info)"
      using Cons by simp
    then show ?thesis using False by (cases c) auto
  qed
qed simp

lemma spec_active:
  "\<forall>c \<in> set cs. \<not> about p c \<Longrightarrow> f p = Some info \<Longrightarrow> pi_status info = P_ACTIVE \<Longrightarrow>
    fold spec_life cs f p = silent_fate info (tick_times cs)"
proof (induction cs arbitrary: f)
  case (Cons c cs)
  have rest: "\<forall>c \<in> set cs. \<not> about p c" using Cons.prems(1) by simp
  show ?case
  proof (cases "\<exists>now m. c = Tick now m \<and> lastSeen info + PEER_TIMEOUT_MS < now")
    case True
    then obtain now m where c: "c = Tick now m" "lastSeen info + PEER_TIMEOUT_MS < now" by blast
    have "spec_life c f p = Some (info\<lparr>pi_status := P_SUSPECTED\<rparr>)" using Cons.prems c by (simp add: detect_def)
    from spec_suspected [where f = "spec_life c f", OF rest this] show ?thesis using c by (simp add: silent_fate_def)
  next
    case False
    then have "spec_life c f p = Some info" using Cons.prems by (cases c) (auto simp: detect_def)
    from Cons.IH [where f = "spec_life c f", OF rest this Cons.prems(3)]
    have "fold spec_life (c # cs) f p = silent_fate info (tick_times cs)" by simp
    moreover have "silent_fate info (tick_times (c # cs)) = silent_fate info (tick_times cs)"
      using False by (cases c) (auto simp: silent_fate_def)
    ultimately show ?thesis by simp
  qed
qed (simp add: silent_fate_def)

text \<open>
  The failure detector is exact: an active peer that stays silent is kept as it is while
  every tick comes within the timeout of its last sign of life, is suspected by the first
  later tick, and is removed exactly when some tick after that one comes more than twice the
  timeout after the last sign of life; no other activity, of any peer, changes its fate.
\<close>

theorem failure_detector_exact:
  assumes "peers_ok L" "\<forall>c \<in> set cs. \<not> about p c"
    and "registry_of L p = Some info" "pi_status info = P_ACTIVE"
  shows "\<exists>L'. life_run cs L = Inr L' \<and> registry_of L' p = silent_fate info (tick_times cs)"
  using life_run_refines [OF assms(1), of cs] spec_active [where f = "registry_of L", OF assms(2-4)] by auto

text \<open>
  A peer that never completes its handshake is never given up: without a heartbeat of its
  own, no sequence of ticks suspects or removes a connecting peer.
\<close>

theorem connecting_never_expires:
  assumes "peers_ok L" "\<forall>c \<in> set cs. \<not> about p c"
    and "registry_of L p = Some info" "pi_status info = P_CONNECTING"
  shows "\<exists>L'. life_run cs L = Inr L' \<and> registry_of L' p = Some info"
proof -
  have "fold spec_life cs f p = Some info" if "f p = Some info" for f :: registry
    using that assms(2)
  proof (induction cs arbitrary: f)
    case (Cons c cs)
    then have "spec_life c f p = Some info" using assms(4) by (cases c) (auto simp: detect_def)
    then show ?case using Cons by simp
  qed simp
  then show ?thesis using life_run_refines [OF assms(1), of cs] assms(3) by auto
qed

section \<open>The cache of seen messages\<close>

lemma add_seen:
  assumes "distinct (st_seen st)" "length (st_seen st) \<le> MAX_SEEN_MESSAGES"
  shows "distinct (st_seen (addSeenMessage i st))" "length (st_seen (addSeenMessage i st)) \<le> MAX_SEEN_MESSAGES"
  using assms by (auto simp: addSeenMessage_def Let_def length_set_add MAX_SEEN_MESSAGES_def CLEANUP_COUNT_def)

text \<open>How many ids were inserted after \<open>x\<close> and still count against it.\<close>

lemma kept_step:
  assumes "st_seen st = a @ x # b" "length (st_seen st) \<le> MAX_SEEN_MESSAGES" "length b < MAX_SEEN_MESSAGES - CLEANUP_COUNT"
  shows "\<exists>a' b'. st_seen (addSeenMessage i st) = a' @ x # b' \<and> length b' \<le> Suc (length b)"
proof (cases "i \<in> set (st_seen st) \<or> length (st_seen st) < MAX_SEEN_MESSAGES")
  case True
  then have "st_seen (addSeenMessage i st) = (if i \<in> set (st_seen st) then a @ x # b else a @ x # b @ [i])"
    using assms by (auto simp: addSeenMessage_def Let_def set_add_def)
  then show ?thesis by (metis length_append_singleton le_SucI order_refl)
next
  case False
  then have len: "length a + length b + 1 = MAX_SEEN_MESSAGES" using assms by simp
  then have "CLEANUP_COUNT \<le> length a" using assms(3) by simp
  moreover have "st_seen (addSeenMessage i st) = drop CLEANUP_COUNT (a @ x # b @ [i])"
    using False assms by (auto simp: addSeenMessage_def Let_def set_add_def)
  ultimately have "st_seen (addSeenMessage i st) = drop CLEANUP_COUNT a @ x # b @ [i]" by simp
  then show ?thesis by (metis length_append_singleton order_refl)
qed

lemma kept_run:
  assumes "st_seen st = a @ x # b" "distinct (st_seen st)" "length (st_seen st) \<le> MAX_SEEN_MESSAGES"
    and "length b + length is \<le> MAX_SEEN_MESSAGES - CLEANUP_COUNT"
  shows "hasSeenMessage x (foldl (\<lambda>st i. addSeenMessage i st) st is)"
  using assms
proof (induction "is" arbitrary: st a b)
  case (Cons i "is")
  obtain a' b' where k: "st_seen (addSeenMessage i st) = a' @ x # b'" "length b' \<le> Suc (length b)"
    using kept_step [OF Cons.prems(1,3), of i] Cons.prems(4) by auto
  have "length b' + length is \<le> MAX_SEEN_MESSAGES - CLEANUP_COUNT" using k(2) Cons.prems(4) by simp
  from Cons.IH [OF k(1) add_seen [OF Cons.prems(2,3)] this] show ?case by simp
qed (simp add: hasSeenMessage_def)

lemma seen_run_ok:
  "distinct (st_seen (foldl (\<lambda>st i. addSeenMessage i st) state_init is)) \<and>
    length (st_seen (foldl (\<lambda>st i. addSeenMessage i st) state_init is)) \<le> MAX_SEEN_MESSAGES"
  by (induction "is" rule: rev_induct) (auto simp: state_init_def add_seen)

text \<open>
  The cache of seen ids is bounded and remembers: after any sequence of additions it holds
  at most 10,000 ids, each once, and an id that was not in it when added is still known after
  any 9,000 further additions.
\<close>

theorem seen_cache_bounded:
  assumes "st = foldl (\<lambda>st i. addSeenMessage i st) state_init earlier"
  shows "length (st_seen st) \<le> MAX_SEEN_MESSAGES \<and> distinct (st_seen st) \<and>
    (\<not> hasSeenMessage x st \<and> length after \<le> MAX_SEEN_MESSAGES - CLEANUP_COUNT \<longrightarrow>
      hasSeenMessage x (foldl (\<lambda>st i. addSeenMessage i st) (addSeenMessage x st) after))"
proof -
  have ok: "distinct (st_seen st)" "length (st_seen st) \<le> MAX_SEEN_MESSAGES"
    using seen_run_ok assms by blast+
  have "hasSeenMessage x (foldl (\<lambda>st i. addSeenMessage i st) (addSeenMessage x st) after)"
    if "\<not> hasSeenMessage x st" "length after \<le> MAX_SEEN_MESSAGES - CLEANUP_COUNT"
  proof -
    have "\<exists>a. st_seen (addSeenMessage x st) = a @ [x]"
      using that(1) ok(2) by (auto simp: addSeenMessage_def hasSeenMessage_def set_add_def Let_def MAX_SEEN_MESSAGES_def CLEANUP_COUNT_def)
    then obtain a where "st_seen (addSeenMessage x st) = a @ x # []" by blast
    then show ?thesis by (rule kept_run [OF _ add_seen [OF ok]]) (use that(2) in simp)
  qed
  then show ?thesis using ok by blast
qed

section \<open>Concrete peers\<close>

definition demo_peers :: "peer_status \<Rightarrow> nat peers" where
  "demo_peers s = \<lparr>pr_state = setPeer ''p'' \<lparr>pi_host = ''h'', pi_port = 1, lastSeen = 0, pi_status = s, lamportTime = 0\<rparr> state_init,
     pr_pool = pool_init ''me'' None, pr_metrics = collector_init\<rparr>"

lemma demo_peers_ok: "peers_ok (demo_peers s)"
  "registry_of (demo_peers s) ''p'' = Some \<lparr>pi_host = ''h'', pi_port = 1, lastSeen = 0, pi_status = s, lamportTime = 0\<rparr>"
  by (simp_all add: demo_peers_def peers_ok_def registry_of_def state_init_def setPeer_def getPeer_def map_ok_def)


theorem failure_detector_exact_witness:
  "\<exists>L'. life_run [Tick 15000 7, Tick 15001 8, Tick 30001 9] (demo_peers P_ACTIVE) = Inr L' \<and> registry_of L' ''p'' = None"
  using failure_detector_exact [OF demo_peers_ok(1) _ demo_peers_ok(2), of "[Tick 15000 7, Tick 15001 8, Tick 30001 9]" P_ACTIVE]
  by (simp add: silent_fate_def del: life_run.simps)

theorem connecting_never_expires_witness:
  "\<exists>L'. life_run [Tick 99999 7, Tick 999999 8] (demo_peers P_CONNECTING) = Inr L' \<and> registry_of L' ''p'' \<noteq> None"
  using connecting_never_expires [OF demo_peers_ok(1) _ demo_peers_ok(2), of "[Tick 99999 7, Tick 999999 8]" P_CONNECTING]
  by (auto simp del: life_run.simps)

theorem seen_cache_bounded_witness:
  "hasSeenMessage ''x'' (foldl (\<lambda>st i. addSeenMessage i st) (addSeenMessage ''x'' (addSeenMessage ''y'' state_init)) [''z''])"
  using seen_cache_bounded [of "addSeenMessage ''y'' state_init" "[''y'']" "''x''" "[''z'']"]
  by (simp add: hasSeenMessage_def addSeenMessage_def state_init_def set_add_def MAX_SEEN_MESSAGES_def CLEANUP_COUNT_def)

end
