(* ===== verification/MessageStore.thy ===== *)
theory MessageStore
  imports Message Collector "HOL-Library.Sublist"
begin

text \<open>
  The message store of \<^verbatim>\<open>storage/messageStore.js\<close>. LevelDB is the parameter record
  \<open>level\<close>: point reads, atomic batches and range iteration; \<open>level_laws\<close> is its
  documented contract (a batch applies its operations in order, iteration yields the entries
  of the range in ascending key order). The outcome of a write, its duration and the random
  number of the metrics sample are the argument \<open>io\<close>. An operation runs to completion
  before the next one starts.
\<close>

datatype db_op = Put string string | Del string

record 'd level =
  lv_get :: "'d \<Rightarrow> string \<Rightarrow> string option"
  lv_batch :: "db_op list \<Rightarrow> 'd \<Rightarrow> 'd"
  lv_iterate :: "'d \<Rightarrow> string \<Rightarrow> string \<Rightarrow> (string \<times> string) list"

fun apply_op :: "string \<Rightarrow> string option \<Rightarrow> db_op \<Rightarrow> string option" where
  "apply_op k v (Put k' w) = (if k' = k then Some w else v)"
| "apply_op k v (Del k') = (if k' = k then None else v)"

definition level_laws :: "'d level \<Rightarrow> bool" where
  "level_laws lv \<longleftrightarrow>
    (\<forall>ops d k. lv_get lv (lv_batch lv ops d) k = foldl (apply_op k) (lv_get lv d k) ops) \<and>
    (\<forall>d a b. sorted_wrt (<) (map fst (lv_iterate lv d a b))) \<and>
    (\<forall>d a b k v. (k, v) \<in> set (lv_iterate lv d a b) \<longleftrightarrow> a \<le> k \<and> k \<le> b \<and> lv_get lv d k = Some v)"

record io_result =
  io_ok :: bool
  io_ms :: int
  io_rnd :: rat

record 'd store =
  store_db :: 'd
  writeBuffer :: "db_op list"
  batchTimer :: bool
  store_metrics :: collector

definition MAX_BUFFER_SIZE :: nat where "MAX_BUFFER_SIZE = 50"

definition store_init :: "'d \<Rightarrow> collector \<Rightarrow> 'd store" where
  "store_init d col = \<lparr>store_db = d, writeBuffer = [], batchTimer = False, store_metrics = col\<rparr>"

definition padded :: "int \<Rightarrow> string" where
  "padded ts = padStart 15 (CHR ''0'') (show_int ts)"

definition makeKey :: "topic_name \<Rightarrow> int \<Rightarrow> string \<Rightarrow> string" where
  "makeKey tp ts mid = ''msg:'' @ tp @ '':'' @ padded ts @ '':'' @ mid"

definition index_key :: "string \<Rightarrow> string" where
  "index_key mid = ''id:'' @ mid"

definition store_flush :: "'d level \<Rightarrow> io_result \<Rightarrow> 'd store \<Rightarrow> 'd store" where
  "store_flush lv io st =
    (if writeBuffer st = [] then st
     else
       let st' = st\<lparr>batchTimer := False, writeBuffer := []\<rparr>
       in if io_ok io
          then st'\<lparr>store_db := lv_batch lv (writeBuffer st) (store_db st),
                   store_metrics := record_sample (io_rnd io) ''storage_write_ms'' (io_ms io) (store_metrics st)\<rparr>
          else st')"

definition save :: "'d level \<Rightarrow> io_result \<Rightarrow> message \<Rightarrow> 'd store \<Rightarrow> 'd store" where
  "save lv io m st =
    (let key = makeKey (msg_topic m) (lamportTimestamp m) (msg_id m);
         st = st\<lparr>writeBuffer := writeBuffer st @ [Put key (print_message m), Put (index_key (msg_id m)) key]\<rparr>
     in if length (writeBuffer st) \<ge> MAX_BUFFER_SIZE then store_flush lv io st
        else if \<not> batchTimer st then st\<lparr>batchTimer := True\<rparr> else st)"

text \<open>The loop over the iterator; a value that does not parse ends it, keeping what was found.\<close>

fun collect_since :: "int \<Rightarrow> (string \<times> string) list \<Rightarrow> message list" where
  "collect_since since [] = []"
| "collect_since since ((k, v) # rest) =
    (case parse_message v of
       None \<Rightarrow> []
     | Some m \<Rightarrow> (if lamportTimestamp m > since then [m] else []) @ collect_since since rest)"

definition getByTopic :: "'d level \<Rightarrow> io_result \<Rightarrow> topic_name \<Rightarrow> int \<Rightarrow> 'd store \<Rightarrow> message list \<times> 'd store" where
  "getByTopic lv io tp since st =
    (let st = store_flush lv io st;
         startKey = ''msg:'' @ tp @ '':'' @ padded since @ '':'';
         endKey = ''msg:'' @ tp @ '':~''
     in (collect_since since (lv_iterate lv (store_db st) startKey endKey), st))"

text \<open>A missing key is \<^verbatim>\<open>null\<close>; a stored value that does not parse makes the lookup throw.\<close>

definition getById :: "'d level \<Rightarrow> io_result \<Rightarrow> string \<Rightarrow> 'd store \<Rightarrow> (js_error + message option) \<times> 'd store" where
  "getById lv io mid st =
    (let st = store_flush lv io st in
     (case lv_get lv (store_db st) (index_key mid) of
        None \<Rightarrow> Inr None
      | Some fullKey \<Rightarrow>
          (case lv_get lv (store_db st) fullKey of
             None \<Rightarrow> Inr None
           | Some v \<Rightarrow> (case parse_message v of None \<Rightarrow> Inl Syntax_Error | Some m \<Rightarrow> Inr (Some m))), st))"

definition markDelivered :: "'d level \<Rightarrow> io_result \<Rightarrow> time \<Rightarrow> string \<Rightarrow> peer_id \<Rightarrow> 'd store \<Rightarrow> 'd store" where
  "markDelivered lv io now mid p st =
    (if io_ok io
     then st\<lparr>store_db := lv_batch lv [Put (''receipt:'' @ mid @ '':'' @ p) (show_int now)] (store_db st)\<rparr>
     else st)"

text \<open>
  \<open>date\<close> reads an ISO date in milliseconds, \<^const>\<open>None\<close> for \<^verbatim>\<open>NaN\<close>. The deletions
  of the old messages, or nothing at all when a value does not parse.
\<close>

fun prune_ops :: "(string \<Rightarrow> time option) \<Rightarrow> time \<Rightarrow> (string \<times> string) list \<Rightarrow> db_op list option" where
  "prune_ops date cutoff [] = Some []"
| "prune_ops date cutoff ((k, v) # rest) =
    (case parse_message v of
       None \<Rightarrow> None
     | Some m \<Rightarrow>
         map_option ((@) (case date (createdAt m) of
             Some t \<Rightarrow> if t < cutoff then [Del k, Del (index_key (msg_id m))] else []
           | None \<Rightarrow> [])) (prune_ops date cutoff rest))"

definition prune :: "'d level \<Rightarrow> io_result \<Rightarrow> io_result \<Rightarrow> (string \<Rightarrow> time option) \<Rightarrow> time \<Rightarrow> time \<Rightarrow> 'd store \<Rightarrow> 'd store" where
  "prune lv io io' date now olderThanMs st =
    (let st = store_flush lv io st in
     case prune_ops date (now - olderThanMs) (lv_iterate lv (store_db st) ''msg:'' ''msg:~'') of
       None \<Rightarrow> st
     | Some batch \<Rightarrow>
         if batch \<noteq> [] \<and> io_ok io' then st\<lparr>store_db := lv_batch lv batch (store_db st)\<rparr> else st)"

section \<open>The logical contents\<close>

text \<open>What the store holds: the database with the buffered writes applied.\<close>

definition contents :: "'d level \<Rightarrow> 'd store \<Rightarrow> string \<Rightarrow> string option" where
  "contents lv st k = foldl (apply_op k) (lv_get lv (store_db st) k) (writeBuffer st)"

lemma flush_contents:
  "level_laws lv \<Longrightarrow> io_ok io \<Longrightarrow> contents lv (store_flush lv io st) = contents lv st"
  by (auto simp: contents_def store_flush_def Let_def level_laws_def fun_eq_iff)

lemma flush_empties [simp]: "writeBuffer (store_flush lv io st) = []"
  by (simp add: store_flush_def Let_def)

lemma flushed_get:
  "level_laws lv \<Longrightarrow> io_ok io \<Longrightarrow> lv_get lv (store_db (store_flush lv io st)) k = contents lv st k"
  using flush_contents [of lv io st] by (simp add: contents_def fun_eq_iff)

lemma contents_timer [simp]: "contents lv (st\<lparr>writeBuffer := w, batchTimer := b\<rparr>) = contents lv (st\<lparr>writeBuffer := w\<rparr>)"
  by (simp add: contents_def fun_eq_iff)

lemma save_contents:
  assumes "level_laws lv" "io_ok io"
  shows "contents lv (save lv io m st) = (contents lv st)
    (makeKey (msg_topic m) (lamportTimestamp m) (msg_id m) \<mapsto> print_message m,
     index_key (msg_id m) \<mapsto> makeKey (msg_topic m) (lamportTimestamp m) (msg_id m))"
proof -
  let ?key = "makeKey (msg_topic m) (lamportTimestamp m) (msg_id m)"
  let ?st = "st\<lparr>writeBuffer := writeBuffer st @ [Put ?key (print_message m), Put (index_key (msg_id m)) ?key]\<rparr>"
  have "contents lv (save lv io m st) = contents lv ?st"
    using flush_contents [OF assms, of ?st] by (simp add: save_def Let_def)
  also have "\<dots> = (contents lv st)(?key \<mapsto> print_message m, index_key (msg_id m) \<mapsto> ?key)"
    by (auto simp: contents_def fun_eq_iff)
  finally show ?thesis .
qed

definition store_key :: "message \<Rightarrow> string" where
  "store_key m = makeKey (msg_topic m) (lamportTimestamp m) (msg_id m)"

lemma keys_apart [simp]: "index_key i \<noteq> makeKey t ts j" "makeKey t ts j \<noteq> index_key i"
  by (simp_all add: index_key_def makeKey_def)

lemma index_key_inj [simp]: "index_key i = index_key j \<longleftrightarrow> i = j"
  by (simp add: index_key_def)

definition save_all :: "'d level \<Rightarrow> io_result \<Rightarrow> message list \<Rightarrow> 'd store \<Rightarrow> 'd store" where
  "save_all lv io ms st = foldl (\<lambda>st m. save lv io m st) st ms"

lemma save_all_get:
  assumes "level_laws lv" "io_ok io"
  shows "\<forall>m' \<in> set ms. msg_id m' \<noteq> i \<Longrightarrow> contents lv (save_all lv io ms st) (index_key i) = contents lv st (index_key i)"
    "\<forall>m' \<in> set ms. store_key m' \<noteq> makeKey t ts j \<Longrightarrow> contents lv (save_all lv io ms st) (makeKey t ts j) = contents lv st (makeKey t ts j)"
  by (induction ms arbitrary: st)
    (auto simp: save_all_def save_contents [OF assms] store_key_def)

text \<open>
  C22: a saved message is found by its id, whatever was saved before it and after it under
  other ids and keys, whether its write is still buffered or already in the database, and is
  the message that was saved.
\<close>

theorem saved_message_found:
  assumes "level_laws lv" "io_ok io" "\<forall>m' \<in> set later. msg_id m' \<noteq> msg_id m \<and> store_key m' \<noteq> store_key m"
  shows "fst (getById lv io (msg_id m) (save_all lv io (earlier @ m # later) st)) = Inr (Some m)"
proof -
  let ?st = "save_all lv io later (save lv io m (save_all lv io earlier st))"
  have eq: "save_all lv io (earlier @ m # later) st = ?st" by (simp add: save_all_def)
  have "contents lv ?st (index_key (msg_id m)) = Some (store_key m)"
    "contents lv ?st (store_key m) = Some (print_message m)"
    using save_all_get [OF assms(1,2)] assms(3) save_contents [OF assms(1,2)]
    by (simp_all add: store_key_def)
  moreover have "parse_message (print_message m) = Some m"
    by (simp add: parse_message_def print_message_def json_roundtrip message_json_ok message_of_json_json)
  ultimately show ?thesis
    unfolding eq by (simp add: getById_def flushed_get [OF assms(1,2)])
qed

section \<open>Range scans\<close>

definition MAX_TS :: int where "MAX_TS = 10 ^ 15"

lemma padded_props:
  assumes "0 \<le> t" "t < MAX_TS"
  shows "length (padded t) = 15" "list_all is_digit (padded t)" "read_nat 0 (padded t) = nat t"
proof -
  have "nat t < 10 ^ 15" using assms by (simp add: MAX_TS_def nat_less_iff)
  then have "length (show_nat (nat t)) \<le> 15" by (rule show_nat_length) simp
  then show "length (padded t) = 15" using assms by (simp add: padded_def show_int_def length_padStart)
  show "list_all is_digit (padded t)" "read_nat 0 (padded t) = nat t"
    using assms by (simp_all add: padded_def show_int_def padStart_digits show_nat_digits read_nat_pad)
qed

lemma padded_less:
  assumes "0 \<le> s" "s < t" "t < MAX_TS"
  shows "padded s @ u < padded t @ v"
proof (rule lex_append_less)
  have s: "s < MAX_TS" and t: "0 \<le> t" using assms by auto
  show "length (padded s) = length (padded t)" using padded_props(1) assms s t by simp
  show "padded s < padded t"
    by (rule digits_less_lex) (use padded_props assms s t in auto)
qed

lemma padded_before_tilde:
  assumes "0 \<le> t" "t < MAX_TS"
  shows "padded t @ u \<le> ''~''"
proof -
  obtain c cs where c: "padded t = c # cs" using padded_props(1) [OF assms] by (cases "padded t") auto
  then have "is_digit c" using padded_props(2) [OF assms] by simp
  then have "of_char c \<le> (57 :: nat)" by (simp add: is_digit_def)
  then have "c < CHR ''~''" by (simp add: less_char_def)
  then show ?thesis by (simp add: c)
qed

lemma between_prefix: "p @ u \<le> x \<Longrightarrow> x \<le> p @ v \<Longrightarrow> prefix p (x :: string)"
proof (induction p arbitrary: x)
  case (Cons c p)
  then show ?case by (cases x) auto
qed simp

lemma save_all_contents:
  assumes "level_laws lv" "io_ok io" "\<And>i. k \<noteq> index_key i"
  shows "contents lv (save_all lv io ms st) k =
    (case map_get (rev (map (\<lambda>m. (store_key m, print_message m)) ms)) k of Some v \<Rightarrow> Some v | None \<Rightarrow> contents lv st k)"
proof (induction ms arbitrary: st)
  case (Cons m ms)
  have "save_all lv io (m # ms) st = save_all lv io ms (save lv io m st)" by (simp add: save_all_def)
  then show ?case using Cons [of "save lv io m st"] assms(3)
    by (auto simp: save_contents [OF assms(1,2)] store_key_def map_add_def split: option.splits)
qed (simp add: save_all_def)

lemma saved_value:
  assumes "level_laws lv" "io_ok io" "\<And>i. k \<noteq> index_key i" "distinct (map store_key ms)" "contents lv st k = None"
  shows "contents lv (save_all lv io ms st) k = Some v \<longleftrightarrow> (\<exists>m \<in> set ms. store_key m = k \<and> print_message m = v)"
proof -
  let ?l = "rev (map (\<lambda>m. (store_key m, print_message m)) ms)"
  have "distinct (map fst ?l)" using assms(4) by (simp add: rev_map [symmetric] comp_def)
  then have "map_get ?l k = Some v \<longleftrightarrow> (k, v) \<in> set ?l" by simp
  then show ?thesis
    unfolding save_all_contents [OF assms(1-3)] using assms(5) by (auto split: option.splits)
qed

lemma collect_since_saved:
  "collect_since since (map (\<lambda>m. (store_key m, print_message m)) ns) = filter (\<lambda>m. since < lamportTimestamp m) ns"
proof (induction ns)
  case (Cons m ns)
  have "parse_message (print_message m) = Some m"
    by (simp add: parse_message_def print_message_def json_roundtrip message_json_ok message_of_json_json)
  with Cons show ?case by simp
qed simp

definition scan_start :: "topic_name \<Rightarrow> int \<Rightarrow> string" where
  "scan_start tp since = ''msg:'' @ tp @ '':'' @ padded since @ '':''"

definition scan_end :: "topic_name \<Rightarrow> string" where
  "scan_end tp = ''msg:'' @ tp @ '':~''"

lemma scan_not_index: "scan_start tp since \<le> k \<Longrightarrow> k \<le> scan_end tp \<Longrightarrow> k \<noteq> index_key i"
  by (auto simp: scan_start_def scan_end_def index_key_def)

text \<open>What an iterator yields on a store that was filled from empty.\<close>

lemma iterate_saved:
  assumes "level_laws lv" "io_ok io" "\<forall>k. contents lv st k = None" "distinct (map store_key ms)"
    and "\<And>k i. a \<le> k \<Longrightarrow> k \<le> b \<Longrightarrow> k \<noteq> index_key i"
  obtains ns where "lv_iterate lv (store_db (store_flush lv io (save_all lv io ms st))) a b
      = map (\<lambda>m. (store_key m, print_message m)) ns"
    "sorted_wrt (\<lambda>m m'. store_key m < store_key m') ns"
    "set ns = {m \<in> set ms. a \<le> store_key m \<and> store_key m \<le> b}"
proof -
  let ?st = "save_all lv io ms st"
  let ?kvs = "lv_iterate lv (store_db (store_flush lv io ?st)) a b"
  have mem: "(k, v) \<in> set ?kvs \<longleftrightarrow> a \<le> k \<and> k \<le> b \<and>
      (\<exists>m \<in> set ms. store_key m = k \<and> print_message m = v)" for k v
  proof -
    have "(k, v) \<in> set ?kvs \<longleftrightarrow> a \<le> k \<and> k \<le> b \<and> contents lv ?st k = Some v"
      using assms(1) flushed_get [OF assms(1,2)] unfolding level_laws_def by simp
    moreover have "contents lv ?st k = Some v \<longleftrightarrow> (\<exists>m \<in> set ms. store_key m = k \<and> print_message m = v)"
      if "a \<le> k" "k \<le> b"
      by (rule saved_value [OF assms(1,2) _ assms(4)]) (use assms(5) [OF that] assms(3) in auto)
    ultimately show ?thesis by blast
  qed
  have "\<exists>ns. ?kvs = map (\<lambda>m. (store_key m, print_message m)) ns"
    unfolding ex_map_conv using mem by auto
  then obtain ns where ns: "?kvs = map (\<lambda>m. (store_key m, print_message m)) ns" by blast
  have "sorted_wrt (<) (map fst ?kvs)" using assms(1) by (simp add: level_laws_def)
  then have "sorted_wrt (\<lambda>m m'. store_key m < store_key m') ns" by (simp add: ns sorted_wrt_map)
  moreover have "m \<in> set ns \<longleftrightarrow> m \<in> set ms \<and> a \<le> store_key m \<and> store_key m \<le> b" for m
  proof -
    have "m \<in> set ns \<longleftrightarrow> (store_key m, print_message m) \<in> set ?kvs"
      using print_message_inj by (auto simp: ns)
    then show ?thesis using mem print_message_inj by blast
  qed
  ultimately show thesis by (intro that [of ns]) (auto simp: ns)
qed

lemma scan_result:
  assumes "level_laws lv" "io_ok io" "\<forall>k. contents lv st k = None" "distinct (map store_key ms)"
  obtains ns where "fst (getByTopic lv io tp since (save_all lv io ms st)) = filter (\<lambda>m. since < lamportTimestamp m) ns"
    "sorted_wrt (\<lambda>m m'. store_key m < store_key m') ns"
    "set ns = {m \<in> set ms. scan_start tp since \<le> store_key m \<and> store_key m \<le> scan_end tp}"
proof -
  obtain ns where ns: "lv_iterate lv (store_db (store_flush lv io (save_all lv io ms st))) (scan_start tp since) (scan_end tp)
      = map (\<lambda>m. (store_key m, print_message m)) ns"
    "sorted_wrt (\<lambda>m m'. store_key m < store_key m') ns"
    "set ns = {m \<in> set ms. scan_start tp since \<le> store_key m \<and> store_key m \<le> scan_end tp}"
    by (rule iterate_saved [OF assms]) (use scan_not_index in blast)+
  have "fst (getByTopic lv io tp since (save_all lv io ms st)) = filter (\<lambda>m. since < lamportTimestamp m) ns"
    using ns(1) by (simp add: getByTopic_def scan_start_def scan_end_def Let_def collect_since_saved)
  then show thesis using that ns by blast
qed

lemma topic_in_range:
  assumes "msg_topic m = tp" "0 \<le> since" "since < lamportTimestamp m" "lamportTimestamp m < MAX_TS"
  shows "scan_start tp since \<le> store_key m \<and> store_key m \<le> scan_end tp"
proof -
  have "padded since @ '':'' < padded (lamportTimestamp m) @ '':'' @ msg_id m"
    by (rule padded_less) (use assms in auto)
  moreover have "padded (lamportTimestamp m) @ '':'' @ msg_id m \<le> ''~''"
    using padded_before_tilde [of "lamportTimestamp m"] assms by simp
  ultimately show ?thesis
    using assms(1) by (simp add: scan_start_def scan_end_def store_key_def makeKey_def)
qed

lemma key_order_time:
  assumes "msg_topic m = msg_topic m'" "store_key m < store_key m'" "0 \<le> lamportTimestamp m'" "lamportTimestamp m < MAX_TS"
  shows "lamportTimestamp m \<le> lamportTimestamp m'"
proof (rule ccontr)
  assume "\<not> lamportTimestamp m \<le> lamportTimestamp m'"
  then have "padded (lamportTimestamp m') @ '':'' @ msg_id m' < padded (lamportTimestamp m) @ '':'' @ msg_id m"
    by (intro padded_less) (use assms in auto)
  then have "store_key m' < store_key m" using assms(1) by (simp add: store_key_def makeKey_def)
  with assms(2) show False by simp
qed



section \<open>Pruning\<close>

definition is_old :: "(string \<Rightarrow> time option) \<Rightarrow> time \<Rightarrow> message \<Rightarrow> bool" where
  "is_old date cutoff m = (case date (createdAt m) of Some t \<Rightarrow> t < cutoff | None \<Rightarrow> False)"

lemma prune_ops_saved:
  "prune_ops date cutoff (map (\<lambda>m. (store_key m, print_message m)) ns) =
    Some (concat (map (\<lambda>m. if is_old date cutoff m then [Del (store_key m), Del (index_key (msg_id m))] else []) ns))"
proof (induction ns)
  case (Cons m ns)
  have "parse_message (print_message m) = Some m"
    by (simp add: parse_message_def print_message_def json_roundtrip message_json_ok message_of_json_json)
  with Cons show ?case by (simp add: is_old_def split: option.splits)
qed simp

lemma apply_deletions:
  "foldl (apply_op (store_key m)) v
     (concat (map (\<lambda>m. if is_old date cutoff m then [Del (store_key m), Del (index_key (msg_id m))] else []) ns))
   = (if \<exists>m' \<in> set ns. store_key m' = store_key m \<and> is_old date cutoff m' then None else v)"
proof -
  have apart: "index_key i \<noteq> store_key m" for i by (simp add: store_key_def)
  show ?thesis by (induction ns arbitrary: v) (auto simp: apart)
qed


section \<open>A concrete database\<close>

definition toy_level :: "(string \<times> string) list level" where
  "toy_level =
    \<lparr>lv_get = map_of,
     lv_batch = (\<lambda>ops d. foldl (\<lambda>d op. case op of Put k v \<Rightarrow> AList.update k v d | Del k \<Rightarrow> AList.delete k d) d ops),
     lv_iterate = (\<lambda>d a b. map (\<lambda>k. (k, the (map_of d k))) (filter (\<lambda>k. a \<le> k \<and> k \<le> b) (sort (remdups (map fst d)))))\<rparr>"

lemma toy_level_laws: "level_laws toy_level"
proof -
  have get: "map_of (foldl (\<lambda>d op. case op of Put k v \<Rightarrow> AList.update k v d | Del k \<Rightarrow> AList.delete k d) d ops) k
      = foldl (apply_op k) (map_of d k) ops" for ops k and d :: "(string \<times> string) list"
    by (induction ops arbitrary: d) (auto simp: update_conv' delete_conv' split: db_op.splits)
  have "sorted_wrt (<) (sort (remdups (map fst d)))" for d :: "(string \<times> string) list"
    by (simp add: strict_sorted_iff)
  then have sorted: "sorted_wrt (<) (map fst (lv_iterate toy_level d a b))" for a b and d :: "(string \<times> string) list"
    by (simp add: toy_level_def comp_def sorted_wrt_filter)
  have dom: "k \<in> fst ` set d \<longleftrightarrow> map_of d k \<noteq> None" for k and d :: "(string \<times> string) list"
    by (simp add: map_of_eq_None_iff)
  have mem: "(k, v) \<in> set (lv_iterate toy_level d a b) \<longleftrightarrow> a \<le> k \<and> k \<le> b \<and> map_of d k = Some v"
    for d :: "(string \<times> string) list" and a b k v
  proof -
    have "(k, v) \<in> set (lv_iterate toy_level d a b) \<longleftrightarrow> a \<le> k \<and> k \<le> b \<and> k \<in> fst ` set d \<and> v = the (map_of d k)"
      by (auto simp: toy_level_def)
    then show ?thesis unfolding dom by auto
  qed
  have "lv_get toy_level = map_of" "lv_batch toy_level = (\<lambda>ops d. foldl (\<lambda>d op. case op of Put k v \<Rightarrow> AList.update k v d | Del k \<Rightarrow> AList.delete k d) d ops)"
    by (simp_all add: toy_level_def)
  then show ?thesis unfolding level_laws_def using get sorted mem by simp
qed

definition sample :: "string \<Rightarrow> topic_name \<Rightarrow> int \<Rightarrow> message" where
  "sample i t ts = \<lparr>msg_id = i, msg_type = ''CHAT'', ttl = 10, lamportTimestamp = ts, sender = ''a'',
     senderPublicKey = None, msg_topic = t, payload = ''hi'', createdAt = ''2024'', powNonce = None,
     routingPath = None, signature = None\<rparr>"

definition good_io :: io_result where
  "good_io = \<lparr>io_ok = True, io_ms = 1, io_rnd = 0\<rparr>"

lemma toy_empty: "contents toy_level (store_init [] collector_init) k = None"
  by (simp add: contents_def store_init_def toy_level_def)

lemma sample_key: "store_key (sample i t ts) = ''msg:'' @ t @ '':'' @ padded ts @ '':'' @ i"
  by (simp add: store_key_def makeKey_def sample_def)

lemma sample_fields [simp]: "msg_id (sample i t ts) = i" "msg_topic (sample i t ts) = t"
  "lamportTimestamp (sample i t ts) = ts" "createdAt (sample i t ts) = ''2024''"
  by (simp_all add: sample_def)

theorem saved_message_found_witness:
  "fst (getById toy_level good_io ''x'' (save_all toy_level good_io ([] @ sample ''x'' ''t'' 3 # [sample ''y'' ''u'' 4]) (store_init [] collector_init)))
    = Inr (Some (sample ''x'' ''t'' 3))"
  using saved_message_found [OF toy_level_laws, of good_io "[sample ''y'' ''u'' 4]" "sample ''x'' ''t'' 3" "[]" "store_init [] collector_init"]
  by (simp add: good_io_def sample_key)




end
