(* ===== verification/SyncManager.thy ===== *)
theory SyncManager
  imports MessageStore GossipEngine
begin

text \<open>
  Anti-entropy on reconnection, \<^verbatim>\<open>storage/syncManager.js\<close>. The sending loop is an
  async function that waits after every batch for its acknowledgement or a timeout: a session
  is what that function keeps across the wait, and \<open>sync_continue\<close> runs it from one wait to
  the next. Reads of the database that precede the first batch are one step. The pool's
  sends are returned as effects.
\<close>

record sync_env =
  se_io :: io_result
  se_now :: time
  se_uid :: string
  se_date :: string

record sync_session =
  s_peer :: peer_id
  s_rest :: "message list"
  s_since :: int
  s_max :: int
  s_started :: time

record sync_manager =
  sessions :: "(nat, sync_session) jmap"
  sync_acks :: "(peer_id, nat \<times> string) jmap"
  next_session :: nat

record 'd sync_state =
  sy_mgr :: sync_manager
  sy_store :: "'d store"
  sy_factory :: factory

datatype sync_out = Sync_Send peer_id message

definition sync_init :: sync_manager where
  "sync_init = \<lparr>sessions = [], sync_acks = [], next_session = 0\<rparr>"

text \<open>\<^verbatim>\<open>parseInt(value, 10) || 0\<close>: the leading integer after white space, 0 when there is none.\<close>

definition parseInt :: "string \<Rightarrow> int" where
  "parseInt s =
    (case dropWhile is_space s of
       [] \<Rightarrow> 0
     | c # cs \<Rightarrow>
         if c = CHR ''-'' then - int (read_nat 0 (takeWhile is_digit cs))
         else if c = CHR ''+'' then int (read_nat 0 (takeWhile is_digit cs))
         else int (read_nat 0 (takeWhile is_digit (c # cs))))"

definition sync_key :: "peer_id \<Rightarrow> string" where
  "sync_key p = ''sync:'' @ p"

definition getLastSeenLamport :: "'d level \<Rightarrow> bool \<Rightarrow> peer_id \<Rightarrow> 'd store \<Rightarrow> int" where
  "getLastSeenLamport lv opened p st =
    (if \<not> opened then 0
     else case lv_get lv (store_db st) (sync_key p) of None \<Rightarrow> 0 | Some v \<Rightarrow> parseInt v)"

definition updateLastSeenLamport :: "'d level \<Rightarrow> io_result \<Rightarrow> bool \<Rightarrow> peer_id \<Rightarrow> int \<Rightarrow> 'd store \<Rightarrow> 'd store" where
  "updateLastSeenLamport lv io opened p t st =
    (if \<not> opened \<or> \<not> io_ok io then st
     else st\<lparr>store_db := lv_batch lv [Put (sync_key p) (show_int t)] (store_db st)\<rparr>)"

definition BATCH_SIZE :: nat where "BATCH_SIZE = 100"

definition waitForAck :: "peer_id \<Rightarrow> string \<Rightarrow> nat \<Rightarrow> sync_session \<Rightarrow> sync_manager \<Rightarrow> sync_manager" where
  "waitForAck p batchId sid ses sm =
    sm\<lparr>sync_acks := map_set (sync_acks sm) p (sid, batchId), sessions := map_set (sessions sm) sid ses\<rparr>"

text \<open>One round of the loop, up to the next wait, or what follows the loop.\<close>

definition sync_continue ::
  "'d level \<Rightarrow> bool \<Rightarrow> peer_id \<Rightarrow> sync_env \<Rightarrow> nat \<Rightarrow> sync_session \<Rightarrow> 'd sync_state \<Rightarrow> 'd sync_state \<times> sync_out list" where
  "sync_continue lv opened me ev sid ses y =
    (if s_rest ses = [] then
       let st = (if s_max ses > s_since ses
                 then updateLastSeenLamport lv (se_io ev) opened (s_peer ses) (s_max ses) (sy_store y)
                 else sy_store y);
           st = st\<lparr>store_metrics := record_sample (io_rnd (se_io ev)) ''sync_duration_ms'' (se_now ev - s_started ses) (store_metrics st)\<rparr>
       in (y\<lparr>sy_store := st, sy_mgr := (sy_mgr y)\<lparr>sessions := map_delete (sessions (sy_mgr y)) sid\<rparr>\<rparr>, [])
     else
       let (m, f) = createSyncBatch (se_uid ev) (se_date ev) me (take BATCH_SIZE (s_rest ses)) (sy_factory y);
           st = (sy_store y)\<lparr>store_metrics := increment ''sync_batches_sent_total'' (store_metrics (sy_store y))\<rparr>;
           ses = ses\<lparr>s_rest := drop BATCH_SIZE (s_rest ses)\<rparr>
       in (y\<lparr>sy_store := st, sy_factory := f, sy_mgr := waitForAck (s_peer ses) (msg_id m) sid ses (sy_mgr y)\<rparr>,
           [Sync_Send (s_peer ses) m]))"

fun gather :: "'d level \<Rightarrow> io_result \<Rightarrow> int \<Rightarrow> topic_name list \<Rightarrow> 'd store \<Rightarrow> message list \<times> 'd store" where
  "gather lv io since [] st = ([], st)"
| "gather lv io since (t # ts) st =
    (case getByTopic lv io t since st of (ms, st) \<Rightarrow>
       case gather lv io since ts st of (ms', st) \<Rightarrow> (ms @ ms', st))"

text \<open>\<open>rs\<close> is the routing table of the gossip engine; the sort is stable.\<close>

definition onPeerReconnected ::
  "'d level \<Rightarrow> bool \<Rightarrow> peer_id \<Rightarrow> sync_env \<Rightarrow> routes \<Rightarrow> peer_id \<Rightarrow> 'd sync_state \<Rightarrow> 'd sync_state \<times> sync_out list" where
  "onPeerReconnected lv opened me ev rs p y =
    (if \<not> opened then (y, [])
     else
       let since = getLastSeenLamport lv opened p (sy_store y);
           (ms, st) = gather lv (se_io ev) since (getTopicsForPeer p rs) (sy_store y);
           y = y\<lparr>sy_store := st\<rparr>
       in if ms = [] then (y, [])
          else
            let sorted = sort_key lamportTimestamp ms;
                ses = \<lparr>s_peer = p, s_rest = sorted, s_since = since, s_max = Max (set (map lamportTimestamp sorted)),
                       s_started = se_now ev\<rparr>;
                sid = next_session (sy_mgr y);
                y = y\<lparr>sy_mgr := (sy_mgr y)\<lparr>next_session := sid + 1\<rparr>\<rparr>
            in sync_continue lv opened me ev sid ses y)"

text \<open>The timer of a waiting session fires: the pending entry of its peer goes, the loop goes on.\<close>

definition sync_timeout :: "'d level \<Rightarrow> bool \<Rightarrow> peer_id \<Rightarrow> sync_env \<Rightarrow> nat \<Rightarrow> 'd sync_state \<Rightarrow> 'd sync_state \<times> sync_out list" where
  "sync_timeout lv opened me ev sid y =
    (case map_get (sessions (sy_mgr y)) sid of
       None \<Rightarrow> (y, [])
     | Some ses \<Rightarrow>
         sync_continue lv opened me ev sid ses
           (y\<lparr>sy_mgr := (sy_mgr y)\<lparr>sync_acks := map_delete (sync_acks (sy_mgr y)) (s_peer ses)\<rparr>\<rparr>))"

text \<open>\<^verbatim>\<open>const { batchId } = JSON.parse(message.payload)\<close>\<close>

definition ack_batch :: "message \<Rightarrow> js_error + string option" where
  "ack_batch m = (case json_parse (payload m) of
     None \<Rightarrow> Inl Syntax_Error
   | Some JNull \<Rightarrow> Inl Type_Error
   | Some (JObj fs) \<Rightarrow> Inr (str_field fs ''batchId'')
   | Some _ \<Rightarrow> Inr None)"

definition receiveSyncAck ::
  "'d level \<Rightarrow> bool \<Rightarrow> peer_id \<Rightarrow> sync_env \<Rightarrow> message \<Rightarrow> peer_id \<Rightarrow> 'd sync_state \<Rightarrow> js_error + 'd sync_state \<times> sync_out list" where
  "receiveSyncAck lv opened me ev m frm y =
    (case ack_batch m of
       Inl x \<Rightarrow> Inl x
     | Inr batchId \<Rightarrow> Inr
         (case map_get (sync_acks (sy_mgr y)) frm of
            None \<Rightarrow> (y, [])
          | Some (sid, pending) \<Rightarrow>
              if batchId \<noteq> Some pending then (y, [])
              else
                let st = (sy_store y)\<lparr>store_metrics := increment ''sync_acks_received_total'' (store_metrics (sy_store y))\<rparr>;
                    y = y\<lparr>sy_store := st, sy_mgr := (sy_mgr y)\<lparr>sync_acks := map_delete (sync_acks (sy_mgr y)) frm\<rparr>\<rparr>
                in case map_get (sessions (sy_mgr y)) sid of
                     None \<Rightarrow> (y, [])
                   | Some ses \<Rightarrow> sync_continue lv opened me ev sid ses y))"

text \<open>The receiving side: the elements of the array go through the gossip engine one by one.\<close>

fun sync_feed ::
  "sodium \<Rightarrow> (nat \<Rightarrow> env) \<Rightarrow> peer_id \<Rightarrow> peer_id list \<Rightarrow> peer_id \<Rightarrow> nat \<Rightarrow> json list \<Rightarrow> engine
    \<Rightarrow> outcome \<times> engine \<times> engine_out list" where
  "sync_feed s evs me peers frm i [] e = (Done, e, [])"
| "sync_feed s evs me peers frm i (j # js) e =
    (if j = JNull then (Threw Type_Error, e, [])
     else case message_of_json j of
       None \<Rightarrow> (Untyped, e, [])
     | Some m \<Rightarrow>
         if msg_id m \<in> set (seenMessages e) then sync_feed s evs me peers frm (Suc i) js e
         else
           (case receiveMessage s (evs i) me peers m (Some frm) e of (r, e, out) \<Rightarrow>
              if r \<noteq> Done then (r, e, out)
              else case sync_feed s evs me peers frm (Suc i) js e of (r, e, outs) \<Rightarrow> (r, e, out @ outs)))"

definition receiveSyncBatch ::
  "sodium \<Rightarrow> (nat \<Rightarrow> env) \<Rightarrow> string \<Rightarrow> string \<Rightarrow> peer_id \<Rightarrow> peer_id list \<Rightarrow> message \<Rightarrow> peer_id \<Rightarrow> engine \<times> factory
    \<Rightarrow> outcome \<times> (engine \<times> factory) \<times> engine_out list \<times> sync_out list" where
  "receiveSyncBatch s evs uid date me peers syncBatch frm = (\<lambda>(e, f).
    (case json_parse (payload syncBatch) of
       None \<Rightarrow> (Threw Syntax_Error, (e, f), [], [])
     | Some (JArr js) \<Rightarrow>
         (case sync_feed s evs me peers frm 0 js e of (r, e, out) \<Rightarrow>
            if r \<noteq> Done then (r, (e, f), out, [])
            else case createSyncAck uid date me (msg_id syncBatch) f of (ack, f) \<Rightarrow>
              (Done, (e, f), out, [Sync_Send frm ack]))
     | Some _ \<Rightarrow> (Done, (e, f), [], [])))"

section \<open>Sessions\<close>

datatype sync_event = Sync_Timeout sync_env nat | Sync_Acked sync_env message peer_id

fun sync_step :: "'d level \<Rightarrow> bool \<Rightarrow> peer_id \<Rightarrow> sync_event \<Rightarrow> 'd sync_state \<Rightarrow> 'd sync_state \<times> sync_out list" where
  "sync_step lv opened me (Sync_Timeout ev sid) y = sync_timeout lv opened me ev sid y"
| "sync_step lv opened me (Sync_Acked ev m frm) y =
    (case receiveSyncAck lv opened me ev m frm y of Inl _ \<Rightarrow> (y, []) | Inr r \<Rightarrow> r)"

fun sync_run :: "'d level \<Rightarrow> bool \<Rightarrow> peer_id \<Rightarrow> sync_event list \<Rightarrow> 'd sync_state \<Rightarrow> 'd sync_state \<times> sync_out list" where
  "sync_run lv opened me [] y = (y, [])"
| "sync_run lv opened me (e # es) y =
    (case sync_step lv opened me e y of (y, out) \<Rightarrow> case sync_run lv opened me es y of (y, outs) \<Rightarrow> (y, out @ outs))"

definition session :: "nat \<Rightarrow> 'd sync_state \<Rightarrow> sync_session option" where
  "session sid y = map_get (sessions (sy_mgr y)) sid"

definition remaining :: "nat \<Rightarrow> 'd sync_state \<Rightarrow> message list" where
  "remaining sid y = (case session sid y of None \<Rightarrow> [] | Some ses \<Rightarrow> s_rest ses)"

text \<open>How often a session still has to be resumed.\<close>

definition resumes_left :: "nat \<Rightarrow> 'd sync_state \<Rightarrow> nat" where
  "resumes_left sid y = (case session sid y of None \<Rightarrow> 0 | Some ses \<Rightarrow> Suc ((length (s_rest ses) + 99) div 100))"

fun timeouts :: "nat \<Rightarrow> sync_event list \<Rightarrow> nat" where
  "timeouts sid [] = 0"
| "timeouts sid (Sync_Timeout ev i # es) = (if i = sid then 1 else 0) + timeouts sid es"
| "timeouts sid (Sync_Acked ev m frm # es) = timeouts sid es"

text \<open>What a batch message carries, read back from its payload.\<close>

definition batch_messages :: "message \<Rightarrow> message list" where
  "batch_messages m = (case json_parse (payload m) of
     Some (JArr js) \<Rightarrow> List.map_filter message_of_json js | _ \<Rightarrow> [])"

definition batches_to :: "peer_id \<Rightarrow> sync_out list \<Rightarrow> message list list" where
  "batches_to p outs = List.map_filter (\<lambda>x. case x of Sync_Send q m \<Rightarrow> if q = p then Some (batch_messages m) else None) outs"

lemma batches_to_simps [simp]:
  "batches_to p [] = []" "batches_to p (a @ b) = batches_to p a @ batches_to p b"
  "batches_to p [Sync_Send q m] = (if q = p then [batch_messages m] else [])"
  by (simp_all add: batches_to_def List.map_filter_def)

lemma batch_messages_roundtrip:
  "batch_messages (fst (createSyncBatch uid date me ms f)) = ms"
proof -
  have ok: "json_ok (JArr (map message_json ms))" by (simp add: message_json_ok list_all_iff)
  have "List.map_filter message_of_json (map message_json ms) = ms"
    by (induction ms) (simp_all add: List.map_filter_simps message_of_json_json)
  then show ?thesis
    by (simp add: batch_messages_def createSyncBatch_def createBaseMessage_def Let_def json_roundtrip [OF ok] del: stringify.simps)
qed

lemma sync_continue_session:
  assumes "sync_continue lv opened me ev sid ses y = (y', out)"
  shows "session i y' = (if i = sid then if s_rest ses = [] then None else Some (ses\<lparr>s_rest := drop BATCH_SIZE (s_rest ses)\<rparr>)
      else session i y)"
    "batches_to p out = (if s_rest ses \<noteq> [] \<and> s_peer ses = p then [take BATCH_SIZE (s_rest ses)] else [])"
  using assms batch_messages_roundtrip [of "se_uid ev" "se_date ev" me "take BATCH_SIZE (s_rest ses)" "sy_factory y"]
  by (auto simp: sync_continue_def Let_def session_def map_get_set map_get_delete waitForAck_def case_prod_beta split: if_splits)

fun step_io :: "sync_event \<Rightarrow> io_result" where
  "step_io (Sync_Timeout ev i) = se_io ev"
| "step_io (Sync_Acked ev m frm) = se_io ev"

definition same_log :: "'d sync_state \<Rightarrow> 'd sync_state \<Rightarrow> bool" where
  "same_log y y' \<longleftrightarrow> store_db (sy_store y') = store_db (sy_store y) \<and> writeBuffer (sy_store y') = writeBuffer (sy_store y)"

lemma sync_continue_log:
  assumes "sync_continue lv opened me ev sid ses y = (y', out)"
  shows "writeBuffer (sy_store y') = writeBuffer (sy_store y)"
    "store_db (sy_store y') = (if s_rest ses = [] \<and> s_max ses > s_since ses \<and> opened \<and> io_ok (se_io ev)
       then lv_batch lv [Put (sync_key (s_peer ses)) (show_int (s_max ses))] (store_db (sy_store y))
       else store_db (sy_store y))"
  using assms
  by (auto simp: sync_continue_def Let_def updateLastSeenLamport_def case_prod_beta split: if_splits)

text \<open>A step either leaves every session alone or resumes exactly one.\<close>

lemma sync_step_cases:
  assumes "sync_step lv opened me e y = (y', out)"
  obtains (idle) "\<And>i. session i y' = session i y" "out = []" "\<And>ev i. e = Sync_Timeout ev i \<Longrightarrow> session i y = None" "same_log y y'"
  | (resumed) ev sid ses y1 where "session sid y = Some ses" "\<And>i. session i y1 = session i y"
      "sync_continue lv opened me ev sid ses y1 = (y', out)" "\<And>ev i. e = Sync_Timeout ev i \<Longrightarrow> i = sid"
      "same_log y y1" "se_io ev = step_io e"
proof (cases e)
  case (Sync_Timeout ev sid)
  show ?thesis
  proof (cases "session sid y")
    case None
    then have "y' = y" "out = []" using assms Sync_Timeout by (simp_all add: sync_timeout_def session_def)
    then show ?thesis by (intro idle) (use None Sync_Timeout in \<open>simp_all add: same_log_def\<close>)
  next
    case (Some ses)
    let ?y1 = "y\<lparr>sy_mgr := (sy_mgr y)\<lparr>sync_acks := map_delete (sync_acks (sy_mgr y)) (s_peer ses)\<rparr>\<rparr>"
    have "sync_continue lv opened me ev sid ses ?y1 = (y', out)"
      using assms Some Sync_Timeout by (simp add: sync_timeout_def session_def)
    then show ?thesis by (rule resumed [OF Some, of ?y1, rotated]) (simp_all add: session_def same_log_def Sync_Timeout)
  qed
next
  case (Sync_Acked ev m frm)
  show ?thesis
  proof (cases "\<exists>b sid ses. ack_batch m = Inr (Some b) \<and> map_get (sync_acks (sy_mgr y)) frm = Some (sid, b) \<and> session sid y = Some ses")
    case True
    then obtain b sid ses where h: "ack_batch m = Inr (Some b)" "map_get (sync_acks (sy_mgr y)) frm = Some (sid, b)"
      "session sid y = Some ses" by blast
    let ?y1 = "y\<lparr>sy_store := (sy_store y)\<lparr>store_metrics := increment ''sync_acks_received_total'' (store_metrics (sy_store y))\<rparr>,
      sy_mgr := (sy_mgr y)\<lparr>sync_acks := map_delete (sync_acks (sy_mgr y)) frm\<rparr>\<rparr>"
    have "sync_continue lv opened me ev sid ses ?y1 = (y', out)"
      using assms h Sync_Acked by (simp add: receiveSyncAck_def session_def Let_def)
    then show ?thesis by (rule resumed [OF h(3), of ?y1, rotated]) (simp_all add: session_def same_log_def Sync_Acked)
  next
    case False
    then have "out = []" "sessions (sy_mgr y') = sessions (sy_mgr y)" "same_log y y'"
      using assms Sync_Acked
      by (auto simp: same_log_def receiveSyncAck_def session_def Let_def split: sum.splits option.splits if_splits)
    then show ?thesis by (intro idle) (simp_all add: session_def Sync_Acked)
  qed
qed

definition only_session :: "peer_id \<Rightarrow> nat \<Rightarrow> 'd sync_state \<Rightarrow> bool" where
  "only_session p sid y \<longleftrightarrow> (\<forall>i ses. session i y = Some ses \<longrightarrow> (s_peer ses = p) = (i = sid))"

lemma round_up_drop: "rest \<noteq> [] \<Longrightarrow> Suc ((length (drop BATCH_SIZE rest) + 99) div 100) \<le> (length rest + 99) div 100"
  by (cases rest) (auto simp: BATCH_SIZE_def)

lemma sync_step_progress:
  assumes "sync_step lv opened me e y = (y', out)" "only_session p sid y"
  shows "only_session p sid y' \<and> concat (batches_to p out) @ remaining sid y' = remaining sid y
    \<and> (\<forall>b \<in> set (batches_to p out). b \<noteq> [] \<and> length b \<le> BATCH_SIZE)
    \<and> resumes_left sid y' \<le> resumes_left sid y - timeouts sid [e]"
  using assms(1)
proof (cases rule: sync_step_cases)
  case idle
  have "resumes_left sid y \<le> resumes_left sid y - timeouts sid [e]"
    using idle(3) by (cases e) (auto simp: resumes_left_def)
  then show ?thesis using idle assms(2) by (auto simp: only_session_def remaining_def resumes_left_def)
next
  case (resumed ev i ses y1)
  note c = sync_continue_session [OF resumed(3)]
  have own: "(s_peer ses = p) = (i = sid)" using assms(2) resumed(1) by (simp add: only_session_def)
  have t: "timeouts sid [e] \<le> (if i = sid then 1 else 0)" using resumed(4) by (cases e) auto
  have only: "only_session p sid y'"
    using assms(2) resumed(1,2) unfolding only_session_def c by (auto split: if_splits)
  show ?thesis
  proof (cases "i = sid")
    case True
    have "resumes_left sid y' \<le> resumes_left sid y - 1"
      using resumed(1) True round_up_drop [of "s_rest ses"] by (simp add: resumes_left_def c)
    then show ?thesis
      using True own only t resumed(1) by (auto simp: c remaining_def BATCH_SIZE_def)
  next
    case False
    then show ?thesis using own only t resumed(2) by (simp add: c remaining_def resumes_left_def)
  qed
qed

lemma timeouts_Cons: "timeouts sid (e # es) = timeouts sid [e] + timeouts sid es"
  by (cases e) simp_all

lemma sync_run_progress:
  "only_session p sid y \<Longrightarrow> sync_run lv opened me es y = (y', outs) \<Longrightarrow>
    concat (batches_to p outs) @ remaining sid y' = remaining sid y
    \<and> (\<forall>b \<in> set (batches_to p outs). b \<noteq> [] \<and> length b \<le> BATCH_SIZE)
    \<and> resumes_left sid y' \<le> resumes_left sid y - timeouts sid es"
proof (induction es arbitrary: y outs)
  case (Cons e es)
  obtain y1 out where s: "sync_step lv opened me e y = (y1, out)" by (cases "sync_step lv opened me e y")
  obtain outs1 where r: "sync_run lv opened me es y1 = (y', outs1)" "outs = out @ outs1"
    using Cons.prems(2) s by (auto split: prod.splits)
  note p = sync_step_progress [OF s Cons.prems(1)]
  have "concat (batches_to p outs1) @ remaining sid y' = remaining sid y1"
    "\<forall>b \<in> set (batches_to p outs1). b \<noteq> [] \<and> length b \<le> BATCH_SIZE"
    "resumes_left sid y' \<le> resumes_left sid y1 - timeouts sid es"
    using Cons.IH [OF _ r(1)] p by blast+
  then show ?case using p r(2) by (auto simp: timeouts_Cons [of sid e es])
qed simp

text \<open>
  The sending loop delivers in order: while acknowledgements and timeouts of any peers
  arrive in any order, the batches sent to a peer are non-empty, hold at most a hundred
  messages each, and put together with what its session still holds are exactly the sorted
  backlog, nothing lost, repeated or reordered.
\<close>

theorem sync_batches_partition:
  assumes "only_session p sid y" "sync_run lv opened me es y = (y', outs)"
  shows "concat (batches_to p outs) @ remaining sid y' = remaining sid y
    \<and> (\<forall>b \<in> set (batches_to p outs). b \<noteq> [] \<and> length b \<le> BATCH_SIZE)"
  using sync_run_progress [OF assms] by blast

text \<open>
  C18: the sending loop terminates: one timer per batch and one more after the last are enough
  for the session to end, whatever acknowledgements arrive, fail to arrive or are bogus, and
  by then the whole backlog has been sent.
\<close>

theorem sync_terminates:
  assumes "only_session p sid y" "sync_run lv opened me es y = (y', outs)" "session sid y = Some ses"
    and "Suc ((length (s_rest ses) + 99) div 100) \<le> timeouts sid es"
  shows "session sid y' = None \<and> concat (batches_to p outs) = s_rest ses"
proof -
  have "resumes_left sid y' = 0"
    using sync_run_progress [OF assms(1,2)] assms(3,4) by (simp add: resumes_left_def)
  then have "session sid y' = None" by (simp add: resumes_left_def split: option.splits)
  then show ?thesis using sync_run_progress [OF assms(1,2)] assms(3) by (simp add: remaining_def)
qed

section \<open>What a finished session leaves behind\<close>

lemma parseInt_show_int [simp]: "parseInt (show_int n) = n"
proof -
  have tw: "takeWhile is_digit (show_nat k) = show_nat k" for k
    using show_nat_digits [of k] by (simp add: takeWhile_eq_all_conv list_all_iff)
  have first: "\<exists>c cs. show_nat k = c # cs \<and> is_digit c" for k
    using show_nat_digits [of k] show_nat_nonempty [of k] by (cases "show_nat k") auto
  have no: "is_digit c \<Longrightarrow> \<not> is_space c \<and> c \<noteq> CHR ''-'' \<and> c \<noteq> CHR ''+''" for c
    by (auto simp: is_digit_def is_space_def)
  show ?thesis
  proof (cases "n < 0")
    case True
    have "\<not> is_space (CHR ''-'')" by (simp add: is_space_def)
    then show ?thesis using True by (simp add: parseInt_def show_int_def tw)
  next
    case False
    obtain c cs where c: "show_nat (nat n) = c # cs" "is_digit c" using first by blast
    have "takeWhile is_digit (c # cs) = c # cs" "read_nat 0 (c # cs) = nat n"
      using tw [of "nat n"] read_show_nat [of "nat n"] c(1) by simp_all
    then show ?thesis using False no [OF c(2)] by (simp add: parseInt_def show_int_def c(1))
  qed
qed

text \<open>The message entries of a database are those of the messages \<open>ms\<close>.\<close>

definition log_of :: "'d level \<Rightarrow> message list \<Rightarrow> 'd \<Rightarrow> bool" where
  "log_of lv ms d \<longleftrightarrow> (\<forall>k v. prefix ''msg:'' k \<longrightarrow>
     (lv_get lv d k = Some v \<longleftrightarrow> (\<exists>m \<in> set ms. store_key m = k \<and> print_message m = v)))"

lemma flush_idem [simp]: "store_flush lv io (store_flush lv io' st) = store_flush lv io' st"
  by (simp add: store_flush_def [of lv io])

lemma flush_clean: "writeBuffer st = [] \<Longrightarrow> store_flush lv io st = st"
  by (simp add: store_flush_def)

lemma put_sync_key:
  assumes "level_laws lv"
  shows "lv_get lv (lv_batch lv [Put (sync_key p) v] d) k = (if k = sync_key p then Some v else lv_get lv d k)"
    "log_of lv ms d \<Longrightarrow> log_of lv ms (lv_batch lv [Put (sync_key p) v] d)"
proof -
  show get: "lv_get lv (lv_batch lv [Put (sync_key p) v] d) k = (if k = sync_key p then Some v else lv_get lv d k)" for k
    using assms by (auto simp: level_laws_def)
  have "prefix ''msg:'' k \<Longrightarrow> k \<noteq> sync_key p" for k by (auto simp: sync_key_def)
  then show "log_of lv ms d \<Longrightarrow> log_of lv ms (lv_batch lv [Put (sync_key p) v] d)"
    unfolding log_of_def get by auto
qed

lemma scan_set:
  assumes "level_laws lv" "log_of lv ms (store_db (store_flush lv io st))"
  shows "set (fst (getByTopic lv io tp since st)) =
    {m \<in> set ms. scan_start tp since \<le> store_key m \<and> store_key m \<le> scan_end tp \<and> since < lamportTimestamp m}"
proof -
  let ?a = "scan_start tp since" and ?b = "scan_end tp"
  let ?kvs = "lv_iterate lv (store_db (store_flush lv io st)) ?a ?b"
  have range: "?a \<le> k \<Longrightarrow> k \<le> ?b \<Longrightarrow> prefix ''msg:'' k" for k
    using between_prefix [of "''msg:''"] by (simp add: scan_start_def scan_end_def)
  have mem: "(k, v) \<in> set ?kvs \<longleftrightarrow> ?a \<le> k \<and> k \<le> ?b \<and> (\<exists>m \<in> set ms. store_key m = k \<and> print_message m = v)" for k v
    using assms range unfolding level_laws_def log_of_def by blast
  have "\<exists>ns. ?kvs = map (\<lambda>m. (store_key m, print_message m)) ns"
    unfolding ex_map_conv using mem by auto
  then obtain ns where ns: "?kvs = map (\<lambda>m. (store_key m, print_message m)) ns" by blast
  have "m \<in> set ns \<longleftrightarrow> (store_key m, print_message m) \<in> set ?kvs" for m
    using print_message_inj by (auto simp: ns)
  then have "m \<in> set ns \<longleftrightarrow> m \<in> set ms \<and> ?a \<le> store_key m \<and> store_key m \<le> ?b" for m
    using mem print_message_inj by blast
  moreover have "fst (getByTopic lv io tp since st) = filter (\<lambda>m. since < lamportTimestamp m) ns"
    using ns by (simp add: getByTopic_def scan_start_def scan_end_def Let_def collect_since_saved)
  ultimately show ?thesis by auto
qed

lemma gather_result:
  assumes "level_laws lv" "log_of lv ms (store_db (store_flush lv io st))"
  shows "set (fst (gather lv io since ts st)) = {m \<in> set ms. \<exists>t \<in> set ts.
      scan_start t since \<le> store_key m \<and> store_key m \<le> scan_end t \<and> since < lamportTimestamp m}"
    "snd (gather lv io since ts st) = (if ts = [] then st else store_flush lv io st)"
  using assms(2)
proof (induction ts arbitrary: st)
  case (Cons t ts)
  have g: "gather lv io since (t # ts) st =
    (fst (getByTopic lv io t since st) @ fst (gather lv io since ts (store_flush lv io st)),
     snd (gather lv io since ts (store_flush lv io st)))" for st
    by (simp add: getByTopic_def Let_def case_prod_beta)
  { case 1
    then have "log_of lv ms (store_db (store_flush lv io (store_flush lv io st)))" by simp
    from Cons.IH(1) [OF this] show ?case using 1 scan_set [OF assms(1), of ms io st t since] unfolding g by auto
  next
    case 2
    then have "log_of lv ms (store_db (store_flush lv io (store_flush lv io st)))" by simp
    from Cons.IH(2) [OF this] show ?case unfolding g by simp
  }
qed simp_all

lemma scan_start_mono:
  assumes "0 \<le> s" "s \<le> t" "t < MAX_TS"
  shows "scan_start tp s \<le> scan_start tp t"
proof (cases "s = t")
  case False
  then have "padded s @ '':'' < padded t @ '':''" by (intro padded_less) (use assms in auto)
  then show ?thesis by (simp add: scan_start_def)
qed simp

text \<open>The state of a session to \<open>p\<close> that will leave \<open>M\<close> behind.\<close>

definition heading_for :: "'d level \<Rightarrow> message list \<Rightarrow> peer_id \<Rightarrow> nat \<Rightarrow> int \<Rightarrow> 'd sync_state \<Rightarrow> bool" where
  "heading_for lv ms p sid M y \<longleftrightarrow> only_session p sid y \<and>
     log_of lv ms (store_db (sy_store y)) \<and> writeBuffer (sy_store y) = [] \<and>
     (case session sid y of
        Some ses \<Rightarrow> s_max ses = M \<and> s_since ses < M
      | None \<Rightarrow> lv_get lv (store_db (sy_store y)) (sync_key p) = Some (show_int M))"

lemma sync_key_inj [simp]: "sync_key p = sync_key q \<longleftrightarrow> p = q"
  by (simp add: sync_key_def)

lemma heading_for_step:
  assumes lv: "level_laws lv" and h: "heading_for lv ms p sid M y" and io: "io_ok (step_io e)"
    and s: "sync_step lv True me e y = (y', out)"
  shows "heading_for lv ms p sid M y'"
proof -
  have only: "only_session p sid y'" using sync_step_progress [OF s] h by (simp add: heading_for_def)
  show ?thesis
    using s
  proof (cases rule: sync_step_cases)
    case idle
    then show ?thesis using h only by (auto simp: heading_for_def same_log_def split: option.splits)
  next
    case (resumed ev i ses y1)
    note c = sync_continue_session(1) [OF resumed(3)] and d = sync_continue_log [OF resumed(3)]
    have own: "(s_peer ses = p) = (i = sid)" using h resumed(1) by (simp add: heading_for_def only_session_def)
    have same: "store_db (sy_store y1) = store_db (sy_store y)" "writeBuffer (sy_store y1) = writeBuffer (sy_store y)"
      using resumed(5) by (simp_all add: same_log_def)
    have log: "log_of lv ms (store_db (sy_store y'))" "writeBuffer (sy_store y') = []"
      using h put_sync_key(2) [OF lv] by (auto simp: d same heading_for_def)
    show ?thesis
    proof (cases "i = sid")
      case True
      then show ?thesis
        using h only log own resumed(1) io by (auto simp: heading_for_def c d resumed(6) put_sync_key(1) [OF lv] split: if_splits)
    next
      case False
      then show ?thesis
        using h only log own resumed(2) by (auto simp: heading_for_def c d same put_sync_key(1) [OF lv] split: option.splits)
    qed
  qed
qed

lemma heading_for_run:
  assumes "level_laws lv" "heading_for lv ms p sid M y" "list_all (io_ok \<circ> step_io) es"
  shows "heading_for lv ms p sid M (fst (sync_run lv True me es y))"
  using assms(2,3)
proof (induction es arbitrary: y)
  case (Cons e es)
  obtain y1 out where s: "sync_step lv True me e y = (y1, out)" by (cases "sync_step lv True me e y")
  show ?case using Cons.IH [of y1] heading_for_step [OF assms(1) Cons.prems(1) _ s] Cons.prems(2)
    by (simp add: s case_prod_beta)
qed simp

lemma reconnect_result:
  assumes lv: "level_laws lv" and log: "log_of lv ms (store_db (store_flush lv (se_io ev) (sy_store y)))"
    and r: "onPeerReconnected lv True me ev rs p y = (y', out)"
    and got: "got = fst (gather lv (se_io ev) (getLastSeenLamport lv True p (sy_store y)) (getTopicsForPeer p rs) (sy_store y))"
  shows "got = [] \<Longrightarrow> out = []"
    "got \<noteq> [] \<Longrightarrow> session i y' = (if i = next_session (sy_mgr y)
        then Some \<lparr>s_peer = p, s_rest = drop BATCH_SIZE (sort_key lamportTimestamp got), s_since = getLastSeenLamport lv True p (sy_store y),
          s_max = Max (lamportTimestamp ` set got), s_started = se_now ev\<rparr> else session i y)"
    "got \<noteq> [] \<Longrightarrow> batches_to p out = [take BATCH_SIZE (sort_key lamportTimestamp got)]"
    "got \<noteq> [] \<Longrightarrow> store_db (sy_store y') = store_db (store_flush lv (se_io ev) (sy_store y)) \<and> writeBuffer (sy_store y') = []"
proof -
  let ?since = "getLastSeenLamport lv True p (sy_store y)" and ?sid = "next_session (sy_mgr y)"
  let ?st = "snd (gather lv (se_io ev) ?since (getTopicsForPeer p rs) (sy_store y))"
  let ?ses = "\<lparr>s_peer = p, s_rest = sort_key lamportTimestamp got, s_since = ?since,
          s_max = Max (lamportTimestamp ` set got), s_started = se_now ev\<rparr>"
  let ?y = "y\<lparr>sy_store := ?st, sy_mgr := (sy_mgr y)\<lparr>next_session := ?sid + 1\<rparr>\<rparr>"
  show "got = [] \<Longrightarrow> out = []"
    using r got by (auto simp: onPeerReconnected_def Let_def case_prod_beta)
  assume ne: "got \<noteq> []"
  then have c: "sync_continue lv True me ev ?sid ?ses ?y = (y', out)"
    using r got by (simp add: onPeerReconnected_def Let_def case_prod_beta)
  have "sort_key lamportTimestamp got \<noteq> []" using ne by (metis length_0_conv length_sort)
  then show "session i y' = (if i = ?sid then Some \<lparr>s_peer = p, s_rest = drop BATCH_SIZE (sort_key lamportTimestamp got), s_since = ?since,
          s_max = Max (lamportTimestamp ` set got), s_started = se_now ev\<rparr> else session i y)"
    and "batches_to p out = [take BATCH_SIZE (sort_key lamportTimestamp got)]"
    using sync_continue_session [OF c] by (simp_all add: session_def)
  have "getTopicsForPeer p rs \<noteq> []" using ne got by auto
  then have "?st = store_flush lv (se_io ev) (sy_store y)" using gather_result(2) [OF lv log] by simp
  then show "store_db (sy_store y') = store_db (store_flush lv (se_io ev) (sy_store y)) \<and> writeBuffer (sy_store y') = []"
    using sync_continue_log [OF c] \<open>sort_key lamportTimestamp got \<noteq> []\<close> by simp
qed


section \<open>The receiving side\<close>

lemma message_json_not_null: "message_json m \<noteq> JNull"
  by (simp add: message_json_def)

lemma feed_burst:
  assumes "p \<noteq> []" "\<forall>i. t_check (evs i) = t \<and> t_refill (evs i) = t"
    and "\<forall>m \<in> set ms. pow_ok m \<and> msg_type m \<noteq> ''SUB_AD''"
    and "distinct (map msg_id ms)" "set (map msg_id ms) \<inter> set (seenMessages e) = {}"
    and "burst_state cap t p k (rateLimiter e)"
    and "sync_feed s evs me peers p i (map message_json ms) e = (r, e', out)"
  shows "r = Done \<and> burst_state cap t p (k + length ms) (rateLimiter e')
    \<and> set (delivered out) \<subseteq> msg_id ` set (take (cap - k) ms)"
  using assms(3-7)
proof (induction ms arbitrary: i k e out)
  case (Cons m ms)
  obtain r1 e1 out1 where rcv: "receiveMessage s (evs i) me peers m (Some p) e = (r1, e1, out1)"
    by (cases "receiveMessage s (evs i) me peers m (Some p) e")
  have fin: "r1 = Done" using receive_gossip_done [OF rcv] Cons.prems(1) by simp
  obtain out2 where rest: "sync_feed s evs me peers p (Suc i) (map message_json ms) e1 = (r, e', out2)" "out = out1 @ out2"
    using Cons.prems(3,5) rcv fin by (auto simp: message_json_not_null message_of_json_json split: prod.splits)
  have tr: "truthy (Some p)" using assms(1) by (simp add: truthy_def)
  have b: "burst_state cap t p (Suc k) (rateLimiter e1)"
    using burst_step [OF Cons.prems(4)] receive_rate [OF rcv] Cons.prems(1) assms(2) tr by simp
  have ids: "set (seenMessages e1) \<subseteq> insert (msg_id m) (set (seenMessages e))" "set (delivered out1) \<subseteq> {msg_id m}"
    using receive_ids [OF rcv] by auto
  have "msg_id m \<notin> set (map msg_id ms)" "set (map msg_id ms) \<inter> set (seenMessages e) = {}"
    using Cons.prems(2,3) by auto
  then have fresh: "set (map msg_id ms) \<inter> set (seenMessages e1) = {}" using ids(1) by blast
  have late: "delivered out1 = []" if "cap \<le> k"
  proof (rule ccontr)
    assume "delivered out1 \<noteq> []"
    then have "fst (checkLimit t t p (rateLimiter e))"
      using delivered_admissible [OF rcv] tr assms(2) by (simp add: admissible_def)
    then show False using burst_step [OF Cons.prems(4)] that by simp
  qed
  have IH: "r = Done \<and> burst_state cap t p (Suc k + length ms) (rateLimiter e')
    \<and> set (delivered out2) \<subseteq> msg_id ` set (take (cap - Suc k) ms)"
    by (rule Cons.IH [OF _ _ fresh b rest(1)]) (use Cons.prems(1,2) in auto)
  show ?case
  proof (cases "cap \<le> k")
    case True
    then show ?thesis using IH late rest(2) by simp
  next
    case False
    then have "cap - k = Suc (cap - Suc k)" by simp
    then show ?thesis using IH ids(2) rest(2) by auto
  qed
qed simp

text \<open>
  C20: what a large batch does to its receiver: when the messages of one batch are new, carry a
  proof of work and arrive within one clock reading, the receiver hands on none of them beyond
  the bucket's capacity, bans the sender when there are more than ten too many, and
  acknowledges the whole batch all the same.
\<close>

theorem sync_batch_rate_limited:
  assumes "p \<noteq> []" "\<forall>i. t_check (evs i) = t \<and> t_refill (evs i) = t"
    and "\<forall>m \<in> set ms. pow_ok m \<and> msg_type m \<noteq> ''SUB_AD''"
    and "distinct (map msg_id ms)" "set (map msg_id ms) \<inter> set (seenMessages e) = {}"
    and "map_get (buckets (rateLimiter e)) p = None" "map_get (violations (rateLimiter e)) p = None"
    and "map_get (bannedPeers (rateLimiter e)) p = None"
    and "batch = fst (createSyncBatch bid bdate p ms bf)"
    and "receiveSyncBatch s evs uid date me peers batch p (e, f) = (r, (e', f'), out, sends)"
  shows "r = Done \<and> sends = [Sync_Send p (fst (createSyncAck uid date me bid f))]
    \<and> set (delivered out) \<subseteq> msg_id ` set (take (capacity (rateLimiter e)) ms)
    \<and> (capacity (rateLimiter e) + BAN_THRESHOLD < length ms \<longrightarrow>
        map_get (bannedPeers (rateLimiter e')) p = Some (t + BAN_DURATION_MS))"
proof -
  have ok: "json_ok (JArr (map message_json ms))" by (simp add: message_json_ok list_all_iff)
  have pl: "json_parse (payload batch) = Some (JArr (map message_json ms))" and bid: "msg_id batch = bid"
    by (simp_all add: assms(9) createSyncBatch_def createBaseMessage_def Let_def json_roundtrip [OF ok] del: stringify.simps)
  obtain r1 e1 out1 where feed: "sync_feed s evs me peers p 0 (map message_json ms) e = (r1, e1, out1)"
    by (cases "sync_feed s evs me peers p 0 (map message_json ms) e")
  have "burst_state (capacity (rateLimiter e)) t p 0 (rateLimiter e)" using assms(6-8) by (simp add: burst_state_def)
  from feed_burst [OF assms(1-5) this feed] assms(10) show ?thesis
    by (auto simp: receiveSyncBatch_def pl feed bid burst_state_def case_prod_beta split: if_splits)
qed

section \<open>Concrete sessions\<close>

definition sync_now :: sync_env where
  "sync_now = \<lparr>se_io = good_io, se_now = 5, se_uid = ''u'', se_date = ''2024''\<rparr>"

definition synced :: message where
  "synced = sample ''x'' ''global'' 3"

definition sync_demo :: "(string \<times> string) list sync_state" where
  "sync_demo = \<lparr>sy_mgr = sync_init, sy_store = save_all toy_level good_io [synced] (store_init [] collector_init),
     sy_factory = factory_init\<rparr>"

definition sync_waiting :: "(string \<times> string) list sync_state" where
  "sync_waiting = sync_demo\<lparr>sy_mgr := \<lparr>sessions = [(0, \<lparr>s_peer = ''p'', s_rest = [synced], s_since = 0,
     s_max = 3, s_started = 0\<rparr>)], sync_acks = [(''p'', (0, ''b''))], next_session = 1\<rparr>\<rparr>"

lemma waiting_session: "session i sync_waiting = (if i = 0 then Some \<lparr>s_peer = ''p'', s_rest = [synced],
    s_since = 0, s_max = 3, s_started = 0\<rparr> else None)"
  by (simp add: session_def sync_waiting_def)

lemma waiting_only: "only_session ''p'' 0 sync_waiting"
  by (simp add: only_session_def waiting_session)

theorem sync_batches_partition_witness:
  "concat (batches_to ''p'' (snd (sync_run toy_level True ''me'' [Sync_Timeout sync_now 0] sync_waiting)))
    @ remaining 0 (fst (sync_run toy_level True ''me'' [Sync_Timeout sync_now 0] sync_waiting)) = [synced]"
  using sync_batches_partition [OF waiting_only prod.collapse [symmetric], of toy_level True "''me''" "[Sync_Timeout sync_now 0]"]
  by (simp add: remaining_def [of 0 sync_waiting] waiting_session del: sync_run.simps)

lemma two_timeouts: "timeouts 0 [Sync_Timeout sync_now 0, Sync_Timeout sync_now 0] = 2"
  by simp

theorem sync_terminates_witness:
  "session 0 (fst (sync_run toy_level True ''me'' [Sync_Timeout sync_now 0, Sync_Timeout sync_now 0] sync_waiting)) = None"
  using sync_terminates [OF waiting_only prod.collapse [symmetric], of _ "[Sync_Timeout sync_now 0, Sync_Timeout sync_now 0]" toy_level True "''me''"]
  by (simp add: waiting_session two_timeouts del: sync_run.simps timeouts.simps)

lemma demo_log: "log_of toy_level [synced] (store_db (store_flush toy_level good_io (sy_store sync_demo)))"
proof -
  have "lv_get toy_level (store_db (store_flush toy_level good_io (sy_store sync_demo))) k = Some v \<longleftrightarrow>
      (\<exists>m \<in> set [synced]. store_key m = k \<and> print_message m = v)" if "prefix ''msg:'' k" for k v
  proof -
    have "k \<noteq> index_key i" for i using that by (auto simp: index_key_def)
    then show ?thesis
      using saved_value [OF toy_level_laws, of good_io k "[synced]" "store_init [] collector_init" v]
      by (simp add: sync_demo_def flushed_get [OF toy_level_laws] toy_empty good_io_def)
  qed
  then show ?thesis by (simp add: log_of_def)
qed

lemma timeouts_replicate: "timeouts sid (replicate n (Sync_Timeout ev sid)) = n"
  by (induction n) simp_all


lemma letter_hashes:
  "jsSimpleHash ''a509'' = 2179591000"
  "jsSimpleHash ''b117'' = 2275400000"
  "jsSimpleHash ''d159'' = 268798000"
  "jsSimpleHash ''e448'' = 299868000"
  "jsSimpleHash ''f416'' = 3688947500"
  "jsSimpleHash ''g965'' = 3720017500"
  "jsSimpleHash ''h56'' = 824946000"
  "jsSimpleHash ''i484'' = 2871382500"
  "jsSimpleHash ''j580'' = 2182686000"
  "jsSimpleHash ''k132'' = 2089871500"
  "jsSimpleHash ''n131'' = 3731745000"
  "jsSimpleHash ''o132'' = 935921000"
  by (simp_all add: jsSimpleHash_def)

lemma letter_nonces:
  "show_nat 56 = ''56''"
  "show_nat 117 = ''117''"
  "show_nat 131 = ''131''"
  "show_nat 132 = ''132''"
  "show_nat 159 = ''159''"
  "show_nat 416 = ''416''"
  "show_nat 448 = ''448''"
  "show_nat 484 = ''484''"
  "show_nat 509 = ''509''"
  "show_nat 580 = ''580''"
  "show_nat 965 = ''965''"
  by (simp_all add: show_nat_eval del: One_nat_def)

definition letters :: "(string \<times> nat) list" where
  "letters = [(''a'', 509), (''b'', 117), (''d'', 159), (''e'', 448), (''f'', 416), (''g'', 965), (''h'', 56), (''i'', 484), (''j'', 580), (''k'', 132), (''n'', 131), (''o'', 132)]"

definition letter_message :: "string \<times> nat \<Rightarrow> message" where
  "letter_message = (\<lambda>(i, n). (sample i ''global'' 3)\<lparr>powNonce := Some n\<rparr>)"

lemma letters_pow: "list_all (\<lambda>(i, n). verifyPuzzle i POW_DIFFICULTY n) letters"
  by (simp add: letters_def verifyPuzzle_def letter_nonces letter_hashes)

lemma letters_ok: "\<forall>m \<in> set (map letter_message letters). pow_ok m \<and> msg_type m \<noteq> ''SUB_AD''"
  using letters_pow by (auto simp: list_all_iff letter_message_def pow_ok_def sample_def)

theorem sync_batch_rate_limited_witness:
  "map_get (bannedPeers (rateLimiter (fst (fst (snd (receiveSyncBatch toy_sodium (\<lambda>_. demo_env) ''u'' ''d'' ''me'' []
      (fst (createSyncBatch ''b'' ''d'' ''p'' (map letter_message letters) factory_init)) ''p''
      (engine_init (Some 1) None None, factory_init))))))) ''p'' = Some 300000"
proof -
  let ?batch = "fst (createSyncBatch ''b'' ''d'' ''p'' (map letter_message letters) factory_init)"
  let ?e = "engine_init (Some 1) None None"
  obtain r e' f' out sends where x: "receiveSyncBatch toy_sodium (\<lambda>_. demo_env) ''u'' ''d'' ''me'' [] ?batch ''p'' (?e, factory_init)
      = (r, (e', f'), out, sends)" by (cases "receiveSyncBatch toy_sodium (\<lambda>_. demo_env) ''u'' ''d'' ''me'' [] ?batch ''p'' (?e, factory_init)") auto
  have ids: "map msg_id (map letter_message letters) = map fst letters"
    by (simp add: letter_message_def letters_def)
  have init: "seenMessages ?e = []" "buckets (rateLimiter ?e) = []" "violations (rateLimiter ?e) = []"
    "bannedPeers (rateLimiter ?e) = []" "capacity (rateLimiter ?e) = 1"
    by (simp_all add: engine_init_def rl_init_def or_default_def)
  have d: "distinct (map msg_id (map letter_message letters))" unfolding ids by (simp add: letters_def)
  have "map_get (bannedPeers (rateLimiter e')) ''p'' = Some (0 + BAN_DURATION_MS)"
    using sync_batch_rate_limited [OF _ _ letters_ok d _ _ _ _ refl x, of 0]
    by (simp add: init demo_env_def letters_def del: One_nat_def)
  then show ?thesis unfolding x by simp
qed

end
