(* ===== verification/Discovery.thy ===== *)
theory Discovery
  imports Peers GossipEngine SyncManager
begin

text \<open>
  How a node finds peers: peer exchange, bootstrap nodes and mDNS, \<^verbatim>\<open>node/discovery/*.js\<close>,
  over the peer manager. What travels on the pool besides gossip messages are the two
  objects of peer exchange. \<^verbatim>\<open>new URL\<close> is the parameter \<open>url\<close> (host and port
  string, or \<^const>\<open>None\<close> when it throws); the mDNS library delivers the updates. An interval
  or timeout is the boolean that it is set; the times it fires at are the environment's.
\<close>

datatype wire = W_Message message | W_Pex_Request peer_id | W_Peer_List "(peer_id \<times> string \<times> nat) list"

section \<open>Peer exchange\<close>

definition requestPeersFromAll :: "peer_id \<Rightarrow> wire peers \<Rightarrow> js_error + wire peers \<times> wire peer_out list" where
  "requestPeersFromAll me L =
    (case pool_broadcast (W_Pex_Request me) [] (pr_pool L) of
       Inl e \<Rightarrow> Inl e
     | Inr (pool, out) \<Rightarrow> Inr (L\<lparr>pr_pool := pool\<rparr>, map Pool_Event out))"

definition peer_list_for :: "peer_id \<Rightarrow> peer_id \<Rightarrow> node_state \<Rightarrow> (peer_id \<times> string \<times> nat) list" where
  "peer_list_for me requester st =
    map (\<lambda>(p, info). (p, pi_host info, pi_port info))
      (take 20 (filter (\<lambda>(p, info). p \<noteq> requester \<and> p \<noteq> me) (getPeerEntries st)))"

definition pex_handleRequest :: "peer_id \<Rightarrow> peer_id \<Rightarrow> wire peers \<Rightarrow> js_error + wire peers \<times> wire peer_out list" where
  "pex_handleRequest me requester L =
    (case pool_send requester (W_Peer_List (peer_list_for me requester (pr_state L))) (pr_pool L) of
       Inl e \<Rightarrow> Inl e
     | Inr (pool, out) \<Rightarrow> Inr (L\<lparr>pr_pool := pool\<rparr>, map Pool_Event out))"

fun pex_handleResponse :: "time \<Rightarrow> peer_id \<Rightarrow> (peer_id \<times> string \<times> nat) list \<Rightarrow> 'm peers \<Rightarrow> 'm peers \<times> 'm peer_out list" where
  "pex_handleResponse now me [] L = (L, [])"
| "pex_handleResponse now me ((p, host, port) # rest) L =
    (case (if p \<noteq> me \<and> \<not> hasPeer p (pr_state L) then addPeer now p host port L else (L, [])) of (L, out) \<Rightarrow>
       case pex_handleResponse now me rest L of (L, outs) \<Rightarrow> (L, out @ outs))"

definition gossipPeerList :: "peer_id \<Rightarrow> rat \<Rightarrow> wire peers \<Rightarrow> js_error + wire peers \<times> wire peer_out list" where
  "gossipPeerList me r L =
    (let activePeers = map_keys (outboundConnections (pr_pool L))
     in if activePeers = [] then Inr (L, [])
        else pex_handleRequest me (activePeers ! rand_index r (length activePeers)) L)"

text \<open>The listener that \<^verbatim>\<open>start\<close> puts on the pool's messages.\<close>

definition pex_on_message :: "time \<Rightarrow> peer_id \<Rightarrow> wire \<Rightarrow> peer_id \<Rightarrow> wire peers \<Rightarrow> js_error + wire peers \<times> wire peer_out list" where
  "pex_on_message now me w frm L =
    (case w of
       W_Pex_Request _ \<Rightarrow> pex_handleRequest me frm L
     | W_Peer_List ps \<Rightarrow> Inr (pex_handleResponse now me ps L)
     | W_Message m \<Rightarrow> (if msg_type m = ''PEER_EXCHANGE'' then pex_handleRequest me frm L else Inr (L, [])))"

section \<open>Bootstrap nodes\<close>

datatype boot_node = Boot_Object string nat peer_id | Boot_String string

text \<open>A timer for one node: its delay and what it will connect to.\<close>

fun boot_target :: "(string \<Rightarrow> (string \<times> string) option) \<Rightarrow> nat \<Rightarrow> boot_node \<Rightarrow> (string \<times> nat \<times> peer_id) option" where
  "boot_target url i (Boot_Object host port p) = Some (host, port, p)"
| "boot_target url i (Boot_String s) =
    (case url s of
       None \<Rightarrow> None
     | Some (hostname, port) \<Rightarrow>
         (let n = parseInt port in Some (hostname, if n = 0 then 80 else nat n, ''bootstrap-'' @ show_nat i)))"

fun boot_timers ::
  "(string \<Rightarrow> (string \<times> string) option) \<Rightarrow> (nat \<Rightarrow> rat) \<Rightarrow> nat \<Rightarrow> boot_node list \<Rightarrow> (rat \<times> string \<times> nat \<times> peer_id) list" where
  "boot_timers url rs i [] = []"
| "boot_timers url rs i (b # bs) =
    (case boot_target url i b of
       None \<Rightarrow> boot_timers url rs (Suc i) bs
     | Some target \<Rightarrow> (rs i * 5000, target) # boot_timers url rs (Suc i) bs)"

definition attemptBootstrap :: "time \<Rightarrow> string \<times> nat \<times> peer_id \<Rightarrow> 'm peers \<Rightarrow> 'm peers \<times> 'm peer_out list" where
  "attemptBootstrap now = (\<lambda>(host, port, p) L. addPeer now p host port L)"

section \<open>mDNS\<close>

text \<open>\<^verbatim>\<open>curr.split('=')\<close>, of which the first two parts are used.\<close>

definition split_pair :: "string \<Rightarrow> string \<times> string option" where
  "split_pair s =
    (let key = takeWhile (\<lambda>c. c \<noteq> CHR ''='') s; rest = dropWhile (\<lambda>c. c \<noteq> CHR ''='') s
     in (key, case rest of [] \<Rightarrow> None | _ # v \<Rightarrow> Some (takeWhile (\<lambda>c. c \<noteq> CHR ''='') v)))"

definition txt_record :: "string list \<Rightarrow> (string, string option) jmap" where
  "txt_record txt = foldl (\<lambda>acc curr. case split_pair curr of (key, val) \<Rightarrow> map_set acc key val) [] txt"

text \<open>\<^verbatim>\<open>parseInt\<close> without a radix reads a hexadecimal prefix.\<close>

fun read_hex :: "nat \<Rightarrow> string \<Rightarrow> nat" where
  "read_hex acc [] = acc"
| "read_hex acc (c # cs) = (case hex_val c of Some d \<Rightarrow> read_hex (16 * acc + d) cs | None \<Rightarrow> acc)"

definition parseInt_auto :: "string \<Rightarrow> int" where
  "parseInt_auto s =
    (case dropWhile is_space s of
       c # d # cs \<Rightarrow> if c = CHR ''0'' \<and> (d = CHR ''x'' \<or> d = CHR ''X'') then int (read_hex 0 cs) else parseInt s
     | _ \<Rightarrow> parseInt s)"

definition mdns_update ::
  "time \<Rightarrow> peer_id \<Rightarrow> (string list \<times> string list) option \<Rightarrow> 'm peers \<Rightarrow> 'm peers \<times> 'm peer_out list" where
  "mdns_update now me data L =
    (case data of
       None \<Rightarrow> (L, [])
     | Some (txt, addresses) \<Rightarrow>
         (let rec = txt_record txt;
              peerId = Option.bind (map_get rec ''peerId'') id;
              port = (case Option.bind (map_get rec ''port'') id of None \<Rightarrow> 0 | Some s \<Rightarrow> parseInt_auto s);
              host = (case addresses of [] \<Rightarrow> None | h # _ \<Rightarrow> Some h)
          in if truthy peerId \<and> the peerId \<noteq> me \<and> truthy host \<and> port \<noteq> 0
             then addPeer now (the peerId) (the host) (nat port) L else (L, [])))"

text \<open>
  What a node advertises, and the two objects of the mDNS library; an object whose creation or
  start throws is logged and is as good as none. Browsing begins when the browser is ready.
\<close>

record mdns_ad =
  ad_service :: string
  ad_port :: nat
  ad_name :: string
  ad_txt :: "(string \<times> string) list"

record mdns =
  md_peerId :: peer_id
  md_port :: nat
  md_ad :: "mdns_ad option"
  md_browser :: bool
  md_discovering :: bool

definition serviceType :: string where "serviceType = ''_p2pchat._tcp''"

definition mdns_init :: "peer_id \<Rightarrow> nat \<Rightarrow> mdns" where
  "mdns_init me port = \<lparr>md_peerId = me, md_port = port, md_ad = None, md_browser = False, md_discovering = False\<rparr>"

definition mdns_start :: "bool \<Rightarrow> bool \<Rightarrow> mdns \<Rightarrow> mdns" where
  "mdns_start ad_ok br_ok m =
    (let m = (if ad_ok then m\<lparr>md_ad := Some \<lparr>ad_service = serviceType, ad_port = md_port m, ad_name = md_peerId m,
                ad_txt = [(''peerId'', md_peerId m), (''port'', show_nat (md_port m))]\<rparr>\<rparr> else m)
     in if br_ok then m\<lparr>md_browser := True\<rparr> else m)"

definition mdns_ready :: "mdns \<Rightarrow> mdns" where
  "mdns_ready m = (if md_browser m then m\<lparr>md_discovering := True\<rparr> else m)"

text \<open>After \<^verbatim>\<open>stop\<close> nothing is advertised and nothing discovered.\<close>

definition mdns_stop :: "mdns \<Rightarrow> mdns" where
  "mdns_stop m = m\<lparr>md_ad := None, md_browser := False, md_discovering := False\<rparr>"

section \<open>The orchestrator\<close>

text \<open>\<open>pex_listeners\<close> counts the message listeners that \<^verbatim>\<open>pex.start\<close> has added; nothing removes them.\<close>

record discovery =
  ds_mdns :: mdns
  pex_interval :: bool
  pex_listeners :: nat
  pexTimeout :: bool

definition discovery_init :: "peer_id \<Rightarrow> nat \<Rightarrow> discovery" where
  "discovery_init me port = \<lparr>ds_mdns = mdns_init me port, pex_interval = False, pex_listeners = 0, pexTimeout = False\<rparr>"

definition pex_start :: "discovery \<Rightarrow> discovery" where
  "pex_start d = d\<lparr>pex_listeners := pex_listeners d + 1, pex_interval := True\<rparr>"

definition pex_stop :: "discovery \<Rightarrow> discovery" where
  "pex_stop d = d\<lparr>pex_interval := False\<rparr>"

text \<open>\<open>ad_ok\<close> and \<open>br_ok\<close>: whether creating the advertisement and the browser succeeds.\<close>

definition discovery_start ::
  "(string \<Rightarrow> (string \<times> string) option) \<Rightarrow> (nat \<Rightarrow> rat) \<Rightarrow> bool \<Rightarrow> bool \<Rightarrow> boot_node list \<Rightarrow> discovery
    \<Rightarrow> discovery \<times> (rat \<times> string \<times> nat \<times> peer_id) list" where
  "discovery_start url rs ad_ok br_ok bs d =
    (let d = d\<lparr>ds_mdns := mdns_start ad_ok br_ok (ds_mdns d)\<rparr>
     in ((pex_start d)\<lparr>pexTimeout := True\<rparr>, boot_timers url rs 0 bs))"

text \<open>Stopping the bootstrap does nothing: its timers are not kept.\<close>

definition discovery_stop :: "discovery \<Rightarrow> discovery" where
  "discovery_stop d = (let d = d\<lparr>pexTimeout := False\<rparr>; d = d\<lparr>ds_mdns := mdns_stop (ds_mdns d)\<rparr> in pex_stop d)"

section \<open>What an advertisement tells\<close>

text \<open>The library carries a TXT record as strings \<^verbatim>\<open>key=value\<close>.\<close>

definition dns_txt :: "(string \<times> string) list \<Rightarrow> string list" where
  "dns_txt kvs = map (\<lambda>(k, v). k @ CHR ''='' # v) kvs"

lemma split_pair_txt:
  assumes "CHR ''='' \<notin> set k"
  shows "split_pair (k @ CHR ''='' # v) = (k, Some (takeWhile (\<lambda>c. c \<noteq> CHR ''='') v))"
proof -
  have all: "\<forall>c \<in> set k. c \<noteq> CHR ''=''" using assms by auto
  then have "takeWhile (\<lambda>c. c \<noteq> CHR ''='') (k @ CHR ''='' # v) = k" "dropWhile (\<lambda>c. c \<noteq> CHR ''='') (k @ CHR ''='' # v) = CHR ''='' # v"
    by (simp_all add: takeWhile_append2 dropWhile_append2)
  then show ?thesis by (simp add: split_pair_def)
qed

lemma parseInt_auto_show: "parseInt_auto (show_nat n) = int n"
proof -
  have ds: "\<forall>c \<in> set (show_nat n). is_digit c" using show_nat_digits [of n] by (simp add: list_all_iff)
  have space: "\<not> is_space c" if "is_digit c" for c using that by (auto simp: is_digit_def is_space_def)
  obtain c cs where s: "show_nat n = c # cs" using show_nat_nonempty [of n] by (cases "show_nat n") auto
  have dw: "dropWhile is_space (show_nat n) = c # cs" using ds space s by simp
  have "\<not> is_digit (CHR ''x'')" "\<not> is_digit (CHR ''X'')" by (simp_all add: is_digit_def)
  then have "d \<noteq> CHR ''x'' \<and> d \<noteq> CHR ''X''" if "cs = d # ds'" for d ds' using ds s that by auto
  then have "parseInt_auto (show_nat n) = parseInt (show_nat n)"
    by (cases cs) (auto simp: parseInt_auto_def dw)
  also have "\<dots> = int n" using parseInt_show_int [of "int n"] by (simp add: show_int_def)
  finally show ?thesis .
qed



section \<open>What peer exchange spreads\<close>

lemma peer_list_props:
  assumes "map_ok (st_peers st)"
  shows "length (peer_list_for me q st) \<le> 20" "distinct (map fst (peer_list_for me q st))"
    "(p, h, port) \<in> set (peer_list_for me q st) \<Longrightarrow> p \<noteq> q \<and> p \<noteq> me \<and>
      (\<exists>info. getPeer p st = Some info \<and> pi_host info = h \<and> pi_port info = port)"
proof -
  let ?f = "filter (\<lambda>(p, info). p \<noteq> q \<and> p \<noteq> me) (getPeerEntries st)"
  show "length (peer_list_for me q st) \<le> 20" by (simp add: peer_list_for_def)
  have "distinct (map fst ?f)" using assms by (simp add: getPeerEntries_def map_ok_def distinct_map_filter)
  then have "distinct (take 20 (map fst ?f))" by (rule distinct_take)
  moreover have "map fst (peer_list_for me q st) = take 20 (map fst ?f)"
    by (simp add: peer_list_for_def take_map comp_def case_prod_beta)
  ultimately show "distinct (map fst (peer_list_for me q st))" by simp
  show "p \<noteq> q \<and> p \<noteq> me \<and> (\<exists>info. getPeer p st = Some info \<and> pi_host info = h \<and> pi_port info = port)"
    if "(p, h, port) \<in> set (peer_list_for me q st)"
    using that map_ok_get_iff [OF assms]
    by (auto simp: peer_list_for_def getPeer_def getPeerEntries_def dest!: in_set_takeD)
qed

lemma pex_response_registry:
  fixes L :: "'m peers"
  assumes "peers_ok L"
  shows "peers_ok (fst (pex_handleResponse now me ps L)) \<and>
    registry_of (fst (pex_handleResponse now me ps L)) q =
      (if registry_of L q \<noteq> None \<or> q = me then registry_of L q
       else map_option (\<lambda>(h, port). \<lparr>pi_host = h, pi_port = port, lastSeen = now, pi_status = P_CONNECTING, lamportTime = 0\<rparr>)
         (map_get ps q))"
  using assms
proof (induction ps arbitrary: L)
  case (Cons x ps)
  obtain p h port where x: "x = (p, h, port)" by (cases x)
  let ?new = "\<lparr>pi_host = h, pi_port = port, lastSeen = now, pi_status = P_CONNECTING, lamportTime = 0\<rparr>"
  define L1 where "L1 = fst (if p \<noteq> me \<and> \<not> hasPeer p (pr_state L) then addPeer now p h port L else (L, []))"
  have has: "hasPeer p (pr_state L) \<longleftrightarrow> registry_of L p \<noteq> None" by (simp add: hasPeer_def registry_of_def getPeer_def)
  have L1: "peers_ok L1" "registry_of L1 = (if p \<noteq> me \<and> registry_of L p = None then (registry_of L)(p \<mapsto> ?new) else registry_of L)"
    using Cons.prems addPeer_ok [where L = L and now = now and p = p and h = h and port = port]
    by (auto simp: L1_def has)
  have "fst (pex_handleResponse now me (x # ps) L) = fst (pex_handleResponse now me ps L1)"
    by (simp add: x L1_def case_prod_beta)
  then show ?case using Cons.IH [OF L1(1)] by (cases "q = p"; cases "p = me"; cases "registry_of L p") (simp_all add: x L1(2))
qed simp



end
