(* ===== verification/AckManager.thy ===== *)
theory AckManager
  imports ConnectionPool Message Collector
begin

text \<open>
  Reliable delivery of critical messages, \<^verbatim>\<open>protocol/ackManager.js\<close>. A pending timer is a
  pair of its handle and the message id its callback closes over; the environment may fire
  any pending timer. Handlers return their effects: transmissions, which \<open>transmit\<close>
  performs on the pool, and the two delivery events.
\<close>

record ack_entry =
  ack_message :: message
  attempts :: nat
  ack_peers :: "peer_id list"
  startTime :: time
  ack_timer :: "nat option"

record ack_manager =
  pendingAcks :: "(string, ack_entry) jmap"
  timers_set :: "(nat \<times> string) list"
  next_handle :: nat

datatype ack_out = Transmit message "peer_id list" | Delivery_Confirmed string | Delivery_Failed string "peer_id list"

definition ack_init :: ack_manager where
  "ack_init = \<lparr>pendingAcks = [], timers_set = [], next_handle = 0\<rparr>"

definition startTimer :: "string \<Rightarrow> ack_manager \<Rightarrow> ack_manager" where
  "startTimer mid a =
    (case map_get (pendingAcks a) mid of
       None \<Rightarrow> a
     | Some entry \<Rightarrow>
         a\<lparr>pendingAcks := map_set (pendingAcks a) mid (entry\<lparr>ack_timer := Some (next_handle a)\<rparr>),
           timers_set := timers_set a @ [(next_handle a, mid)], next_handle := next_handle a + 1\<rparr>)"

definition sendWithAck ::
  "time \<Rightarrow> message \<Rightarrow> peer_id list \<Rightarrow> ack_manager \<Rightarrow> lamport_clock \<Rightarrow> ack_manager \<times> lamport_clock \<times> ack_out list" where
  "sendWithAck now m peers a clk =
    (let (m, clk) = (if lamportTimestamp m = 0 then (m\<lparr>lamportTimestamp := clk_value (tick clk)\<rparr>, tick clk) else (m, clk));
         entry = \<lparr>ack_message = m, attempts = 1, ack_peers = set_of_array peers, startTime = now, ack_timer = None\<rparr>;
         a = a\<lparr>pendingAcks := map_set (pendingAcks a) (msg_id m) entry\<rparr>
     in (startTimer (msg_id m) a, clk, [Transmit m peers]))"

definition handleTimeout :: "string \<Rightarrow> ack_manager \<Rightarrow> collector \<Rightarrow> ack_manager \<times> collector \<times> ack_out list" where
  "handleTimeout mid a col =
    (case map_get (pendingAcks a) mid of
       None \<Rightarrow> (a, col, [])
     | Some entry \<Rightarrow>
         if attempts entry \<ge> MAX_RETRY_ATTEMPTS then
           (a\<lparr>pendingAcks := map_delete (pendingAcks a) mid\<rparr>, increment ''delivery_failed_total'' col,
            [Delivery_Failed mid (ack_peers entry)])
         else
           (startTimer mid (a\<lparr>pendingAcks := map_set (pendingAcks a) mid (entry\<lparr>attempts := attempts entry + 1\<rparr>)\<rparr>),
            col, [Transmit (ack_message entry) (ack_peers entry)]))"

text \<open>A timer fires: it is no longer pending, and its callback runs.\<close>

definition fire_timer :: "nat \<Rightarrow> ack_manager \<Rightarrow> collector \<Rightarrow> ack_manager \<times> collector \<times> ack_out list" where
  "fire_timer h a col =
    (case map_get (timers_set a) h of
       None \<Rightarrow> (a, col, [])
     | Some mid \<Rightarrow> handleTimeout mid (a\<lparr>timers_set := map_delete (timers_set a) h\<rparr>) col)"

text \<open>
  \<^verbatim>\<open>payload.ackId\<close>; every failure to read it ends in the catch block, or in looking up an
  id that is not a string, and does nothing.
\<close>

definition ack_id :: "message \<Rightarrow> string option" where
  "ack_id m = (case json_parse (payload m) of Some (JObj fs) \<Rightarrow> str_field fs ''ackId'' | _ \<Rightarrow> None)"

definition receiveAck ::
  "time \<Rightarrow> rat \<Rightarrow> message \<Rightarrow> ack_manager \<Rightarrow> collector \<Rightarrow> ack_manager \<times> collector \<times> ack_out list" where
  "receiveAck now r ackMessage a col =
    (case ack_id ackMessage of
       None \<Rightarrow> (a, col, [])
     | Some mid \<Rightarrow>
         (case map_get (pendingAcks a) mid of
            None \<Rightarrow> (a, col, [])
          | Some entry \<Rightarrow>
              (let entry = entry\<lparr>ack_peers := set_delete (ack_peers entry) (sender ackMessage)\<rparr>
               in if ack_peers entry = [] then
                    (a\<lparr>pendingAcks := map_delete (pendingAcks a) mid,
                       timers_set := (case ack_timer entry of None \<Rightarrow> timers_set a | Some h \<Rightarrow> map_delete (timers_set a) h)\<rparr>,
                     increment ''delivery_confirmed_total''
                       (record_sample r ''message_latency_ms'' (now - startTime entry) col),
                     [Delivery_Confirmed mid])
                  else (a\<lparr>pendingAcks := map_set (pendingAcks a) mid entry\<rparr>, col, []))))"

text \<open>\<^verbatim>\<open>_transmit\<close>: a connected outbound client gets the message, else the pool broadcasts it.\<close>

fun transmit :: "'m \<Rightarrow> peer_id list \<Rightarrow> 'm pool \<Rightarrow> js_error + 'm pool \<times> 'm pool_out list" where
  "transmit m [] pool = Inr (pool, [])"
| "transmit m (p # ps) pool =
    (let direct = (case map_get (outboundConnections pool) p of Some c \<Rightarrow> isConnected c | None \<Rightarrow> False);
         excl = filter (\<lambda>q. q \<noteq> p) (map_keys (outboundConnections pool))
     in case (if direct then pool_send p m pool else pool_broadcast m excl pool) of
          Inl e \<Rightarrow> Inl e
        | Inr (pool, out) \<Rightarrow>
            (case transmit m ps pool of Inl e \<Rightarrow> Inl e | Inr (pool, outs) \<Rightarrow> Inr (pool, out @ outs)))"

section \<open>Runs and their invariant\<close>

datatype ack_event = Ack_In time rat message | Fire nat

fun ack_step :: "ack_event \<Rightarrow> ack_manager \<times> collector \<Rightarrow> (ack_manager \<times> collector) \<times> ack_out list" where
  "ack_step (Ack_In now r m) (a, col) = (case receiveAck now r m a col of (a, col, out) \<Rightarrow> ((a, col), out))"
| "ack_step (Fire h) (a, col) = (case fire_timer h a col of (a, col, out) \<Rightarrow> ((a, col), out))"

fun ack_run :: "ack_event list \<Rightarrow> ack_manager \<times> collector \<Rightarrow> (ack_manager \<times> collector) \<times> ack_out list" where
  "ack_run [] s = (s, [])"
| "ack_run (e # es) s = (case ack_step e s of (s, out) \<Rightarrow> case ack_run es s of (s, outs) \<Rightarrow> (s, out @ outs))"

text \<open>
  Every pending message has exactly one pending timer, the one it points to: \<open>skip\<close> is the
  message, if any, whose timer has just fired and has not been set again.
\<close>

definition timer_of :: "ack_manager \<Rightarrow> string \<Rightarrow> nat option" where
  "timer_of a mid = Option.bind (map_get (pendingAcks a) mid) ack_timer"

definition timers_ok :: "string option \<Rightarrow> ack_manager \<Rightarrow> bool" where
  "timers_ok skip a \<longleftrightarrow> map_ok (timers_set a) \<and>
    (\<forall>h i. map_get (timers_set a) h = Some i \<longrightarrow> h < next_handle a) \<and>
    (\<forall>h i. map_get (timers_set a) h = Some i \<longleftrightarrow> Some i \<noteq> skip \<and> timer_of a i = Some h)"

definition attempts_ok :: "string option \<Rightarrow> ack_manager \<Rightarrow> bool" where
  "attempts_ok skip a \<longleftrightarrow> (\<forall>i entry. map_get (pendingAcks a) i = Some entry \<longrightarrow>
     msg_id (ack_message entry) = i \<and>
     1 \<le> attempts entry \<and> attempts entry \<le> MAX_RETRY_ATTEMPTS \<and> (Some i \<noteq> skip \<longrightarrow> ack_timer entry \<noteq> None))"

definition ack_ok :: "ack_manager \<Rightarrow> bool" where
  "ack_ok a \<longleftrightarrow> timers_ok None a \<and> attempts_ok None a"

fun decides :: "string \<Rightarrow> ack_out \<Rightarrow> bool" where
  "decides mid (Delivery_Confirmed i) = (i = mid)"
| "decides mid (Delivery_Failed i ps) = (i = mid)"
| "decides mid (Transmit m ps) = False"

definition decisions :: "string \<Rightarrow> ack_out list \<Rightarrow> nat" where
  "decisions mid outs = length (filter (decides mid) outs)"

lemma startTimer_get:
  assumes "map_get (pendingAcks a) mid = Some entry"
  shows "map_get (pendingAcks (startTimer mid a)) i =
      (if i = mid then Some (entry\<lparr>ack_timer := Some (next_handle a)\<rparr>) else map_get (pendingAcks a) i)"
    "timers_set (startTimer mid a) = timers_set a @ [(next_handle a, mid)]"
    "next_handle (startTimer mid a) = next_handle a + 1"
  using assms by (simp_all add: startTimer_def map_get_set)

lemma startTimer_ok:
  assumes t: "timers_ok (Some mid) a" and at: "attempts_ok (Some mid) a"
    and e: "map_get (pendingAcks a) mid = Some entry"
  shows "ack_ok (startTimer mid a)"
proof -
  note get = startTimer_get [OF e]
  have tm: "timer_of (startTimer mid a) i = (if i = mid then Some (next_handle a) else timer_of a i)" for i
    by (simp add: timer_of_def get)
  have fresh: "map_get (timers_set a) (next_handle a) = None"
    using t unfolding timers_ok_def by (metis less_irrefl not_None_eq)
  then have "next_handle a \<notin> fst ` set (timers_set a)" by (simp add: map_of_eq_None_iff)
  then have ok: "map_ok (timers_set a @ [(next_handle a, mid)])"
    using t by (simp add: timers_ok_def map_ok_def)
  have tget: "map_get (timers_set a @ [(next_handle a, mid)]) h =
      (if h = next_handle a then Some mid else map_get (timers_set a) h)" for h
    using fresh by (simp add: map_add_def split: option.splits)
  have iff: "map_get (timers_set a) h = Some i \<longleftrightarrow> i \<noteq> mid \<and> timer_of a i = Some h" for h i
    using t unfolding timers_ok_def by auto
  have less: "map_get (timers_set a) h = Some i \<Longrightarrow> h < next_handle a" for h i
    using t unfolding timers_ok_def by blast
  have not_next: "i \<noteq> mid \<Longrightarrow> timer_of a i \<noteq> Some (next_handle a)" for i
    using iff [of "next_handle a" i] fresh by simp
  have "timers_ok None (startTimer mid a)"
    unfolding timers_ok_def get tget tm using ok less iff not_next by (auto simp: less_Suc_eq)
  moreover have "attempts_ok None (startTimer mid a)"
    using at e unfolding attempts_ok_def get by auto
  ultimately show ?thesis by (simp add: ack_ok_def)
qed

lemma ack_init_ok [simp]: "ack_ok ack_init"
  by (simp add: ack_ok_def ack_init_def timers_ok_def attempts_ok_def timer_of_def)

lemma sendWithAck_ok:
  assumes "ack_ok a" "map_get (pendingAcks a) (msg_id m) = None"
  shows "ack_ok (fst (sendWithAck now m peers a clk))"
proof -
  define m' where "m' = (if lamportTimestamp m = 0 then m\<lparr>lamportTimestamp := clk_value (tick clk)\<rparr> else m)"
  let ?entry = "\<lparr>ack_message = m', attempts = 1, ack_peers = set_of_array peers, startTime = now, ack_timer = None\<rparr>"
  let ?a = "a\<lparr>pendingAcks := map_set (pendingAcks a) (msg_id m) ?entry\<rparr>"
  have eq: "fst (sendWithAck now m peers a clk) = startTimer (msg_id m) ?a"
    by (simp add: sendWithAck_def m'_def)
  have none: "timer_of a (msg_id m) = None" using assms(2) by (simp add: timer_of_def)
  have tm: "timer_of ?a i = (if i = msg_id m then None else timer_of a i)" for i
    by (simp add: timer_of_def map_get_set)
  have "timers_ok (Some (msg_id m)) ?a"
    using assms(1) none unfolding ack_ok_def timers_ok_def tm by auto
  moreover have "attempts_ok (Some (msg_id m)) ?a"
    using assms(1) unfolding ack_ok_def attempts_ok_def by (auto simp: map_get_set m'_def)
  ultimately show ?thesis unfolding eq by (rule startTimer_ok) (simp add: map_get_set)
qed

lemma drop_entry_ok:
  assumes "ack_ok a" "map_get (pendingAcks a) mid = Some entry" "ack_timer entry = Some h"
  shows "ack_ok (a\<lparr>pendingAcks := map_delete (pendingAcks a) mid, timers_set := map_delete (timers_set a) h\<rparr>)"
proof -
  let ?a = "a\<lparr>pendingAcks := map_delete (pendingAcks a) mid, timers_set := map_delete (timers_set a) h\<rparr>"
  have tm: "timer_of ?a i = (if i = mid then None else timer_of a i)" for i
    by (simp add: timer_of_def map_get_delete)
  have iff: "map_get (timers_set a) h' = Some i \<longleftrightarrow> timer_of a i = Some h'" for h' i
    using assms(1) unfolding ack_ok_def timers_ok_def by simp
  have own: "timer_of a mid = Some h" using assms(2,3) by (simp add: timer_of_def)
  have "map_get (timers_set ?a) h' = Some i \<longleftrightarrow> timer_of ?a i = Some h'" for h' i
    using iff [of h' i] iff [of h mid] iff [of h i] iff [of h' mid] own by (auto simp: map_get_delete tm)
  moreover have "map_ok (timers_set ?a)" "\<And>h' i. map_get (timers_set ?a) h' = Some i \<Longrightarrow> h' < next_handle ?a"
    using assms(1) unfolding ack_ok_def timers_ok_def by (auto simp: map_get_delete split: if_splits)
  moreover have "attempts_ok None ?a"
    using assms(1) unfolding ack_ok_def attempts_ok_def by (auto simp: map_get_delete split: if_splits)
  ultimately show ?thesis by (simp add: ack_ok_def timers_ok_def)
qed

text \<open>What one event does to the tracking of one message.\<close>

definition fires :: "string \<Rightarrow> ack_manager \<Rightarrow> ack_event \<Rightarrow> bool" where
  "fires mid a ev = (case ev of Fire h \<Rightarrow> map_get (timers_set a) h = Some mid | Ack_In now r m \<Rightarrow> False)"

definition acked_by :: "string \<Rightarrow> ack_event \<Rightarrow> peer_id set" where
  "acked_by mid ev = (case ev of Ack_In now r m \<Rightarrow> (if ack_id m = Some mid then {sender m} else {}) | Fire h \<Rightarrow> {})"

definition retries :: "string \<Rightarrow> ack_out list \<Rightarrow> nat" where
  "retries mid outs = length (filter (\<lambda>x. case x of Transmit m ps \<Rightarrow> msg_id m = mid | _ \<Rightarrow> False) outs)"

lemma out_counts [simp]:
  "decisions mid [] = 0" "decisions mid (a @ b) = decisions mid a + decisions mid b"
  "decisions mid [Delivery_Confirmed i] = (if i = mid then 1 else 0)"
  "decisions mid [Delivery_Failed i ps] = (if i = mid then 1 else 0)" "decisions mid [Transmit m ps] = 0"
  "retries mid [] = 0" "retries mid (a @ b) = retries mid a + retries mid b"
  "retries mid [Delivery_Confirmed i] = 0" "retries mid [Delivery_Failed i ps] = 0"
  "retries mid [Transmit m ps] = (if msg_id m = mid then 1 else 0)"
  by (simp_all add: decisions_def retries_def)

definition tracked :: "string \<Rightarrow> ack_event \<Rightarrow> ack_manager \<Rightarrow> ack_manager \<Rightarrow> ack_out list \<Rightarrow> bool" where
  "tracked mid ev a a' out \<longleftrightarrow>
    (case map_get (pendingAcks a) mid of
       None \<Rightarrow> map_get (pendingAcks a') mid = None \<and> decisions mid out = 0 \<and> retries mid out = 0
     | Some e \<Rightarrow>
         (case map_get (pendingAcks a') mid of
            None \<Rightarrow> decisions mid out = 1 \<and> retries mid out = 0
              \<and> (Delivery_Confirmed mid \<in> set out \<longrightarrow> set (ack_peers e) \<subseteq> acked_by mid ev)
          | Some e' \<Rightarrow> decisions mid out = 0 \<and> retries mid out = (if fires mid a ev then 1 else 0)
              \<and> attempts e' = attempts e + (if fires mid a ev then 1 else 0)
              \<and> set (ack_peers e') = set (ack_peers e) - acked_by mid ev))"

lemma receiveAck_tracked:
  assumes "ack_ok a" "receiveAck now r m a col = (a', col', out)"
  shows "ack_ok a' \<and> tracked mid (Ack_In now r m) a a' out"
proof (cases "\<exists>i e. ack_id m = Some i \<and> map_get (pendingAcks a) i = Some e")
  case False
  then have "a' = a" "out = []" using assms(2) by (auto simp: receiveAck_def split: option.splits)
  moreover have "map_get (pendingAcks a) mid \<noteq> None \<Longrightarrow> ack_id m \<noteq> Some mid" using False by auto
  ultimately show ?thesis using assms(1)
    by (auto simp: tracked_def fires_def acked_by_def split: option.splits)
next
  case True
  then obtain i e where i: "ack_id m = Some i" "map_get (pendingAcks a) i = Some e" by blast
  obtain h where h: "ack_timer e = Some h" "msg_id (ack_message e) = i"
    using assms(1) i(2) unfolding ack_ok_def attempts_ok_def by fastforce
  show ?thesis
  proof (cases "set_delete (ack_peers e) (sender m) = []")
    case True
    then have "set (ack_peers e) \<subseteq> {sender m}" by (metis Diff_eq_empty_iff empty_set set_set_delete)
    moreover have "a' = a\<lparr>pendingAcks := map_delete (pendingAcks a) i, timers_set := map_delete (timers_set a) h\<rparr>"
      "out = [Delivery_Confirmed i]"
      using assms(2) i h True by (auto simp: receiveAck_def)
    ultimately show ?thesis using drop_entry_ok [OF assms(1) i(2) h(1)] i
      by (auto simp: tracked_def map_get_delete fires_def acked_by_def split: option.splits)
  next
    case False
    let ?e = "e\<lparr>ack_peers := set_delete (ack_peers e) (sender m)\<rparr>"
    have a': "a' = a\<lparr>pendingAcks := map_set (pendingAcks a) i ?e\<rparr>" and out: "out = []"
      using assms(2) i False by (auto simp: receiveAck_def)
    have "timer_of a' j = timer_of a j" for j using i by (simp add: a' timer_of_def map_get_set)
    then have "ack_ok a'" using assms(1) i unfolding ack_ok_def timers_ok_def attempts_ok_def
      by (auto simp: a' map_get_set)
    then show ?thesis using i out
      by (auto simp: a' tracked_def map_get_set fires_def acked_by_def split: option.splits)
  qed
qed

lemma fire_tracked:
  assumes "ack_ok a" "fire_timer h a col = (a', col', out)"
  shows "ack_ok a' \<and> tracked mid (Fire h) a a' out"
proof (cases "map_get (timers_set a) h")
  case None
  then show ?thesis using assms by (auto simp: fire_timer_def tracked_def fires_def acked_by_def split: option.splits)
next
  case (Some i)
  then have "timer_of a i = Some h" using assms(1) by (simp add: ack_ok_def timers_ok_def)
  then obtain e where e: "map_get (pendingAcks a) i = Some e" "ack_timer e = Some h"
    by (auto simp: timer_of_def bind_eq_Some_conv)
  let ?a1 = "a\<lparr>timers_set := map_delete (timers_set a) h\<rparr>"
  have eid: "msg_id (ack_message e) = i" "1 \<le> attempts e"
    using assms(1) e(1) by (auto simp: ack_ok_def attempts_ok_def)
  show ?thesis
  proof (cases "MAX_RETRY_ATTEMPTS \<le> attempts e")
    case True
    then have "a' = a\<lparr>pendingAcks := map_delete (pendingAcks a) i, timers_set := map_delete (timers_set a) h\<rparr>"
      "out = [Delivery_Failed i (ack_peers e)]"
      using assms(2) Some e by (auto simp: fire_timer_def handleTimeout_def)
    then show ?thesis using drop_entry_ok [OF assms(1) e] e
      by (auto simp: tracked_def map_get_delete fires_def acked_by_def Some split: option.splits)
  next
    case False
    let ?e = "e\<lparr>attempts := Suc (attempts e)\<rparr>"
    let ?a2 = "?a1\<lparr>pendingAcks := map_set (pendingAcks a) i ?e\<rparr>"
    have a': "a' = startTimer i ?a2" and out: "out = [Transmit (ack_message e) (ack_peers e)]"
      using assms(2) Some e False by (auto simp: fire_timer_def handleTimeout_def)
    have get: "map_get (pendingAcks ?a2) i = Some ?e" by (simp add: map_get_set)
    have tm: "timer_of ?a2 j = timer_of a j" for j using e by (simp add: timer_of_def map_get_set)
    have iff: "map_get (timers_set a) h' = Some j \<longleftrightarrow> timer_of a j = Some h'" for h' j
      using assms(1) unfolding ack_ok_def timers_ok_def by simp
    have "map_get (timers_set ?a2) h' = Some j \<longleftrightarrow> Some j \<noteq> Some i \<and> timer_of ?a2 j = Some h'" for h' j
      using iff [of h' j] iff [of h j] iff [of h' i] Some \<open>timer_of a i = Some h\<close> by (auto simp: map_get_delete tm)
    moreover have "map_ok (timers_set ?a2)" "\<And>h' j. map_get (timers_set ?a2) h' = Some j \<Longrightarrow> h' < next_handle ?a2"
      using assms(1) unfolding ack_ok_def timers_ok_def by (auto simp: map_get_delete split: if_splits)
    ultimately have t: "timers_ok (Some i) ?a2" unfolding timers_ok_def by simp
    have at: "attempts_ok (Some i) ?a2"
      using assms(1) False eid unfolding ack_ok_def attempts_ok_def by (auto simp: map_get_set)
    have "ack_ok a'" unfolding a' by (rule startTimer_ok [OF t at get])
    moreover have "map_get (pendingAcks a') j =
        (if j = i then Some (?e\<lparr>ack_timer := Some (next_handle a)\<rparr>) else map_get (pendingAcks a) j)" for j
      using startTimer_get(1) [OF get, of j] by (simp add: a' map_get_set)
    ultimately show ?thesis using e eid out
      by (auto simp: tracked_def fires_def acked_by_def Some split: option.splits)
  qed
qed

lemma ack_step_tracked:
  "ack_ok a \<Longrightarrow> ack_step ev (a, col) = ((a', col'), out) \<Longrightarrow> ack_ok a' \<and> tracked mid ev a a' out"
proof (cases ev)
  case (Ack_In now r m)
  assume "ack_ok a" "ack_step ev (a, col) = ((a', col'), out)"
  then show ?thesis using receiveAck_tracked [of a now r m col a' col' out mid]
    by (cases "receiveAck now r m a col") (simp add: Ack_In)
next
  case (Fire h)
  assume "ack_ok a" "ack_step ev (a, col) = ((a', col'), out)"
  then show ?thesis using fire_tracked [of a h col a' col' out mid]
    by (cases "fire_timer h a col") (simp add: Fire)
qed

fun fired :: "string \<Rightarrow> ack_event list \<Rightarrow> ack_manager \<times> collector \<Rightarrow> nat" where
  "fired mid [] s = 0"
| "fired mid (ev # evs) s = (if fires mid (fst s) ev then 1 else 0) + fired mid evs (fst (ack_step ev s))"

lemma ack_run_gone:
  "\<lbrakk>ack_ok a; map_get (pendingAcks a) mid = None; ack_run evs (a, col) = ((a', col'), outs)\<rbrakk> \<Longrightarrow>
    map_get (pendingAcks a') mid = None \<and> decisions mid outs = 0 \<and> retries mid outs = 0 \<and> Delivery_Confirmed mid \<notin> set outs"
proof (induction evs arbitrary: a col outs)
  case (Cons ev evs)
  obtain a1 col1 out1 where s: "ack_step ev (a, col) = ((a1, col1), out1)" by (metis surj_pair)
  obtain outs2 where r: "ack_run evs (a1, col1) = ((a', col'), outs2)" "outs = out1 @ outs2"
    using Cons.prems(3) s by (cases "ack_run evs (a1, col1)") auto
  have t: "ack_ok a1" "tracked mid ev a a1 out1" using ack_step_tracked [OF Cons.prems(1) s] by auto
  then have "map_get (pendingAcks a1) mid = None" "decisions mid out1 = 0" "retries mid out1 = 0"
    using Cons.prems(2) by (auto simp: tracked_def)
  moreover have "Delivery_Confirmed mid \<notin> set out1"
    using \<open>decisions mid out1 = 0\<close> by (force simp: decisions_def filter_empty_conv)
  ultimately show ?case using Cons.IH [OF t(1) _ r(1)] r(2) by auto
qed simp

lemma ack_run_tracked:
  "\<lbrakk>ack_ok a; map_get (pendingAcks a) mid = Some e; ack_run evs (a, col) = ((a', col'), outs)\<rbrakk> \<Longrightarrow>
    decisions mid outs = (if map_has (pendingAcks a') mid then 0 else 1) \<and>
    retries mid outs + attempts e \<le> MAX_RETRY_ATTEMPTS \<and>
    (MAX_RETRY_ATTEMPTS < fired mid evs (a, col) + attempts e \<longrightarrow> decisions mid outs = 1) \<and>
    (Delivery_Confirmed mid \<in> set outs \<longrightarrow> set (ack_peers e) \<subseteq> (\<Union>ev \<in> set evs. acked_by mid ev))"
proof (induction evs arbitrary: a col outs e)
  case Nil
  then have "attempts e \<le> MAX_RETRY_ATTEMPTS" unfolding ack_ok_def attempts_ok_def by blast
  then show ?case using Nil by auto
next
  case (Cons ev evs)
  obtain a1 col1 out1 where s: "ack_step ev (a, col) = ((a1, col1), out1)" by (metis surj_pair)
  obtain outs2 where r: "ack_run evs (a1, col1) = ((a', col'), outs2)" "outs = out1 @ outs2"
    using Cons.prems(3) s by (cases "ack_run evs (a1, col1)") auto
  have t: "ack_ok a1" "tracked mid ev a a1 out1" using ack_step_tracked [OF Cons.prems(1) s] by auto
  show ?case
  proof (cases "map_get (pendingAcks a1) mid")
    case None
    then have d: "decisions mid out1 = 1" "retries mid out1 = 0"
      "Delivery_Confirmed mid \<in> set out1 \<longrightarrow> set (ack_peers e) \<subseteq> acked_by mid ev"
      using t(2) Cons.prems(2) by (auto simp: tracked_def)
    moreover have "attempts e \<le> MAX_RETRY_ATTEMPTS"
      using Cons.prems(1,2) unfolding ack_ok_def attempts_ok_def by blast
    ultimately show ?thesis using ack_run_gone [OF t(1) None r(1)] r(2) by auto
  next
    case (Some e1)
    then have e1: "decisions mid out1 = 0" "retries mid out1 = (if fires mid a ev then 1 else 0)"
      "attempts e1 = attempts e + (if fires mid a ev then 1 else 0)"
      "set (ack_peers e1) = set (ack_peers e) - acked_by mid ev"
      using t(2) Cons.prems(2) by (auto simp: tracked_def)
    have "Delivery_Confirmed mid \<notin> set out1"
      using e1(1) by (force simp: decisions_def filter_empty_conv)
    then show ?thesis using Cons.IH [OF t(1) Some r(1)] e1 r(2) s by auto
  qed
qed

text \<open>
  C21: delivery tracking decides once: from the moment a message is sent for acknowledgement,
  over any interleaving of acknowledgements and timer firings, the message is sent again at
  most MAX_RETRY_ATTEMPTS - 1 times, exactly one of the confirmed and failed events is emitted
  and exactly when the message stops being tracked, that has happened once its timer fired
  MAX_RETRY_ATTEMPTS times, and it is confirmed only if every addressed peer acknowledged it.
\<close>

theorem delivery_decided_once:
  assumes "ack_ok a" "map_get (pendingAcks a) (msg_id m) = None"
    and "ack_run evs (fst (sendWithAck now m peers a clk), col) = ((a', col'), outs)"
  shows "decisions (msg_id m) outs = (if map_has (pendingAcks a') (msg_id m) then 0 else 1) \<and>
    retries (msg_id m) outs < MAX_RETRY_ATTEMPTS \<and>
    (MAX_RETRY_ATTEMPTS \<le> fired (msg_id m) evs (fst (sendWithAck now m peers a clk), col) \<longrightarrow> decisions (msg_id m) outs = 1) \<and>
    (Delivery_Confirmed (msg_id m) \<in> set outs \<longrightarrow> set peers \<subseteq> (\<Union>ev \<in> set evs. acked_by (msg_id m) ev))"
proof -
  define a0 where "a0 = fst (sendWithAck now m peers a clk)"
  have ok: "ack_ok a0" unfolding a0_def by (rule sendWithAck_ok [OF assms(1,2)])
  obtain e where e: "map_get (pendingAcks a0) (msg_id m) = Some e" "attempts e = 1" "set (ack_peers e) = set peers"
    by (cases "lamportTimestamp m = 0") (auto simp: a0_def sendWithAck_def startTimer_def map_get_set Let_def)
  show ?thesis
    using ack_run_tracked [OF ok e(1) assms(3) [folded a0_def]] e(2,3) unfolding a0_def [symmetric] by auto
qed

definition tracked_message :: message where
  "tracked_message = \<lparr>msg_id = ''m1'', msg_type = ''CHAT'', ttl = 10, lamportTimestamp = 1, sender = ''a'',
     senderPublicKey = None, msg_topic = ''global'', payload = ''hi'', createdAt = ''d'', powNonce = Some 0,
     routingPath = None, signature = None\<rparr>"

lemma tracked_run:
  "\<exists>a' col'. ack_run [Fire 0, Fire 1, Fire 2] (fst (sendWithAck 0 tracked_message [''b''] ack_init clock_init), collector_init)
    = ((a', col'), [Transmit tracked_message [''b''], Transmit tracked_message [''b''], Delivery_Failed ''m1'' [''b'']])"
  by (simp add: sendWithAck_def ack_init_def startTimer_def tracked_message_def fire_timer_def handleTimeout_def
      set_of_array_def set_add_def numeral_2_eq_2)

theorem delivery_decided_once_witness:
  "decisions ''m1'' [Transmit tracked_message [''b''], Transmit tracked_message [''b''], Delivery_Failed ''m1'' [''b'']] \<le> 1
    \<and> retries ''m1'' [Transmit tracked_message [''b''], Transmit tracked_message [''b''], Delivery_Failed ''m1'' [''b'']] < 3"
proof -
  have id: "msg_id tracked_message = ''m1''" by (simp add: tracked_message_def)
  obtain a' col' where r: "ack_run [Fire 0, Fire 1, Fire 2] (fst (sendWithAck 0 tracked_message [''b''] ack_init clock_init), collector_init)
    = ((a', col'), [Transmit tracked_message [''b''], Transmit tracked_message [''b''], Delivery_Failed ''m1'' [''b'']])"
    using tracked_run by blast
  from delivery_decided_once [OF ack_init_ok _ r] show ?thesis
    unfolding id by (simp add: ack_init_def split: if_splits)
qed

section \<open>Transmission\<close>

lemma pool_send_connected:
  assumes "pool_ok pool" "map_get (outboundConnections pool) p = Some c" "isConnected c"
  shows "\<exists>pool' outs. pool_send p m pool = Inr (pool', outs) \<and>
    (\<forall>q. on_wire q outs + queued q pool' = queued q pool + (if q = p then 1 else 0))"
proof -
  have ok: "client_ok c" using pool_okD [OF assms(1,2)] by simp
  show ?thesis
  proof (cases "ws c = Some OPEN")
    case True
    then show ?thesis using assms ok
      by (simp add: pool_send_def client_send_sent client_listeners_def sent_client_def on_wire_def queued_def map_get_set)
  next
    case False
    then show ?thesis using assms ok
      by (simp add: pool_send_def client_send_sent client_listeners_def sent_client_def on_wire_def queued_def map_get_set)
  qed
qed

text \<open>
  Transmission to a peer with a connected outbound client hands exactly one copy to that
  peer and none to anybody else; to any other peer it falls back to a broadcast that excludes
  only the other outbound peers, so every peer that is connected inbound only gets a copy too.
\<close>

theorem transmit_targets:
  assumes "pool_ok pool"
  shows "\<exists>pool' outs. transmit m [p] pool = Inr (pool', outs) \<and>
    (\<forall>q. on_wire q outs + queued q pool' = queued q pool +
      (if \<exists>c. map_get (outboundConnections pool) p = Some c \<and> isConnected c
       then (if q = p then 1 else 0)
       else if q = p \<or> \<not> map_has (outboundConnections pool) q then connections q pool else 0))"
proof (cases "\<exists>c. map_get (outboundConnections pool) p = Some c \<and> isConnected c")
  case True
  then obtain c where c: "map_get (outboundConnections pool) p = Some c" "isConnected c" by blast
  then show ?thesis using pool_send_connected [OF assms c, of m] by auto
next
  case False
  let ?excl = "filter (\<lambda>q. q \<noteq> p) (map_keys (outboundConnections pool))"
  have ex: "q \<in> set ?excl \<longleftrightarrow> q \<noteq> p \<and> map_has (outboundConnections pool) q" for q
    by (auto simp: map_of_eq_None_iff)
  obtain pool' outs where b: "pool_broadcast m ?excl pool = Inr (pool', outs)"
    "\<And>q. on_wire q outs + queued q pool' = queued q pool + (if q \<in> set ?excl then 0 else connections q pool)"
    using broadcast_counts [OF assms, of m ?excl] by blast
  have "transmit m [p] pool = Inr (pool', outs)"
    using False b(1) by (auto split: option.splits)
  then show ?thesis using False b(2) ex by (auto simp: map_of_eq_None_iff)
qed

theorem transmit_targets_witness:
  "\<exists>pool' outs. transmit tracked_message [''b''] \<lparr>pool_peerId = ''a'', pool_publicKey = None, outboundConnections = [], inboundConnections = [(''c'', 8)]\<rparr>
    = Inr (pool', outs) \<and> on_wire ''c'' outs + queued ''c'' pool' = 1"
proof -
  let ?pool = "\<lparr>pool_peerId = ''a'', pool_publicKey = None, outboundConnections = [], inboundConnections = [(''c'', 8)]\<rparr> :: message pool"
  have "pool_ok ?pool" by (simp add: pool_ok_def map_ok_def)
  from transmit_targets [OF this, of tracked_message "''b''"]
  obtain pool' outs where "transmit tracked_message [''b''] ?pool = Inr (pool', outs)"
    "on_wire ''c'' outs + queued ''c'' pool' = queued ''c'' ?pool + connections ''c'' ?pool" by auto
  then show ?thesis by (intro exI [of _ pool'] exI [of _ outs]) (simp add: queued_def connections_def)
qed

end
