(* ===== verification/Reporter.thy ===== *)
theory Reporter
  imports Collector Json
begin

text \<open>
  The metrics reporter of \<^verbatim>\<open>metrics/reporter.js\<close>: a logging interval and an HTTP server
  that answers three kinds of request from the shared collector. The response body is the
  JSON value the handler serialises; metric names are not integer-like, so that an object
  built from a map keeps its order.
\<close>

record reporter =
  rp_port :: nat
  rp_interval :: bool
  rp_server :: bool
  rp_startTime :: time

definition reporter_init :: "nat \<Rightarrow> time \<Rightarrow> reporter" where
  "reporter_init port now = \<lparr>rp_port = port, rp_interval = False, rp_server = False, rp_startTime = now\<rparr>"

definition reporter_start :: "reporter \<Rightarrow> reporter" where
  "reporter_start r = r\<lparr>rp_interval := True, rp_server := True\<rparr>"

text \<open>The interval is cleared and the server closed; the fields themselves are not reset.\<close>

definition reporter_stop :: "reporter \<Rightarrow> reporter" where
  "reporter_stop r = r\<lparr>rp_interval := False, rp_server := False\<rparr>"

definition snapshot_json :: "snapshot \<Rightarrow> json" where
  "snapshot_json s = JObj
    [(''counters'', JObj (map (\<lambda>(k, v). (k, JNum v)) (snap_counters s))),
     (''gauges'', JObj (map (\<lambda>(k, v). (k, JNum v)) (snap_gauges s))),
     (''histograms'', JObj (map (\<lambda>(k, p, n). (k, JObj
        [(''p50'', JNum (p50 p)), (''p95'', JNum (p95 p)), (''p99'', JNum (p99 p)), (''count'', JNum (int n))]))
        (snap_histograms s)))]"

definition gauge :: "collector \<Rightarrow> string \<Rightarrow> int" where
  "gauge c name = (case map_get (gauges c) name of None \<Rightarrow> 0 | Some v \<Rightarrow> v)"

text \<open>Status and body of the answer to a request.\<close>

definition http_response :: "reporter \<Rightarrow> time \<Rightarrow> collector \<Rightarrow> string \<Rightarrow> string \<Rightarrow> nat \<times> json option" where
  "http_response r now c url method =
    (if url = ''/metrics'' \<and> method = ''GET'' then (200, Some (snapshot_json (getSnapshot c)))
     else if url = ''/health'' \<and> method = ''GET'' then
       (200, Some (JObj [(''status'', JStr ''ok''), (''uptime'', JNum ((now - rp_startTime r) div 1000)),
                         (''active_peers'', JNum (gauge c ''active_peers''))]))
     else (404, None))"

lemma get_map_json: "map_get (map (\<lambda>(k, v). (k, JNum v)) xs) n = map_option JNum (map_get xs n)"
  by (induction xs) auto

text \<open>What a scraper reads from the served snapshot is the collector's counter.\<close>

theorem scraped_counter:
  "\<exists>fs cs. http_response r now c ''/metrics'' ''GET'' = (200, Some (JObj fs))
    \<and> map_get fs ''counters'' = Some (JObj cs) \<and> map_get cs n = map_option JNum (map_get (counters c) n)"
  by (simp add: http_response_def snapshot_json_def getSnapshot_def get_map_json)

end
