(* ===== verification/AiClient.thy ===== *)
theory AiClient
  imports Message
begin

text \<open>
  The client of the summarisation service, \<^verbatim>\<open>ai/aiClient.js\<close>. \<^verbatim>\<open>fetch\<close> is a parameter:
  what the service, or the failure to reach it, gives for a URL and a request body. The
  timer that aborts a request is part of that environment; every way out of the function
  clears it.
\<close>

text \<open>The request failed (refused, or aborted by the timer), or a response with its status flag and parsed body.\<close>

datatype fetch_result = Fetch_Failed | Fetch_Aborted | Response bool "json option"

definition ai_base :: "string \<Rightarrow> string" where
  "ai_base url = (if url \<noteq> [] \<and> last url = CHR ''/'' then butlast url else url)"

definition ai_payload :: "topic_name \<Rightarrow> string \<Rightarrow> message list \<Rightarrow> json" where
  "ai_payload tp mode ms = JObj
    [(''topic'', JStr tp), (''mode'', JStr mode),
     (''messages'', JArr (map (\<lambda>m. JObj
        [(''id'', JStr (msg_id m)), (''sender'', JStr (sender m)),
         (''topic'', JStr (if msg_topic m \<noteq> [] then msg_topic m else tp)),
         (''payload'', JStr (payload m)), (''createdAt'', JStr (createdAt m))]) ms))]"

fun json_truthy :: "json \<Rightarrow> bool" where
  "json_truthy JNull = False"
| "json_truthy (JBool b) = b"
| "json_truthy (JNum i) = (i \<noteq> 0)"
| "json_truthy (JStr s) = (s \<noteq> [])"
| "json_truthy _ = True"

text \<open>\<^verbatim>\<open>data.summary || null\<close>; reading a field of null throws, which is caught.\<close>

definition ai_reply :: "fetch_result \<Rightarrow> json option" where
  "ai_reply r = (case r of
     Response ok (Some (JObj fs)) \<Rightarrow>
       (if \<not> ok then None
        else case map_get fs ''summary'' of
               None \<Rightarrow> None
             | Some v \<Rightarrow> (if json_truthy v then Some v else None))
   | _ \<Rightarrow> None)"

definition summarizeMessages ::
  "string \<Rightarrow> (string \<Rightarrow> string \<Rightarrow> fetch_result) \<Rightarrow> topic_name \<Rightarrow> string \<Rightarrow> message list \<Rightarrow> json option" where
  "summarizeMessages url fetch tp mode ms =
    (if ms = [] then None
     else ai_reply (fetch (ai_base url @ ''/summarize'') (stringify (ai_payload tp mode ms))))"

lemma summary_from_service:
  "summarizeMessages url fetch tp mode ms = Some v \<Longrightarrow>
    ms \<noteq> [] \<and> json_truthy v \<and> (\<exists>fs. fetch (ai_base url @ ''/summarize'') (stringify (ai_payload tp mode ms))
      = Response True (Some (JObj fs)) \<and> map_get fs ''summary'' = Some v)"
  by (auto simp: summarizeMessages_def ai_reply_def split: fetch_result.splits json.splits option.splits if_splits)

end
