(* ===== verification/Node.thy ===== *)
theory Node
  imports Discovery WSServer AckManager Reporter AiClient
begin

text \<open>
  The orchestrator of \<^verbatim>\<open>node/index.js\<close>: the state of all components side by side and the
  handlers that connect them. The metrics collector and the message factory are process-wide
  singletons of the code: the engine's collector and the sync manager's factory are the ones
  every operation goes through here (\<open>on_peers\<close>, \<open>on_sync\<close>). Handlers return an
  outcome, the node and what leaves it: effects of the pool, events for the application and
  requests to the summarisation service. An async listener runs to its end, or to the point
  where it waits for an acknowledgement, before the next event.
\<close>

record node_env =
  ne_env :: env
  ne_batch :: "nat \<Rightarrow> env"
  ne_sync :: sync_env
  ne_rnd :: rat

record 'd node =
  nd_peerId :: peer_id
  nd_autoSummary :: bool
  nd_enableDiscovery :: bool
  nd_enableMetrics :: bool
  nd_open :: bool
  nd_stored :: bool
  nd_engine :: engine
  nd_peers :: "wire peers"
  nd_acks :: ack_manager
  nd_sync :: "'d sync_state"
  nd_server :: server
  nd_discovery :: discovery
  nd_reporter :: reporter
  localSubscriptions :: "topic_name list"
  localSequences :: "(topic_name, int) jmap"
  newMessagesCounter :: "(topic_name, nat) jmap"
  activeSummarizations :: "topic_name list"
  gcInterval :: bool
  refreshInterval :: bool

datatype node_out =
    Net "wire pool_out"
  | Life "wire peer_out"
  | App_Message message
  | App_Confirmed string
  | App_Failed string "peer_id list"
  | Ai_Request topic_name string "message list"

datatype incoming = In_Null | In_Hello peer_id "string option" "topic_name list option" | In_Wire wire

section \<open>Frames\<close>

fun json_peers :: "json list \<Rightarrow> (peer_id \<times> string \<times> nat) list option" where
  "json_peers [] = Some []"
| "json_peers (j # js) =
    (case (json_field ''peerId'' j, json_field ''host'' j, json_field ''port'' j) of
       (Some (JStr p), Some (JStr h), Some (JNum n)) \<Rightarrow> map_option ((#) (p, h, nat n)) (json_peers js)
     | _ \<Rightarrow> None)"

text \<open>
  How the handler reads a parsed frame, by its type; \<^const>\<open>None\<close> for fields of other types
  than the program writes, on which the typed model stops.
\<close>

definition incoming_of_json :: "json \<Rightarrow> incoming option" where
  "incoming_of_json j =
    (if j = JNull then Some In_Null
     else if json_field ''type'' j = Some (JStr ''HELLO'') then
       (case json_field ''peerId'' j of
          Some (JStr p) \<Rightarrow>
            (let key = (case json_field ''publicKey'' j of Some (JStr k) \<Rightarrow> Some k | _ \<Rightarrow> None)
             in case json_field ''subscriptions'' j of
                  Some (JArr js) \<Rightarrow> map_option (\<lambda>ts. In_Hello p key (Some ts)) (json_strs js)
                | _ \<Rightarrow> Some (In_Hello p key None))
        | _ \<Rightarrow> None)
     else if json_field ''type'' j = Some (JStr ''PEER_EXCHANGE'') then
       (case json_field ''requestingPeerId'' j of
          Some (JStr p) \<Rightarrow> Some (In_Wire (W_Pex_Request p))
        | _ \<Rightarrow> map_option (\<lambda>m. In_Wire (W_Message m)) (message_of_json j))
     else if json_field ''type'' j = Some (JStr ''PEER_LIST'') then
       (case json_field ''peers'' j of
          Some (JArr js) \<Rightarrow> map_option (\<lambda>ps. In_Wire (W_Peer_List ps)) (json_peers js)
        | _ \<Rightarrow> Some (In_Wire (W_Peer_List [])))
     else map_option (\<lambda>m. In_Wire (W_Message m)) (message_of_json j))"

section \<open>Running a component inside the node\<close>

definition on_peers :: "(wire peers \<Rightarrow> js_error + wire peers \<times> 'o list) \<Rightarrow> 'd node \<Rightarrow> js_error + 'd node \<times> 'o list" where
  "on_peers f n =
    (case f ((nd_peers n)\<lparr>pr_metrics := metrics (nd_engine n)\<rparr>) of
       Inl x \<Rightarrow> Inl x
     | Inr (L, out) \<Rightarrow> Inr (n\<lparr>nd_peers := L, nd_engine := (nd_engine n)\<lparr>metrics := pr_metrics L\<rparr>\<rparr>, out))"

definition on_sync :: "('d sync_state \<Rightarrow> 'd sync_state \<times> sync_out list) \<Rightarrow> 'd node \<Rightarrow> 'd node \<times> sync_out list" where
  "on_sync f n =
    (case f ((nd_sync n)\<lparr>sy_store := (sy_store (nd_sync n))\<lparr>store_metrics := metrics (nd_engine n)\<rparr>\<rparr>) of
       (y, out) \<Rightarrow> (n\<lparr>nd_sync := y, nd_engine := (nd_engine n)\<lparr>metrics := store_metrics (sy_store y)\<rparr>\<rparr>, out))"

definition on_store :: "('d store \<Rightarrow> 'd store) \<Rightarrow> 'd node \<Rightarrow> 'd node" where
  "on_store f n = fst (on_sync (\<lambda>y. (y\<lparr>sy_store := f (sy_store y)\<rparr>, [])) n)"

text \<open>The node's listeners on the pool: a peer that is gone loses its routes.\<close>

fun pool_listener :: "wire pool_out \<Rightarrow> routes \<Rightarrow> routes" where
  "pool_listener (Peer_Disconnected p) rs = clearRoutesForPeer p rs"
| "pool_listener (Peer_Failed p) rs = clearRoutesForPeer p rs"
| "pool_listener _ rs = rs"

definition set_router :: "routes \<Rightarrow> 'd node \<Rightarrow> 'd node" where
  "set_router rs n = n\<lparr>nd_engine := (nd_engine n)\<lparr>topicRouter := rs\<rparr>\<rparr>"

definition heard :: "wire pool_out list \<Rightarrow> 'd node \<Rightarrow> 'd node" where
  "heard outs n = set_router (fold pool_listener outs (topicRouter (nd_engine n))) n"

definition pool_do ::
  "(wire pool \<Rightarrow> js_error + wire pool \<times> wire pool_out list) \<Rightarrow> 'd node \<Rightarrow> outcome \<times> 'd node \<times> node_out list" where
  "pool_do f n =
    (case f (pr_pool (nd_peers n)) of
       Inl x \<Rightarrow> (Threw x, n, [])
     | Inr (pool, out) \<Rightarrow> (Done, heard out (n\<lparr>nd_peers := (nd_peers n)\<lparr>pr_pool := pool\<rparr>\<rparr>), map Net out))"

definition pool_events :: "'m peer_out list \<Rightarrow> 'm pool_out list" where
  "pool_events outs = List.map_filter (\<lambda>x. case x of Pool_Event e \<Rightarrow> Some e | _ \<Rightarrow> None) outs"

definition peers_do ::
  "(wire peers \<Rightarrow> js_error + wire peers \<times> wire peer_out list) \<Rightarrow> 'd node \<Rightarrow> outcome \<times> 'd node \<times> node_out list" where
  "peers_do f n =
    (case on_peers f n of
       Inl x \<Rightarrow> (Threw x, n, [])
     | Inr (n, out) \<Rightarrow> (Done, heard (pool_events out) n, map Life out))"

definition and_then ::
  "outcome \<times> 'n \<times> 'o list \<Rightarrow> ('n \<Rightarrow> outcome \<times> 'n \<times> 'o list) \<Rightarrow> outcome \<times> 'n \<times> 'o list" where
  "and_then r f =
    (case r of (res, n, out) \<Rightarrow>
       if res \<noteq> Done then r else case f n of (res, n, outs) \<Rightarrow> (res, n, out @ outs))"

fun sync_sends :: "sync_out list \<Rightarrow> 'd node \<Rightarrow> outcome \<times> 'd node \<times> node_out list" where
  "sync_sends [] n = (Done, n, [])"
| "sync_sends (Sync_Send p m # outs) n = and_then (pool_do (pool_send p (W_Message m)) n) (sync_sends outs)"

section \<open>Summaries\<close>

text \<open>The loop of \<^verbatim>\<open>getRecentMessages\<close>; a value that does not parse ends it.\<close>

fun collect_chats :: "(string \<times> string) list \<Rightarrow> message list" where
  "collect_chats [] = []"
| "collect_chats ((k, v) # rest) =
    (case parse_message v of
       None \<Rightarrow> []
     | Some m \<Rightarrow> (if msg_type m = ''CHAT'' then [m] else []) @ collect_chats rest)"

definition last_n :: "nat \<Rightarrow> 'a list \<Rightarrow> 'a list" where
  "last_n k xs = (if k = 0 then xs else drop (length xs - k) xs)"

definition getRecentMessages :: "'d level \<Rightarrow> io_result \<Rightarrow> topic_name \<Rightarrow> nat \<Rightarrow> 'd node \<Rightarrow> message list \<times> 'd node" where
  "getRecentMessages lv io tp limit n =
    (if \<not> nd_stored n then ([], n)
     else
       let n = on_store (store_flush lv io) n;
           entries = lv_iterate lv (store_db (sy_store (nd_sync n))) (''msg:'' @ tp @ '':'') (''msg:'' @ tp @ '':~'')
       in (last_n limit (collect_chats entries), n))"

text \<open>
  \<^verbatim>\<open>generateAndBroadcastSummary\<close> up to the request to the service; the topic stays in
  \<open>activeSummarizations\<close> until the reply, or the failure, has been handled.
\<close>

definition summary_request :: "'d level \<Rightarrow> io_result \<Rightarrow> topic_name \<Rightarrow> string \<Rightarrow> 'd node \<Rightarrow> 'd node \<times> node_out list" where
  "summary_request lv io tp mode n =
    (if tp \<in> set (activeSummarizations n) then (n, [])
     else
       let n = n\<lparr>activeSummarizations := set_add (activeSummarizations n) tp\<rparr>;
           (ms, n) = getRecentMessages lv io tp 25 n
       in if ms = [] then (n\<lparr>activeSummarizations := set_delete (activeSummarizations n) tp\<rparr>, [])
          else (n, [Ai_Request tp mode ms]))"

definition on_message_new :: "'d level \<Rightarrow> io_result \<Rightarrow> message \<Rightarrow> 'd node \<Rightarrow> 'd node \<times> node_out list" where
  "on_message_new lv io m n =
    (if msg_type m = ''SUB_AD'' then (n, [])
     else
       let n = on_store (save lv io m) n
       in if msg_type m = ''CHAT'' \<and> nd_autoSummary n then
            let count = (case map_get (newMessagesCounter n) (msg_topic m) of None \<Rightarrow> 0 | Some c \<Rightarrow> c) + 1;
                n = n\<lparr>newMessagesCounter := map_set (newMessagesCounter n) (msg_topic m) count\<rparr>
            in if count \<ge> 20 then
                 (case summary_request lv io (msg_topic m) ''summary''
                         (n\<lparr>newMessagesCounter := map_set (newMessagesCounter n) (msg_topic m) 0\<rparr>) of
                    (n, out) \<Rightarrow> (n, App_Message m # out))
               else (n, [App_Message m])
          else (n, [App_Message m]))"

section \<open>Gossip\<close>

fun engine_effects :: "'d level \<Rightarrow> io_result \<Rightarrow> engine_out list \<Rightarrow> 'd node \<Rightarrow> outcome \<times> 'd node \<times> node_out list" where
  "engine_effects lv io [] n = (Done, n, [])"
| "engine_effects lv io (Broadcast m excl # xs) n =
    and_then (pool_do (pool_broadcast (W_Message m) excl) n) (engine_effects lv io xs)"
| "engine_effects lv io (New_Message m # xs) n =
    (case on_message_new lv io m n of (n, out) \<Rightarrow> and_then (Done, n, out) (engine_effects lv io xs))"
| "engine_effects lv io (Limiter _ # xs) n = engine_effects lv io xs n"

definition gossip ::
  "sodium \<Rightarrow> 'd level \<Rightarrow> node_env \<Rightarrow> message \<Rightarrow> peer_id option \<Rightarrow> 'd node \<Rightarrow> outcome \<times> 'd node \<times> node_out list" where
  "gossip s lv ev m frm n =
    (case receiveMessage s (ne_env ev) (nd_peerId n) (getAllPeerIds (pr_pool (nd_peers n))) m frm (nd_engine n) of
       (r, e, out) \<Rightarrow>
         (case engine_effects lv (se_io (ne_sync ev)) out (n\<lparr>nd_engine := e\<rparr>) of
            (r', n, outs) \<Rightarrow> (if r' \<noteq> Done then r' else r, n, outs)))"

definition sign_with :: "sodium \<Rightarrow> message \<Rightarrow> 'd node \<Rightarrow> message" where
  "sign_with s m n = (case securityManager (nd_engine n) of None \<Rightarrow> m | Some sec \<Rightarrow> signOutgoingMessage s sec m)"

definition own_key :: "'d node \<Rightarrow> string option" where
  "own_key n = map_option (\<lambda>sec. getPublicKey (keyManager sec)) (securityManager (nd_engine n))"

text \<open>Run a factory constructor on the process's factory.\<close>

definition made :: "(factory \<Rightarrow> message \<times> factory) \<Rightarrow> 'd node \<Rightarrow> message \<times> 'd node" where
  "made c n = (case c (sy_factory (nd_sync n)) of (m, f) \<Rightarrow> (m, n\<lparr>nd_sync := (nd_sync n)\<lparr>sy_factory := f\<rparr>\<rparr>))"

text \<open>
  The reply of the service, \<^const>\<open>None\<close> for every failure of the request; a failure while the
  summary is gossiped is caught, and the topic is released in every case.
\<close>

definition summary_reply ::
  "sodium \<Rightarrow> 'd level \<Rightarrow> node_env \<Rightarrow> topic_name \<Rightarrow> string \<Rightarrow> nat \<Rightarrow> string option \<Rightarrow> 'd node \<Rightarrow> 'd node \<times> node_out list" where
  "summary_reply s lv ev tp mode count reply n =
    (let (n, out) =
       (if truthy reply then
          let (m, n) = made (createSummary (se_uid (ne_sync ev)) (se_date (ne_sync ev)) (nd_peerId n) tp (the reply)
                 [(''mode'', JStr mode), (''messageCount'', JNum (int count))] (own_key n)) n;
              (r, n, out) = gossip s lv ev (sign_with s m n) None n
          in (n, out)
        else (n, []))
     in (n\<lparr>activeSummarizations := set_delete (activeSummarizations n) tp\<rparr>, out))"

text \<open>
  The whole of \<^verbatim>\<open>generateAndBroadcastSummary\<close> for a service that answers before the next
  event; the service's summary is a string.
\<close>

definition generateAndBroadcastSummary ::
  "sodium \<Rightarrow> 'd level \<Rightarrow> node_env \<Rightarrow> string \<Rightarrow> (string \<Rightarrow> string \<Rightarrow> fetch_result) \<Rightarrow> topic_name \<Rightarrow> string \<Rightarrow> 'd node
    \<Rightarrow> 'd node \<times> node_out list" where
  "generateAndBroadcastSummary s lv ev url fetch tp mode n =
    (case summary_request lv (se_io (ne_sync ev)) tp mode n of
       (n, [Ai_Request tp mode ms]) \<Rightarrow>
         (let reply = Option.bind (summarizeMessages url fetch tp mode ms) json_str;
              (n, out) = summary_reply s lv ev tp mode (length ms) reply n
          in (n, Ai_Request tp mode ms # out))
     | (n, out) \<Rightarrow> (n, out))"

section \<open>What the application calls\<close>

text \<open>\<^verbatim>\<open>String.trim\<close> on code units below 256.\<close>

definition js_white :: "char \<Rightarrow> bool" where
  "js_white c \<longleftrightarrow> (of_char c :: nat) \<in> {9, 10, 11, 12, 13, 32, 160}"

definition trim :: "string \<Rightarrow> string" where
  "trim s = rev (dropWhile js_white (rev (dropWhile js_white s)))"

definition starts_with :: "string \<Rightarrow> string \<Rightarrow> bool" where
  "starts_with p s \<longleftrightarrow> take (length p) s = p"

definition publish ::
  "sodium \<Rightarrow> 'd level \<Rightarrow> node_env \<Rightarrow> topic_name \<Rightarrow> string \<Rightarrow> 'd node \<Rightarrow> string \<times> outcome \<times> 'd node \<times> node_out list" where
  "publish s lv ev tp content n =
    (if starts_with ''/summary'' (trim content) \<or> starts_with ''/keypoints'' (trim content) then
       let mode = (if starts_with ''/keypoints'' (trim content) then ''keypoints'' else ''summary'')
       in (''cmd-'' @ show_int (se_now (ne_sync ev)), Done, summary_request lv (se_io (ne_sync ev)) tp mode n)
     else
       let (m, n) = made (createChat (se_uid (ne_sync ev)) (se_date (ne_sync ev)) (nd_peerId n) content tp (own_key n)) n
       in (msg_id m, gossip s lv ev (sign_with s m n) None n))"

definition sendDM ::
  "sodium \<Rightarrow> 'd level \<Rightarrow> node_env \<Rightarrow> peer_id \<Rightarrow> string \<Rightarrow> 'd node \<Rightarrow> string \<times> outcome \<times> 'd node \<times> node_out list" where
  "sendDM s lv ev p content n = publish s lv ev (dm_topic p) content n"

definition sequence_of :: "topic_name \<Rightarrow> 'd node \<Rightarrow> int" where
  "sequence_of tp n = (case map_get (localSequences n) tp of None \<Rightarrow> 0 | Some q \<Rightarrow> q)"

definition advertise :: "sodium \<Rightarrow> 'd level \<Rightarrow> node_env \<Rightarrow> topic_name \<Rightarrow> string \<Rightarrow> 'd node \<Rightarrow> outcome \<times> 'd node \<times> node_out list" where
  "advertise s lv ev tp action n =
    (let seq = sequence_of tp n + 1;
         n = n\<lparr>localSequences := map_set (localSequences n) tp seq\<rparr>;
         (m, n) = made (createSubAd (se_uid (ne_sync ev)) (se_date (ne_sync ev)) (nd_peerId n) tp seq action [] (own_key n)) n
     in gossip s lv ev (sign_with s m n) None n)"

fun refresh_loop :: "sodium \<Rightarrow> 'd level \<Rightarrow> (nat \<Rightarrow> node_env) \<Rightarrow> nat \<Rightarrow> topic_name list \<Rightarrow> 'd node \<Rightarrow> outcome \<times> 'd node \<times> node_out list" where
  "refresh_loop s lv evs i [] n = (Done, n, [])"
| "refresh_loop s lv evs i (t # ts) n = and_then (advertise s lv (evs i) t ''JOIN'' n) (refresh_loop s lv evs (Suc i) ts)"

definition refreshSubscriptions :: "sodium \<Rightarrow> 'd level \<Rightarrow> (nat \<Rightarrow> node_env) \<Rightarrow> 'd node \<Rightarrow> outcome \<times> 'd node \<times> node_out list" where
  "refreshSubscriptions s lv evs n = refresh_loop s lv evs 0 (localSubscriptions n) n"

definition node_subscribe :: "sodium \<Rightarrow> 'd level \<Rightarrow> node_env \<Rightarrow> topic_name \<Rightarrow> 'd node \<Rightarrow> outcome \<times> 'd node \<times> node_out list" where
  "node_subscribe s lv ev tp n =
    (if tp \<in> set (localSubscriptions n) then (Done, n, [])
     else advertise s lv ev tp ''JOIN'' (n\<lparr>localSubscriptions := set_add (localSubscriptions n) tp\<rparr>))"

definition node_unsubscribe :: "sodium \<Rightarrow> 'd level \<Rightarrow> node_env \<Rightarrow> topic_name \<Rightarrow> 'd node \<Rightarrow> outcome \<times> 'd node \<times> node_out list" where
  "node_unsubscribe s lv ev tp n =
    (if tp \<notin> set (localSubscriptions n) then (Done, n, [])
     else advertise s lv ev tp ''LEAVE'' (n\<lparr>localSubscriptions := set_delete (localSubscriptions n) tp\<rparr>))"

section \<open>What the network delivers\<close>

definition register_subscriptions :: "peer_id \<Rightarrow> time \<Rightarrow> topic_name list \<Rightarrow> routes \<Rightarrow> routes" where
  "register_subscriptions p now topics rs =
    foldl (\<lambda>rs t. snd (updateRoute t p p 0 0 [] (At (now + ROUTE_LEASE_MS)) rs)) rs topics"

definition start_sync :: "'d level \<Rightarrow> node_env \<Rightarrow> peer_id \<Rightarrow> 'd node \<Rightarrow> outcome \<times> 'd node \<times> node_out list" where
  "start_sync lv ev p n =
    (case on_sync (onPeerReconnected lv (nd_open n) (nd_peerId n) (ne_sync ev) (topicRouter (nd_engine n)) p) n of
       (n, sends) \<Rightarrow> sync_sends sends n)"

definition node_hello ::
  "'d level \<Rightarrow> node_env \<Rightarrow> peer_id \<Rightarrow> string option \<Rightarrow> topic_name list option \<Rightarrow> 'd node \<Rightarrow> outcome \<times> 'd node \<times> node_out list" where
  "node_hello lv ev p key subs n =
    (let e = nd_engine n;
         n = n\<lparr>nd_engine := e\<lparr>securityManager := map_option (registerPeerKey p key) (securityManager e)\<rparr>\<rparr>
     in and_then (peers_do (\<lambda>L. Inr (updateHeartbeat (se_now (ne_sync ev)) p None L)) n)
          (\<lambda>n. let n = (case subs of None \<Rightarrow> n | Some ts \<Rightarrow>
                   set_router (register_subscriptions p (se_now (ne_sync ev)) ts (topicRouter (nd_engine n))) n)
               in start_sync lv ev p n))"

text \<open>An inbound connection that has greeted: \<^verbatim>\<open>wsServer.on('connection')\<close>.\<close>

definition node_inbound :: "'d level \<Rightarrow> node_env \<Rightarrow> peer_id \<Rightarrow> nat \<Rightarrow> topic_name list \<Rightarrow> 'd node \<Rightarrow> outcome \<times> 'd node \<times> node_out list" where
  "node_inbound lv ev p sock subs n =
    and_then (pool_do (\<lambda>pool. Inr (addInboundConnection p sock subs pool)) n)
      (\<lambda>n. start_sync lv ev p
         (set_router (register_subscriptions p (se_now (ne_sync ev)) subs (topicRouter (nd_engine n))) n))"

definition ack_events :: "ack_out list \<Rightarrow> node_out list" where
  "ack_events outs = List.map_filter (\<lambda>x. case x of
     Delivery_Confirmed i \<Rightarrow> Some (App_Confirmed i) | Delivery_Failed i ps \<Rightarrow> Some (App_Failed i ps) | _ \<Rightarrow> None) outs"

definition node_ack :: "node_env \<Rightarrow> message \<Rightarrow> 'd node \<Rightarrow> outcome \<times> 'd node \<times> node_out list" where
  "node_ack ev m n =
    (case receiveAck (se_now (ne_sync ev)) (ne_rnd ev) m (nd_acks n) (metrics (nd_engine n)) of
       (a, col, outs) \<Rightarrow> (Done, n\<lparr>nd_acks := a, nd_engine := (nd_engine n)\<lparr>metrics := col\<rparr>\<rparr>, ack_events outs))"

definition node_sync_batch ::
  "sodium \<Rightarrow> 'd level \<Rightarrow> node_env \<Rightarrow> message \<Rightarrow> peer_id \<Rightarrow> 'd node \<Rightarrow> outcome \<times> 'd node \<times> node_out list" where
  "node_sync_batch s lv ev m frm n =
    (case receiveSyncBatch s (ne_batch ev) (se_uid (ne_sync ev)) (se_date (ne_sync ev)) (nd_peerId n)
            (getAllPeerIds (pr_pool (nd_peers n))) m frm (nd_engine n, sy_factory (nd_sync n)) of
       (r, (e, f), out, sends) \<Rightarrow>
         and_then (engine_effects lv (se_io (ne_sync ev)) out (n\<lparr>nd_engine := e, nd_sync := (nd_sync n)\<lparr>sy_factory := f\<rparr>\<rparr>))
           (\<lambda>n. and_then (r, n, []) (sync_sends sends)))"

definition node_sync_ack :: "'d level \<Rightarrow> node_env \<Rightarrow> message \<Rightarrow> peer_id \<Rightarrow> 'd node \<Rightarrow> outcome \<times> 'd node \<times> node_out list" where
  "node_sync_ack lv ev m frm n =
    (case receiveSyncAck lv (nd_open n) (nd_peerId n) (ne_sync ev) m frm (nd_sync n) of
       Inl x \<Rightarrow> (Threw x, n, [])
     | Inr _ \<Rightarrow>
         (case on_sync (\<lambda>y. case receiveSyncAck lv (nd_open n) (nd_peerId n) (ne_sync ev) m frm y of Inl _ \<Rightarrow> (y, []) | Inr r \<Rightarrow> r) n of
            (n, sends) \<Rightarrow> sync_sends sends n))"

text \<open>The dispatch of \<^verbatim>\<open>message:received\<close>, with the listener of peer exchange behind it.\<close>

definition node_receive ::
  "sodium \<Rightarrow> 'd level \<Rightarrow> node_env \<Rightarrow> incoming \<Rightarrow> peer_id \<Rightarrow> 'd node \<Rightarrow> outcome \<times> 'd node \<times> node_out list" where
  "node_receive s lv ev inc frm n =
    (case inc of
       In_Null \<Rightarrow> (Threw Type_Error, n, [])
     | In_Hello p key subs \<Rightarrow> node_hello lv ev p key subs n
     | In_Wire (W_Message m) \<Rightarrow>
         if msg_type m = ''ACK'' then node_ack ev m n
         else if msg_type m = ''SYNC_BATCH'' then node_sync_batch s lv ev m frm n
         else if msg_type m = ''SYNC_ACK'' then node_sync_ack lv ev m frm n
         else if msg_type m = ''HELLO'' then (Untyped, n, [])
         else if msg_type m = ''HEARTBEAT'' then
           peers_do (\<lambda>L. Inr (updateHeartbeat (se_now (ne_sync ev)) (sender m) None L)) n
         else if msg_type m = ''PEER_EXCHANGE'' \<or> msg_type m = ''PEER_LIST'' then
           peers_do (pex_on_message (se_now (ne_sync ev)) (nd_peerId n) (W_Message m) frm) n
         else gossip s lv ev m (Some frm) n
     | In_Wire w \<Rightarrow> peers_do (pex_on_message (se_now (ne_sync ev)) (nd_peerId n) w frm) n)"

definition node_frame ::
  "sodium \<Rightarrow> 'd level \<Rightarrow> node_env \<Rightarrow> json \<Rightarrow> peer_id \<Rightarrow> 'd node \<Rightarrow> outcome \<times> 'd node \<times> node_out list" where
  "node_frame s lv ev j frm n =
    (case incoming_of_json j of None \<Rightarrow> (Untyped, n, []) | Some inc \<Rightarrow> node_receive s lv ev inc frm n)"

section \<open>Start, timers and stop\<close>

definition node_gc :: "time \<Rightarrow> 'd node \<Rightarrow> 'd node" where
  "node_gc now n = set_router (router_gc now (topicRouter (nd_engine n))) n"

text \<open>A configuration as the caller gives it: an absent field has its default.\<close>

record node_config =
  cf_peerId :: "peer_id option"
  cf_port :: "nat option"
  cf_autoSummary :: bool
  cf_metricsPort :: "nat option"
  cf_enableDiscovery :: bool
  cf_enableMetrics :: bool
  cf_bootstrap :: "boot_node list"
  cf_rateLimitCapacity :: "nat option"
  cf_rateLimitRefillRate :: "nat option"

definition config_peerId :: "nat \<Rightarrow> node_config \<Rightarrow> peer_id" where
  "config_peerId r cf = (case cf_peerId cf of Some p \<Rightarrow> p | None \<Rightarrow> ''node-'' @ show_nat (r mod 1000))"

definition config_port :: "node_config \<Rightarrow> nat" where
  "config_port cf = (case cf_port cf of Some p \<Rightarrow> p | None \<Rightarrow> 8080)"

definition config_metricsPort :: "node_config \<Rightarrow> nat" where
  "config_metricsPort cf =
    (case cf_metricsPort cf of Some k \<Rightarrow> k | None \<Rightarrow> (case cf_port cf of Some p \<Rightarrow> p + 10 | None \<Rightarrow> 8090))"

definition node_init :: "nat \<Rightarrow> time \<Rightarrow> node_config \<Rightarrow> key_manager \<Rightarrow> 'd \<Rightarrow> 'd node" where
  "node_init r now cf km d =
    (let p = config_peerId r cf; key = Some (getPublicKey km)
     in \<lparr>nd_peerId = p, nd_autoSummary = cf_autoSummary cf,
         nd_enableDiscovery = cf_enableDiscovery cf, nd_enableMetrics = cf_enableMetrics cf, nd_open = True, nd_stored = True,
         nd_engine = engine_init (cf_rateLimitCapacity cf) (cf_rateLimitRefillRate cf) (Some (security_init km (Some p))),
         nd_peers = \<lparr>pr_state = state_init, pr_pool = pool_init p key, pr_metrics = collector_init\<rparr>,
         nd_acks = ack_init,
         nd_sync = \<lparr>sy_mgr = sync_init, sy_store = store_init d collector_init, sy_factory = factory_init\<rparr>,
         nd_server = server_init (config_port cf) p key, nd_discovery = discovery_init p (config_port cf),
         nd_reporter = reporter_init (config_metricsPort cf) now,
         localSubscriptions = set_of_array [''global'', dm_topic p], localSequences = [], newMessagesCounter = [],
         activeSummarizations = [], gcInterval = False, refreshInterval = False\<rparr>)"

definition node_start ::
  "(string \<Rightarrow> (string \<times> string) option) \<Rightarrow> (nat \<Rightarrow> rat) \<Rightarrow> bool \<Rightarrow> bool \<Rightarrow> node_config \<Rightarrow> 'd node
    \<Rightarrow> 'd node \<times> (rat \<times> string \<times> nat \<times> peer_id) list" where
  "node_start url rs ad_ok br_ok cf n =
    (case (if nd_enableDiscovery n then discovery_start url rs ad_ok br_ok (cf_bootstrap cf) (nd_discovery n)
           else (nd_discovery n, [])) of
       (d, pending) \<Rightarrow>
         (n\<lparr>nd_server := server_start (nd_server n), nd_discovery := d,
            nd_reporter := (if nd_enableMetrics n then reporter_start (nd_reporter n) else nd_reporter n), gcInterval := True, refreshInterval := True\<rparr>, pending))"

definition node_stop :: "'d level \<Rightarrow> io_result \<Rightarrow> 'd node \<Rightarrow> 'd node \<times> srv_out list \<times> wire pool_out list" where
  "node_stop lv io n =
    (let n = n\<lparr>gcInterval := False, refreshInterval := False,
              nd_discovery := (if nd_enableDiscovery n then discovery_stop (nd_discovery n) else nd_discovery n),
              nd_reporter := (if nd_enableMetrics n then reporter_stop (nd_reporter n) else nd_reporter n)\<rparr>;
         (srv, closed) = server_stop (nd_server n);
         (pool, out) = pool_clear (pr_pool (nd_peers n));
         n = heard out (n\<lparr>nd_server := srv, nd_peers := (nd_peers n)\<lparr>pr_pool := pool\<rparr>\<rparr>);
         n = (if nd_stored n then on_store (store_flush lv io) n else n)
     in (n\<lparr>nd_stored := False, nd_open := False\<rparr>, closed, out))"

section \<open>What the pool and the synchronisation leave alone\<close>

lemma node_frames [simp]:
  "securityManager (nd_engine (set_router rs n)) = securityManager (nd_engine n)"
  "seenMessages (nd_engine (set_router rs n)) = seenMessages (nd_engine n)"
  "nd_sync (set_router rs n) = nd_sync n" "nd_peers (set_router rs n) = nd_peers n"
  "nd_peerId (set_router rs n) = nd_peerId n" "topicRouter (nd_engine (set_router rs n)) = rs"
  "localSequences (set_router rs n) = localSequences n" "nd_stored (set_router rs n) = nd_stored n"
  by (simp_all add: set_router_def)

lemma heard_frames [simp]:
  "securityManager (nd_engine (heard outs n)) = securityManager (nd_engine n)"
  "nd_sync (heard outs n) = nd_sync n" "nd_peers (heard outs n) = nd_peers n" "nd_peerId (heard outs n) = nd_peerId n"
  "topicRouter (nd_engine (heard outs n)) = fold pool_listener outs (topicRouter (nd_engine n))"
  "localSequences (heard outs n) = localSequences n" "nd_stored (heard outs n) = nd_stored n"
  by (simp_all add: heard_def)

text \<open>What a handler that only uses the pool or the registry keeps of the node.\<close>

definition keeps :: "'d node \<Rightarrow> 'd node \<Rightarrow> bool" where
  "keeps n n' \<longleftrightarrow> securityManager (nd_engine n') = securityManager (nd_engine n) \<and> nd_peerId n' = nd_peerId n"

lemma keeps_refl [simp]: "keeps n n" by (simp add: keeps_def)

lemma keeps_trans: "keeps n n1 \<Longrightarrow> keeps n1 n2 \<Longrightarrow> keeps n n2" by (simp add: keeps_def)

lemma keeps_pool_do: "keeps n (fst (snd (pool_do f n)))"
  by (simp add: keeps_def pool_do_def split: sum.split)

lemma keeps_peers_do: "keeps n (fst (snd (peers_do f n)))"
  by (simp add: keeps_def peers_do_def on_peers_def split: sum.split prod.split)

lemma keeps_and_then:
  assumes "keeps n (fst (snd r))" "\<And>n1. keeps n n1 \<Longrightarrow> keeps n1 (fst (snd (f n1)))"
  shows "keeps n (fst (snd (and_then r f)))"
proof -
  obtain res n1 out where r: "r = (res, n1, out)" by (cases r)
  have "keeps n n1" using assms(1) by (simp add: r)
  then have "keeps n (fst (snd (f n1)))" using assms(2) keeps_trans by blast
  with \<open>keeps n n1\<close> show ?thesis by (simp add: r and_then_def case_prod_beta)
qed

lemma keeps_sync_sends: "keeps n (fst (snd (sync_sends outs n)))"
proof (induction outs n rule: sync_sends.induct)
  case (2 p m outs n)
  then show ?case by (simp only: sync_sends.simps) (intro keeps_and_then keeps_pool_do)
qed simp

lemma keeps_on_sync: "keeps n (fst (on_sync f n))"
  by (simp add: keeps_def on_sync_def case_prod_beta)

lemma keeps_start_sync: "keeps n (fst (snd (start_sync lv ev p n)))"
  using keeps_trans [OF keeps_on_sync keeps_sync_sends] by (simp add: start_sync_def case_prod_beta)

lemma keeps_set_router: "keeps n (set_router rs n)" by (simp add: keeps_def)

lemma hello_security:
  "securityManager (nd_engine (fst (snd (node_hello lv ev p key subs n))))
    = map_option (registerPeerKey p key) (securityManager (nd_engine n))"
proof -
  let ?n = "n\<lparr>nd_engine := (nd_engine n)\<lparr>securityManager := map_option (registerPeerKey p key) (securityManager (nd_engine n))\<rparr>\<rparr>"
  have "keeps n1 (fst (snd (let n = (case subs of None \<Rightarrow> n1 | Some ts \<Rightarrow>
       set_router (register_subscriptions p (se_now (ne_sync ev)) ts (topicRouter (nd_engine n1))) n1) in start_sync lv ev p n)))" for n1
    by (simp add: Let_def keeps_start_sync keeps_trans [OF keeps_set_router keeps_start_sync] split: option.split)
  then have "keeps ?n (fst (snd (node_hello lv ev p key subs n)))"
    unfolding node_hello_def Let_def by (intro keeps_and_then keeps_peers_do) (simp add: Let_def)
  then show ?thesis by (simp add: keeps_def)
qed

text \<open>
  C13: a HELLO rebinds an identity: whichever connection a HELLO arrives on, it replaces the key
  of the peer it names, so that from then on the node accepts as that peer's exactly the
  messages whose signature verifies under the new key, whatever key was pinned before and
  whichever peer sent the HELLO.
\<close>

theorem hello_rebinds_identity:
  assumes "securityManager (nd_engine n) = Some sec" "key \<noteq> []"
    and "n' = fst (snd (node_receive s lv ev (In_Hello p (Some key) subs) frm n))"
  shows "\<exists>sec'. securityManager (nd_engine n') = Some sec' \<and> pinned p sec' = Some key
    \<and> (\<forall>m col. sender m = p \<longrightarrow> fst (verifyIncomingMessage s m sec' col) =
        (truthy (signature m) \<and> km_verify s (payloadToSign m) (the (signature m)) key))"
proof -
  have sec': "securityManager (nd_engine n') = Some (registerPeerKey p (Some key) sec)"
    using hello_security [of lv ev p "Some key" subs n] assms(1,3) by (simp add: node_receive_def)
  have pin: "pinned p (registerPeerKey p (Some key) sec) = Some key"
    using assms(2) by (simp add: pinned_def registerPeerKey_def truthy_def map_get_set)
  have "fst (verifyIncomingMessage s m (registerPeerKey p (Some key) sec) col) =
      (truthy (signature m) \<and> km_verify s (payloadToSign m) (the (signature m)) key)" if "sender m = p" for m col
    using key_for_pinned [of m _ key] pin that by (simp add: verify_result)
  with sec' pin show ?thesis by blast
qed

section \<open>Publishing\<close>

text \<open>A node that can speak for itself: its own key is pinned for its id.\<close>

definition own_security :: "sodium \<Rightarrow> 'd node \<Rightarrow> security \<Rightarrow> bool" where
  "own_security s n sec \<longleftrightarrow> securityManager (nd_engine n) = Some sec \<and> sodium_laws s \<and> km_ok s (keyManager sec)
     \<and> pinned (nd_peerId n) sec = Some (getPublicKey (keyManager sec))"

lemma signed_same:
  "msg_id (sign_with s m n) = msg_id m" "msg_type (sign_with s m n) = msg_type m" "powNonce (sign_with s m n) = powNonce m"
  "ttl (sign_with s m n) = ttl m" "payload (sign_with s m n) = payload m" "msg_topic (sign_with s m n) = msg_topic m"
  "sender (sign_with s m n) = sender m" "routingPath (sign_with s m n) = routingPath m"
  "lamportTimestamp (sign_with s m n) = lamportTimestamp m" "createdAt (sign_with s m n) = createdAt m"
  by (simp_all add: sign_with_def signOutgoingMessage_def split: option.split)

lemma own_signature:
  assumes "own_security s n sec" "sender m = nd_peerId n"
  shows "km_verify s (payloadToSign (sign_with s m n)) (the (signature (sign_with s m n))) (getPublicKey (keyManager sec))"
    "truthy (signature (sign_with s m n))"
proof -
  have sg: "sign_with s m n = m\<lparr>signature := Some (km_sign s (keyManager sec) (payloadToSign m))\<rparr>"
    using assms(1) by (simp add: own_security_def sign_with_def signOutgoingMessage_def)
  have pl: "payloadToSign (m\<lparr>signature := x\<rparr>) = payloadToSign m" for x by (simp add: payloadToSign_def)
  have v: "km_verify s (payloadToSign m) (km_sign s (keyManager sec) (payloadToSign m)) (getPublicKey (keyManager sec))"
    by (rule km_verify_sign) (use assms(1) in \<open>simp_all add: own_security_def\<close>)
  show "km_verify s (payloadToSign (sign_with s m n)) (the (signature (sign_with s m n))) (getPublicKey (keyManager sec))"
    using v by (simp add: sg pl)
  show "truthy (signature (sign_with s m n))" using v by (auto simp: sg truthy_def km_verify_def)
qed

lemma own_admissible:
  assumes "own_security s n sec" "sender m = nd_peerId n" "pow_ok m"
  shows "admissible s ev (sign_with s m n) None (nd_engine n)"
proof -
  have "key_for (sign_with s m n) sec = Some (getPublicKey (keyManager sec))"
    by (rule key_for_pinned) (use assms in \<open>simp add: own_security_def signed_same\<close>)
  then have "fst (verifyIncomingMessage s (sign_with s m n) sec collector_init)"
    using own_signature [OF assms(1,2)] by (simp add: verify_result)
  then show ?thesis
    using assms by (auto simp: admissible_def own_security_def truthy_def pow_ok_def signed_same)
qed

text \<open>An admissible new message is processed: the handler runs its second half.\<close>

lemma receive_admitted:
  assumes "admissible s ev m frm e" "msg_id m \<notin> set (seenMessages e)"
  obtains e1 lims where "list_all is_limiter lims" "topicRouter e1 = topicRouter e"
    "receiveMessage s ev me peers m frm e =
      (if msg_type m = ''SUB_AD''
       then (case receive_sub_ad ev me peers m frm e1 of (r, e', out) \<Rightarrow> (r, e', lims @ out))
       else (case receive_gossip ev peers m frm e1 of (e', out) \<Rightarrow> (Done, e', lims @ out)))"
proof -
  obtain ok e0 lims where adm: "admission_checks s ev m frm e = (ok, e0, lims)"
    by (cases "admission_checks s ev m frm e")
  have ok: ok using admission_iff [of s ev m frm e] adm assms(1) by simp
  note p = admission_checks_props [OF adm]
  let ?e1 = "e0\<lparr>seenMessages := set_add (seenMessages e0) (msg_id m)\<rparr>"
  have "receiveMessage s ev me peers m frm e =
      (if msg_type m = ''SUB_AD''
       then (case receive_sub_ad ev me peers m frm ?e1 of (r, e', out) \<Rightarrow> (r, e', lims @ out))
       else (case receive_gossip ev peers m frm ?e1 of (e', out) \<Rightarrow> (Done, e', lims @ out)))"
    using adm ok p(1) assms(2) by (simp add: receiveMessage_def Let_def)
  then show thesis using that [of lims ?e1] p(2,3) by simp
qed

lemma effects_limiter: "list_all is_limiter lims \<Longrightarrow> engine_effects lv io (lims @ out) n = engine_effects lv io out n"
  by (induction lims) (auto simp: is_limiter_def split: engine_out.splits)

text \<open>A broadcast of a consistent pool succeeds and concerns nothing but the pool.\<close>

lemma broadcast_done:
  assumes "pool_ok (pr_pool (nd_peers n))"
  obtains pool outs where "pool_do (pool_broadcast w excl) n =
    (Done, heard outs (n\<lparr>nd_peers := (nd_peers n)\<lparr>pr_pool := pool\<rparr>\<rparr>), map Net outs)" "pool_ok pool"
proof -
  obtain pool outs where "pool_broadcast w excl (pr_pool (nd_peers n)) = Inr (pool, outs)" "pool_ok pool"
    by (rule broadcast_ok [OF assms])
  then show thesis using that by (simp add: pool_do_def)
qed

lemma on_store_frames [simp]:
  "nd_peerId (on_store f n) = nd_peerId n" "nd_stored (on_store f n) = nd_stored n"
  "nd_peers (on_store f n) = nd_peers n" "topicRouter (nd_engine (on_store f n)) = topicRouter (nd_engine n)"
  "localSequences (on_store f n) = localSequences n" "activeSummarizations (on_store f n) = activeSummarizations n"
  by (simp_all add: on_store_def on_sync_def)

lemma contents_metrics [simp]: "contents lv (st\<lparr>store_metrics := c\<rparr>) = contents lv st"
  by (simp add: contents_def fun_eq_iff)

definition stored :: "'d level \<Rightarrow> 'd node \<Rightarrow> string \<Rightarrow> string option" where
  "stored lv n = contents lv (sy_store (nd_sync n))"

lemma stored_simps [simp]:
  "stored lv (heard outs n) = stored lv n" "stored lv (n\<lparr>nd_engine := e\<rparr>) = stored lv n"
  "stored lv (n\<lparr>nd_peers := L\<rparr>) = stored lv n" "stored lv (n\<lparr>newMessagesCounter := c\<rparr>) = stored lv n"
  "stored lv (n\<lparr>activeSummarizations := a\<rparr>) = stored lv n"
  by (simp_all add: stored_def)

lemma stored_flush: "level_laws lv \<Longrightarrow> io_ok io \<Longrightarrow> stored lv (on_store (store_flush lv io) n) = stored lv n"
  by (simp add: stored_def on_store_def on_sync_def flush_contents)

lemma stored_request:
  "level_laws lv \<Longrightarrow> io_ok io \<Longrightarrow> stored lv (fst (summary_request lv io tp mode n)) = stored lv n"
  by (simp add: summary_request_def getRecentMessages_def Let_def stored_flush)

lemma on_message_new_stores:
  assumes "level_laws lv" "io_ok io" "msg_type m \<noteq> ''SUB_AD''"
  shows "stored lv (fst (on_message_new lv io m n)) = (stored lv n)
    (store_key m \<mapsto> print_message m, index_key (msg_id m) \<mapsto> store_key m)"
proof -
  have "stored lv (on_store (save lv io m) n) = (stored lv n)
    (store_key m \<mapsto> print_message m, index_key (msg_id m) \<mapsto> store_key m)"
    by (simp add: stored_def on_store_def on_sync_def save_contents [OF assms(1,2)] store_key_def)
  then show ?thesis
    using assms(3) by (simp add: on_message_new_def Let_def stored_request [OF assms(1,2)] case_prod_beta)
qed

lemma stored_lookup:
  assumes "level_laws lv" "io_ok io" "stored lv n (index_key i) = Some k" "stored lv n k = Some (print_message m)"
  shows "fst (getById lv io i (sy_store (nd_sync n))) = Inr (Some m)"
proof -
  have "parse_message (print_message m) = Some m"
    by (simp add: parse_message_def print_message_def json_roundtrip message_json_ok message_of_json_json)
  then show ?thesis using assms by (simp add: getById_def flushed_get stored_def)
qed

text \<open>The frames a node hands to its sockets.\<close>

definition sent :: "node_out list \<Rightarrow> wire pool_out list" where
  "sent outs = List.map_filter (\<lambda>x. case x of Net e \<Rightarrow> Some e | _ \<Rightarrow> None) outs"

lemma sent_simps [simp]: "sent [] = []" "sent (map Net o1) = o1" "sent (a @ b) = sent a @ sent b"
  "sent (App_Message m # outs) = sent outs" "sent (Ai_Request tp mode ms # outs) = sent outs"
  by (induction o1) (simp_all add: sent_def List.map_filter_def)

lemma on_message_new_local:
  "nd_peers (fst (on_message_new lv io m n)) = nd_peers n" "sent (snd (on_message_new lv io m n)) = []"
  "msg_type m \<noteq> ''SUB_AD'' \<Longrightarrow> App_Message m \<in> set (snd (on_message_new lv io m n))"
  by (auto simp: on_message_new_def summary_request_def getRecentMessages_def Let_def case_prod_beta)

lemma gossip_selection_router:
  "topicRouter e = topicRouter e' \<Longrightarrow> gossip_selection ev peers m frm e = gossip_selection ev peers m frm e'"
  by (simp add: gossip_selection_def eligible_peers_def)

fun frame_sent :: "'m pool_out \<Rightarrow> 'm option" where
  "frame_sent (Client q (Wire (Frame m))) = Some m"
| "frame_sent (Inbound_Send q sock m) = Some m"
| "frame_sent e = None"

lemma broadcast_frames:
  assumes "pool_broadcast m excl pool = Inr (pool', outs)" "pool_ok pool" "x \<in> set outs"
  shows "frame_sent x \<in> {None, Some m}"
proof -
  have "\<forall>(p, c) \<in> set (outboundConnections pool). client_ok c" using assms(2) by (auto simp: pool_ok_def)
  from broadcast_outbound_eq [OF this, of excl m] show ?thesis
    using assms(1,3) by (auto simp: pool_broadcast_def broadcast_inbound_def sent_out_def split: if_splits)
qed

lemma receive_gossip_exact:
  assumes "sel = gossip_selection ev peers m frm e"
  shows "snd (receive_gossip ev peers m frm e) =
    (if 1 < ttl m \<and> sel \<noteq> [] then [Broadcast (m\<lparr>ttl := ttl m - 1\<rparr>) (filter (\<lambda>p. p \<notin> set sel) peers)] else [])
    @ [New_Message (m\<lparr>ttl := ttl m - 1\<rparr>)]"
proof -
  have "forwardMessage ev peers (m\<lparr>ttl := ttl m - 1\<rparr>) frm e =
    (if sel = [] then (e, []) else (count_metric ''messages_forwarded_total'' e,
       [Broadcast (m\<lparr>ttl := ttl m - 1\<rparr>) (filter (\<lambda>p. p \<notin> set sel) peers)]))"
    unfolding assms by (simp only: forwardMessage_def gossip_selection_def Let_def eligible_ttl)
  then show ?thesis by (simp add: receive_gossip_def Let_def)
qed

text \<open>
  Gossip of an admissible new message that is no advertisement: it is shown and stored with one
  hop less, and the selected peers, if a hop is left, get one copy per connection.
\<close>

lemma gossip_chat:
  assumes "admissible s (ne_env ev) m frm (nd_engine n)" "msg_type m \<noteq> ''SUB_AD''"
    and "msg_id m \<notin> set (seenMessages (nd_engine n))" "pool_ok (pr_pool (nd_peers n))"
    and "m' = m\<lparr>ttl := ttl m - 1\<rparr>"
    and "sel = gossip_selection (ne_env ev) (getAllPeerIds (pr_pool (nd_peers n))) m frm (nd_engine n)"
    and "gossip s lv ev m frm n = (r, n', outs)"
  shows "r = Done \<and> App_Message m' \<in> set outs
    \<and> (level_laws lv \<and> io_ok (se_io (ne_sync ev)) \<longrightarrow>
        stored lv n' = (stored lv n)(store_key m' \<mapsto> print_message m', index_key (msg_id m') \<mapsto> store_key m'))
    \<and> (\<forall>p. on_wire p (sent outs) + queued p (pr_pool (nd_peers n')) = queued p (pr_pool (nd_peers n))
        + (if p \<in> set sel \<and> 1 < ttl m then connections p (pr_pool (nd_peers n)) else 0))
    \<and> (\<forall>x \<in> set (sent outs). frame_sent x \<in> {None, Some (W_Message m')})"
proof -
  let ?pool = "pr_pool (nd_peers n)" and ?io = "se_io (ne_sync ev)"
  let ?peers = "getAllPeerIds ?pool"
  obtain e1 lims where lims: "list_all is_limiter lims" and rt: "topicRouter e1 = topicRouter (nd_engine n)"
    and x: "receiveMessage s (ne_env ev) (nd_peerId n) ?peers m frm (nd_engine n) =
      (if msg_type m = ''SUB_AD''
       then (case receive_sub_ad (ne_env ev) (nd_peerId n) ?peers m frm e1 of (r, e', out) \<Rightarrow> (r, e', lims @ out))
       else (case receive_gossip (ne_env ev) ?peers m frm e1 of (e', out) \<Rightarrow> (Done, e', lims @ out)))"
    by (rule receive_admitted [OF assms(1,3)])
  have sel: "gossip_selection (ne_env ev) ?peers m frm e1 = sel" using gossip_selection_router [OF rt] assms(6) by simp
  obtain e' out where g: "receive_gossip (ne_env ev) ?peers m frm e1 = (e', out)"
    by (cases "receive_gossip (ne_env ev) ?peers m frm e1")
  let ?n = "n\<lparr>nd_engine := e'\<rparr>"
  have gs: "gossip s lv ev m frm n = (case engine_effects lv ?io out ?n of (r', n, outs) \<Rightarrow> (if r' \<noteq> Done then r' else Done, n, outs))"
    using x assms(2) by (simp add: gossip_def g effects_limiter [OF lims])
  have t: "msg_type m' \<noteq> ''SUB_AD''" using assms(2,5) by simp
  have new: "App_Message m' \<in> set o1 \<and> (level_laws lv \<and> io_ok ?io \<longrightarrow> stored lv n1 = (stored lv n0)
        (store_key m' \<mapsto> print_message m', index_key (msg_id m') \<mapsto> store_key m'))
      \<and> nd_peers n1 = nd_peers n0 \<and> sent o1 = []" if "on_message_new lv ?io m' n0 = (n1, o1)" for n0 n1 o1
    using on_message_new_stores [where lv = lv and io = ?io and m = m' and n = n0] on_message_new_local [where lv = lv and io = ?io and m = m' and n = n0] that t
    by simp
  have out: "out = (if 1 < ttl m \<and> sel \<noteq> [] then [Broadcast m' (filter (\<lambda>p. p \<notin> set sel) ?peers)] else []) @ [New_Message m']"
    using receive_gossip_exact [OF sel [symmetric]] g assms(5) by simp
  show ?thesis
  proof (cases "1 < ttl m \<and> sel \<noteq> []")
    case False
    obtain n1 o1 where om: "on_message_new lv ?io m' ?n = (n1, o1)" by (cases "on_message_new lv ?io m' ?n")
    have r: "r = Done" "n' = n1" "outs = o1" using gs assms(7) out False om by (auto simp: and_then_def)
    show ?thesis using r new [OF om] False by auto
  next
    case True
    define excl where "excl = filter (\<lambda>p. p \<notin> set sel) ?peers"
    obtain pool o1 where b: "pool_broadcast (W_Message m') excl ?pool = Inr (pool, o1)"
      and count: "\<And>p. on_wire p o1 + queued p pool = queued p ?pool + (if p \<in> set excl then 0 else connections p ?pool)"
      using broadcast_counts [OF assms(4)] by metis
    let ?nb = "heard o1 (?n\<lparr>nd_peers := (nd_peers ?n)\<lparr>pr_pool := pool\<rparr>\<rparr>)"
    have b': "pool_do (pool_broadcast (W_Message m') excl) ?n = (Done, ?nb, map Net o1)" using b by (simp add: pool_do_def)
    obtain n1 o2 where om: "on_message_new lv ?io m' ?nb = (n1, o2)" by (cases "on_message_new lv ?io m' ?nb")
    have r: "r = Done" "n' = n1" "outs = map Net o1 @ o2"
      using gs assms(7) out True om b' by (auto simp: and_then_def excl_def)
    have "on_wire p o1 + queued p pool = queued p ?pool + (if p \<in> set sel then connections p ?pool else 0)" for p
      using count [of p] connections_none [of p ?pool] by (auto simp: excl_def split: if_splits)
    then show ?thesis using r new [OF om] True broadcast_frames [OF b assms(4)] by simp
  qed
qed


text \<open>
  What is published is kept and shown: a chat that is no command, published by a node whose
  own key is pinned, under a fresh id whose puzzle has a solution, completes without an
  exception, is handed to the application and is found in the store under the returned id,
  with its text, topic and author, one hop used up, and a signature that verifies.
\<close>

theorem published_message_stored:
  assumes "own_security s n sec" "pool_ok (pr_pool (nd_peers n))" "level_laws lv" "io_ok (se_io (ne_sync ev))"
    and "se_uid (ne_sync ev) \<notin> set (seenMessages (nd_engine n))" "\<exists>k \<le> 1000000. verifyPuzzle (se_uid (ne_sync ev)) 500 k"
    and "\<not> starts_with ''/summary'' (trim content)" "\<not> starts_with ''/keypoints'' (trim content)"
    and "publish s lv ev tp content n = (i, r, n', outs)"
  shows "r = Done \<and> (\<exists>m. App_Message m \<in> set outs \<and> fst (getById lv (se_io (ne_sync ev)) i (sy_store (nd_sync n'))) = Inr (Some m)
    \<and> msg_type m = ''CHAT'' \<and> payload m = content \<and> msg_topic m = tp \<and> sender m = nd_peerId n \<and> ttl m = MAX_TTL - 1
    \<and> km_verify s (payloadToSign m) (the (signature m)) (getPublicKey (keyManager sec)))"
proof -
  let ?uid = "se_uid (ne_sync ev)"
  obtain m f where c: "createChat ?uid (se_date (ne_sync ev)) (nd_peerId n) content tp (own_key n) (sy_factory (nd_sync n)) = (m, f)"
    by (cases "createChat ?uid (se_date (ne_sync ev)) (nd_peerId n) content tp (own_key n) (sy_factory (nd_sync n))")
  have fields: "msg_id m = ?uid" "msg_type m = ''CHAT''" "payload m = content" "msg_topic m = tp" "sender m = nd_peerId n"
    "ttl m = MAX_TTL" "powNonce m = Some (solvePuzzle ?uid 500)"
    using arg_cong [OF c, of fst] by (auto simp: createChat_def)
  have pow: "pow_ok m" using pow.solve_verifies [OF assms(6)] by (simp add: pow_ok_def fields)
  let ?n = "n\<lparr>nd_sync := (nd_sync n)\<lparr>sy_factory := f\<rparr>\<rparr>"
  have own: "own_security s ?n sec" using assms(1) by (simp add: own_security_def)
  have run: "i = msg_id m" "gossip s lv ev (sign_with s m ?n) None ?n = (r, n', outs)"
    using assms(7-9) c by (auto simp: publish_def made_def)
  let ?m' = "(sign_with s m ?n)\<lparr>ttl := ttl m - 1\<rparr>"
  have "admissible s (ne_env ev) (sign_with s m ?n) None (nd_engine ?n)"
    by (rule own_admissible [OF own]) (use fields pow in simp_all)
  from gossip_chat [OF this _ _ _ refl refl run(2)] have g: "r = Done \<and> App_Message ?m' \<in> set outs
    \<and> stored lv n' = (stored lv ?n)(store_key ?m' \<mapsto> print_message ?m', index_key (msg_id ?m') \<mapsto> store_key ?m')"
    using assms(2-5) fields by (simp add: signed_same)
  have "fst (getById lv (se_io (ne_sync ev)) i (sy_store (nd_sync n'))) = Inr (Some ?m')"
    by (rule stored_lookup [OF assms(3,4), of n' i "store_key ?m'"]) (use g run(1) in \<open>simp_all add: signed_same store_key_def\<close>)
  moreover have "payloadToSign ?m' = payloadToSign (sign_with s m ?n)" by (simp add: payloadToSign_def)
  then have "km_verify s (payloadToSign ?m') (the (signature ?m')) (getPublicKey (keyManager sec))"
    using own_signature(1) [OF own, of m] fields by simp
  ultimately show ?thesis using g fields by (intro conjI exI [of _ ?m']) (simp_all add: signed_same)
qed

section \<open>Peers that go away\<close>

definition gone :: "wire pool_out list \<Rightarrow> peer_id set" where
  "gone outs = {p. Peer_Disconnected p \<in> set outs \<or> Peer_Failed p \<in> set outs}"

lemma gone_simps [simp]: "gone [] = {}" "gone (Peer_Disconnected p # outs) = insert p (gone outs)"
  "gone (Peer_Failed p # outs) = insert p (gone outs)" "gone (Client p x # outs) = gone outs"
  "gone (Inbound_Send p i w # outs) = gone outs" "gone (Inbound_Close p i # outs) = gone outs"
  "gone (Peer_Connected p ts # outs) = gone outs"
  by (auto simp: gone_def)

lemma listeners_table:
  "router_ok rs \<Longrightarrow> router_ok (fold pool_listener outs rs) \<and>
    (route_table (fold pool_listener outs rs) (t, u) = Some r \<longleftrightarrow>
      route_table rs (t, u) = Some r \<and> u \<notin> gone outs \<and> nextHop r \<notin> gone outs)"
proof (induction outs arbitrary: rs)
  case (Cons x outs)
  have ok: "router_ok (clearRoutesForPeer p rs)" for p
    using Cons.prems by (simp add: clear_sweep sweep_ok)
  have table: "route_table (clearRoutesForPeer p rs) (t, u) = Some r \<longleftrightarrow>
      route_table rs (t, u) = Some r \<and> nextHop r \<noteq> p \<and> u \<noteq> p" for p
    using Cons.prems by (simp add: clear_sweep table_sweep_iff)
  show ?case using Cons ok table by (cases x) auto
qed simp

text \<open>
  C16: a peer that is gone is forgotten: when an operation of the pool reports peers as
  disconnected or failed, the node is left with exactly those routes that neither lead to nor
  go through any of them, and no message on a topic is forwarded to them any more.
\<close>

theorem gone_peers_lose_routes:
  assumes "router_ok (topicRouter (nd_engine n))" "f (pr_pool (nd_peers n)) = Inr (pool, outs)"
    and "n' = fst (snd (pool_do f n))"
  shows "(\<forall>t u r. route_table (topicRouter (nd_engine n')) (t, u) = Some r \<longleftrightarrow>
      route_table (topicRouter (nd_engine n)) (t, u) = Some r \<and> u \<notin> gone outs \<and> nextHop r \<notin> gone outs)
    \<and> (\<forall>ev peers m frm p. msg_topic m \<noteq> [] \<and> msg_topic m \<noteq> ''global'' \<and> p \<in> gone outs \<longrightarrow>
        p \<notin> set (eligible_peers ev peers m frm (nd_engine n')))"
proof -
  have rs: "topicRouter (nd_engine n') = fold pool_listener outs (topicRouter (nd_engine n))"
    using assms(2,3) by (simp add: pool_do_def)
  have ok: "router_ok (topicRouter (nd_engine n'))" and table: "\<And>t u r. route_table (topicRouter (nd_engine n')) (t, u) = Some r \<longleftrightarrow>
      route_table (topicRouter (nd_engine n)) (t, u) = Some r \<and> u \<notin> gone outs \<and> nextHop r \<notin> gone outs"
    unfolding rs using listeners_table [OF assms(1)] by blast+
  have "p \<notin> set (eligible_peers ev peers m frm (nd_engine n'))"
    if "msg_topic m \<noteq> []" "msg_topic m \<noteq> ''global''" "p \<in> gone outs" for ev peers m frm p
    using eligible_props [OF _ ok, of p ev peers m frm] that table by blast
  then show ?thesis using table by blast
qed

section \<open>Subscriptions\<close>

lemma broadcast_outbound_quiet:
  "broadcast_outbound excl m cs = Inr (cs', outs) \<Longrightarrow> gone outs = {}"
  by (induction cs arbitrary: cs' outs) (auto simp: gone_def split: if_splits sum.splits prod.splits)

lemma broadcast_quiet:
  assumes "pool_broadcast m excl pool = Inr (pool', outs)"
  shows "fold pool_listener outs rs = rs"
proof -
  have "gone outs = {}"
    using assms broadcast_outbound_quiet [of excl m "outboundConnections pool"]
    by (auto simp: pool_broadcast_def broadcast_inbound_def gone_def split: sum.splits)
  then show ?thesis
  proof (induction outs arbitrary: rs)
    case (Cons x outs)
    then show ?case by (cases x) auto
  qed simp
qed

lemma effects_sub_ad:
  assumes "pool_ok (pr_pool (nd_peers n))" "msg_type m = ''SUB_AD''" "out = [New_Message m] \<or> out = [Broadcast w excl, New_Message m]"
  shows "\<exists>n' outs. engine_effects lv io out n = (Done, n', outs) \<and> topicRouter (nd_engine n') = topicRouter (nd_engine n)
    \<and> localSequences n' = localSequences n \<and> localSubscriptions n' = localSubscriptions n \<and> nd_peerId n' = nd_peerId n"
proof -
  obtain pool outs where b: "pool_broadcast (W_Message w) excl (pr_pool (nd_peers n)) = Inr (pool, outs)"
    by (rule broadcast_ok [OF assms(1)])
  have "on_message_new lv io m n1 = (n1, [])" for n1 by (simp add: on_message_new_def assms(2))
  then show ?thesis
    using assms(3) b broadcast_quiet [OF b] by (auto simp: and_then_def pool_do_def heard_def set_router_def)
qed

text \<open>The route a node holds to itself for its own advertisements is never ahead of its counter.\<close>

definition own_route_ok :: "'d node \<Rightarrow> topic_name \<Rightarrow> bool" where
  "own_route_ok n tp \<longleftrightarrow> (\<forall>r. route_table (topicRouter (nd_engine n)) (tp, nd_peerId n) = Some r \<longrightarrow>
     sequenceNumber r \<le> sequence_of tp n)"

text \<open>What the engine does with the node's own advertisement.\<close>

lemma own_sub_ad:
  assumes "payload m = sub_ad_payload tp seq action" "action = ''JOIN'' \<or> action = ''LEAVE''" "path_of m = []" "sender m = me"
    and "\<forall>r. route_table (topicRouter e) (tp, me) = Some r \<longrightarrow> sequenceNumber r < seq" "msg_type m = ''SUB_AD''"
  shows "\<exists>e' out m' w excl. receive_sub_ad ev me peers m None e = (Done, e', out)
    \<and> route_table (topicRouter e') = (route_table (topicRouter e))((tp, me) := (if action = ''LEAVE'' then None
        else Some \<lparr>nextHop = me, hopCount = 0, sequenceNumber = seq, route_path = [], expiresAt = At (t_route ev + ROUTE_LEASE_MS)\<rparr>))
    \<and> msg_type m' = ''SUB_AD'' \<and> (out = [New_Message m'] \<or> out = [Broadcast w excl, New_Message m'])"
proof -
  let ?rs = "topicRouter e"
  obtain fs where fs: "json_parse (payload m) = Some (JObj fs)" "sub_ad_fields (JObj fs) = (Some tp, Some seq, Some action)"
    using sub_ad_payload_fields assms(1) by metis
  define upd where "upd = (if action = ''LEAVE'' then removeRoute tp me ?rs
    else updateRoute tp me me 0 seq [] (At (t_route ev + ROUTE_LEASE_MS)) ?rs)"
  obtain changed rs where u: "upd = (changed, rs)" by (cases upd)
  have change: "sub_ad_change (t_route ev) (sender m) me (path_of m) (sub_ad_fields (JObj fs)) ?rs = Route changed rs"
    using assms(2,3,4) u by (auto simp: sub_ad_change_def fs(2) upd_def)
  have table: "route_table rs = (route_table ?rs)((tp, me) := (if action = ''LEAVE'' then None
        else Some \<lparr>nextHop = me, hopCount = 0, sequenceNumber = seq, route_path = [], expiresAt = At (t_route ev + ROUTE_LEASE_MS)\<rparr>))"
    using arg_cong [OF u, of snd] assms(5) table_remove [of tp me ?rs]
      table_update [of tp me me 0 seq "[]" "At (t_route ev + ROUTE_LEASE_MS)" ?rs]
    by (auto simp: upd_def split: if_splits option.splits)
  have r: "receive_sub_ad ev me peers m None e = (let e = e\<lparr>topicRouter := rs\<rparr>
                 in if changed \<and> ttl m > 1
                    then (case propagate_sub_ad me peers (path_of m) m None e of
                            (m, e, out) \<Rightarrow> (Done, e, out @ [New_Message m]))
                    else (Done, e, [New_Message m]))"
    using change assms(3) by (simp add: receive_sub_ad_def fs(1) truthy_def del: ROUTE_LEASE_MS_def)
  obtain m2 e2 o2 where pr: "propagate_sub_ad me peers (path_of m) m None (e\<lparr>topicRouter := rs\<rparr>) = (m2, e2, o2)"
    by (cases "propagate_sub_ad me peers (path_of m) m None (e\<lparr>topicRouter := rs\<rparr>)")
  note p = propagate_out [OF pr]
  have ty: "msg_type m2 = ''SUB_AD''" using p(1) assms(6) by (simp add: next_hop_message_def)
  show ?thesis
  proof (cases "changed \<and> ttl m > 1")
    case True
    then have "receive_sub_ad ev me peers m None e = (Done, e2, o2 @ [New_Message m2])" by (simp add: r pr Let_def)
    then show ?thesis using p(3,5) table ty by auto
  next
    case False
    then have "receive_sub_ad ev me peers m None e = (Done, e\<lparr>topicRouter := rs\<rparr>, [New_Message m])"
      by (auto simp: r Let_def)
    then show ?thesis using table assms(6) by auto
  qed
qed

lemma advertise_routes:
  assumes "own_security s n sec" "pool_ok (pr_pool (nd_peers n))" "own_route_ok n tp"
    and "se_uid (ne_sync ev) \<notin> set (seenMessages (nd_engine n))" "\<exists>k \<le> 1000000. verifyPuzzle (se_uid (ne_sync ev)) 500 k"
    and "action = ''JOIN'' \<or> action = ''LEAVE''" "advertise s lv ev tp action n = (r, n', outs)"
  shows "r = Done \<and> localSubscriptions n' = localSubscriptions n \<and> sequence_of tp n' = sequence_of tp n + 1
    \<and> nd_peerId n' = nd_peerId n
    \<and> route_table (topicRouter (nd_engine n')) = (route_table (topicRouter (nd_engine n)))((tp, nd_peerId n) :=
        (if action = ''LEAVE'' then None
         else Some \<lparr>nextHop = nd_peerId n, hopCount = 0, sequenceNumber = sequence_of tp n + 1, route_path = [],
           expiresAt = At (t_route (ne_env ev) + ROUTE_LEASE_MS)\<rparr>))"
proof -
  let ?uid = "se_uid (ne_sync ev)" and ?me = "nd_peerId n" and ?seq = "sequence_of tp n + 1"
  let ?peers = "getAllPeerIds (pr_pool (nd_peers n))" and ?io = "se_io (ne_sync ev)"
  let ?c = "createSubAd ?uid (se_date (ne_sync ev)) ?me tp ?seq action [] (own_key n)"
  obtain m f where c: "?c (sy_factory (nd_sync n)) = (m, f)" by (cases "?c (sy_factory (nd_sync n))")
  have fields: "msg_id m = ?uid" "msg_type m = ''SUB_AD''" "payload m = sub_ad_payload tp ?seq action" "sender m = ?me"
    "powNonce m = Some (solvePuzzle ?uid 500)" "path_of m = []"
    using arg_cong [OF c, of fst] by (auto simp: createSubAd_def case_prod_beta path_of_def)
  have pow: "pow_ok m" using pow.solve_verifies [OF assms(5)] by (simp add: pow_ok_def fields)
  let ?n = "n\<lparr>localSequences := map_set (localSequences n) tp ?seq, nd_sync := (nd_sync n)\<lparr>sy_factory := f\<rparr>\<rparr>"
  let ?m = "sign_with s m ?n"
  have own: "own_security s ?n sec" using assms(1) by (simp add: own_security_def)
  have run: "gossip s lv ev ?m None ?n = (r, n', outs)"
    using assms(7) c by (simp add: advertise_def made_def own_key_def Let_def)
  have adm: "admissible s (ne_env ev) ?m None (nd_engine ?n)" by (rule own_admissible [OF own _ pow]) (simp add: fields)
  have unseen: "msg_id ?m \<notin> set (seenMessages (nd_engine ?n))" using assms(4) by (simp add: signed_same fields)
  obtain e1 lims where lims: "list_all is_limiter lims" "topicRouter e1 = topicRouter (nd_engine ?n)"
    and x: "receiveMessage s (ne_env ev) ?me ?peers ?m None (nd_engine ?n) =
      (if msg_type ?m = ''SUB_AD''
       then (case receive_sub_ad (ne_env ev) ?me ?peers ?m None e1 of (r, e', out) \<Rightarrow> (r, e', lims @ out))
       else (case receive_gossip (ne_env ev) ?peers ?m None e1 of (e', out) \<Rightarrow> (Done, e', lims @ out)))"
    by (rule receive_admitted [OF adm unseen])
  have older: "\<forall>r. route_table (topicRouter e1) (tp, ?me) = Some r \<longrightarrow> sequenceNumber r < ?seq"
    using assms(3) lims(2) by (force simp: own_route_ok_def)
  have path: "path_of ?m = []" using fields by (simp add: path_of_def signed_same)
  obtain e' out m' w excl where sub: "receive_sub_ad (ne_env ev) ?me ?peers ?m None e1 = (Done, e', out)"
    and table: "route_table (topicRouter e') = (route_table (topicRouter e1))((tp, ?me) := (if action = ''LEAVE'' then None
        else Some \<lparr>nextHop = ?me, hopCount = 0, sequenceNumber = ?seq, route_path = [],
          expiresAt = At (t_route (ne_env ev) + ROUTE_LEASE_MS)\<rparr>))"
    and out: "msg_type m' = ''SUB_AD''" "out = [New_Message m'] \<or> out = [Broadcast w excl, New_Message m']"
    using own_sub_ad [OF _ assms(6) path _ older, of "ne_env ev" ?peers] by (auto simp: signed_same fields)
  let ?ne = "?n\<lparr>nd_engine := e'\<rparr>"
  obtain n2 o2 where ef: "engine_effects lv ?io out ?ne = (Done, n2, o2)" "topicRouter (nd_engine n2) = topicRouter e'"
    "localSequences n2 = localSequences ?n" "localSubscriptions n2 = localSubscriptions n" "nd_peerId n2 = nd_peerId n"
    using effects_sub_ad [OF _ out, of ?ne lv ?io] assms(2) by auto
  have "gossip s lv ev ?m None ?n = (Done, n2, o2)"
    using x sub ef(1) by (simp add: gossip_def signed_same fields effects_limiter [OF lims(1)])
  then have "r = Done" "n' = n2" using run by simp_all
  then show ?thesis using ef table lims(2) by (simp add: sequence_of_def map_get_set)
qed


section \<open>A concrete node\<close>

definition demo_config :: node_config where
  "demo_config = \<lparr>cf_peerId = Some ''me'', cf_port = None, cf_autoSummary = False,
     cf_metricsPort = None, cf_enableDiscovery = True, cf_enableMetrics = True, cf_bootstrap = [],
     cf_rateLimitCapacity = None, cf_rateLimitRefillRate = None\<rparr>"

definition demo_node :: "(string \<times> string) list node" where
  "demo_node = node_init 0 0 demo_config (toy_keys (CHR ''a'')) []"

definition demo_node_env :: node_env where
  "demo_node_env = \<lparr>ne_env = demo_env, ne_batch = (\<lambda>_. demo_env), ne_sync = \<lparr>se_io = good_io, se_now = 5, se_uid = ''fb1'', se_date = ''2024''\<rparr>,
     ne_rnd = 0\<rparr>"

lemma demo_node_fields:
  "nd_peerId demo_node = ''me''" "pr_pool (nd_peers demo_node) = pool_init ''me'' (Some (getPublicKey (toy_keys (CHR ''a''))))"
  "securityManager (nd_engine demo_node) = Some (security_init (toy_keys (CHR ''a'')) (Some ''me''))"
  "seenMessages (nd_engine demo_node) = []" "topicRouter (nd_engine demo_node) = []" "localSequences demo_node = []"
  "localSubscriptions demo_node = [''global'', ''dm:me'']"
  by (simp_all add: demo_node_def node_init_def demo_config_def config_peerId_def engine_init_def Let_def dm_topic_def set_of_array_def set_add_def)

lemma demo_own: "own_security toy_sodium demo_node (security_init (toy_keys (CHR ''a'')) (Some ''me''))"
  using toy_public_key [of "CHR ''a''"]
  by (simp add: own_security_def demo_node_fields toy_sodium_laws security_init_def truthy_def registerPeerKey_def toy_keys_ok pinned_def)

lemma demo_puzzle: "\<exists>k \<le> 1000000. verifyPuzzle (se_uid (ne_sync demo_node_env)) 500 k"
  using demo_pow(2) by (intro exI [of _ 0]) (simp add: pow_ok_def demo_message_def demo_node_env_def)

theorem hello_rebinds_identity_witness:
  "\<exists>sec'. securityManager (nd_engine (fst (snd (node_receive toy_sodium toy_level demo_node_env
      (In_Hello ''me'' (Some ''evil'') None) ''mallory'' demo_node)))) = Some sec' \<and> pinned ''me'' sec' = Some ''evil''"
  using hello_rebinds_identity [OF demo_node_fields(3) _ refl, of "''evil''" toy_sodium toy_level demo_node_env "''me''" None "''mallory''"]
  by auto

theorem published_message_stored_witness:
  "\<exists>n' m. fst (getById toy_level good_io ''fb1'' (sy_store (nd_sync n'))) = Inr (Some m) \<and> payload m = ''hi''
    \<and> n' = fst (snd (snd (publish toy_sodium toy_level demo_node_env ''global'' ''hi'' demo_node)))"
proof -
  obtain i r n' outs where p: "publish toy_sodium toy_level demo_node_env ''global'' ''hi'' demo_node = (i, r, n', outs)"
    by (cases "publish toy_sodium toy_level demo_node_env ''global'' ''hi'' demo_node")
  have cmd: "\<not> starts_with ''/summary'' (trim ''hi'')" "\<not> starts_with ''/keypoints'' (trim ''hi'')"
    by (simp_all add: starts_with_def trim_def js_white_def)
  have "i = ''fb1''"
    using arg_cong [OF p, of fst] cmd by (simp add: publish_def made_def createChat_def case_prod_beta demo_node_env_def)
  moreover have "se_io (ne_sync demo_node_env) = good_io" "se_uid (ne_sync demo_node_env) = ''fb1''" "io_ok good_io"
    by (simp_all add: demo_node_env_def good_io_def)
  ultimately obtain m where "fst (getById toy_level good_io ''fb1'' (sy_store (nd_sync n'))) = Inr (Some m)" "payload m = ''hi''"
    using published_message_stored [OF demo_own _ toy_level_laws _ _ demo_puzzle cmd p] by (auto simp: demo_node_fields)
  then show ?thesis using p by (intro exI [of _ n'] exI [of _ m]) simp
qed

theorem gone_peers_lose_routes_witness:
  "route_table (topicRouter (nd_engine (fst (snd (pool_do (\<lambda>pool. Inr (inbound_closed ''p'' pool))
      (set_router (router_subscribe ''p'' ''t'' []) demo_node)))))) (''t'', ''p'') = None"
proof -
  let ?n = "set_router (router_subscribe ''p'' ''t'' []) demo_node"
  have "router_ok (topicRouter (nd_engine ?n))" by (simp add: router_subscribe_def updateRoute_ok)
  from gone_peers_lose_routes [OF this, of "\<lambda>pool. Inr (inbound_closed ''p'' pool)", OF _ refl]
  have "route_table (topicRouter (nd_engine (fst (snd (pool_do (\<lambda>pool. Inr (inbound_closed ''p'' pool)) ?n))))) (''t'', ''p'') \<noteq> Some r" for r
    by (simp add: inbound_closed_def)
  then show ?thesis by (metis not_None_eq)
qed


section \<open>The summary cycle\<close>

lemma collect_chats_chat: "m \<in> set (collect_chats kvs) \<Longrightarrow> msg_type m = ''CHAT''"
proof (induction kvs rule: collect_chats.induct)
  case (2 k v rest)
  then show ?case by (cases "parse_message v") (auto split: if_splits)
qed simp

lemma last_n_props: "0 < k \<Longrightarrow> length (last_n k xs) \<le> k \<and> set (last_n k xs) \<subseteq> set xs"
  using set_drop_subset [of "length xs - k" xs] by (auto simp: last_n_def)

lemma on_store_quiet:
  "activeSummarizations (on_store f n) = activeSummarizations n"
  "seenMessages (nd_engine (on_store f n)) = seenMessages (nd_engine n)" "nd_peers (on_store f n) = nd_peers n"
  by (simp_all add: on_store_def on_sync_def)

lemma recent_messages:
  assumes "getRecentMessages lv io tp 25 n = (ms, n')"
  shows "length ms \<le> 25 \<and> (\<forall>m \<in> set ms. msg_type m = ''CHAT'')"
    "activeSummarizations n' = activeSummarizations n" "seenMessages (nd_engine n') = seenMessages (nd_engine n)"
  using assms last_n_props [of 25] collect_chats_chat
  by (auto simp: getRecentMessages_def Let_def on_store_quiet split: if_splits)

lemma summary_request_cases:
  assumes "summary_request lv io tp mode n = (n', out)" "tp \<notin> set (activeSummarizations n)"
  shows "seenMessages (nd_engine n') = seenMessages (nd_engine n)
    \<and> ((out = [] \<and> tp \<notin> set (activeSummarizations n')) \<or>
       (\<exists>ms. out = [Ai_Request tp mode ms] \<and> ms \<noteq> [] \<and> length ms \<le> 25 \<and> (\<forall>m \<in> set ms. msg_type m = ''CHAT'')))"
proof -
  define n1 where "n1 = n\<lparr>activeSummarizations := set_add (activeSummarizations n) tp\<rparr>"
  obtain ms n2 where g: "getRecentMessages lv io tp 25 n1 = (ms, n2)" by (cases "getRecentMessages lv io tp 25 n1")
  have eq: "summary_request lv io tp mode n =
    (if ms = [] then (n2\<lparr>activeSummarizations := set_delete (activeSummarizations n2) tp\<rparr>, []) else (n2, [Ai_Request tp mode ms]))"
    using assms(2) g by (simp add: summary_request_def Let_def n1_def)
  have "seenMessages (nd_engine n1) = seenMessages (nd_engine n)" by (simp add: n1_def)
  then show ?thesis
    using assms(1) recent_messages [OF g] unfolding eq by (cases "ms = []") auto
qed



end
