(* ===== verification/NodeInvariant.thy ===== *)
theory NodeInvariant
  imports Node
begin

text \<open>
  The node as one state machine: everything that can happen to a running node is an event, and
  the invariants the components' theorems assume hold in every reachable state. Timers of the
  acknowledgement manager are not events: nothing in the program calls \<open>sendWithAck\<close>.
\<close>

section \<open>Events\<close>

text \<open>The timer of a waiting synchronisation, with the sends that follow.\<close>

definition node_sync_timeout :: "'d level \<Rightarrow> node_env \<Rightarrow> nat \<Rightarrow> 'd node \<Rightarrow> outcome \<times> 'd node \<times> node_out list" where
  "node_sync_timeout lv ev sid n =
    (case on_sync (sync_timeout lv (nd_open n) (nd_peerId n) (ne_sync ev) sid) n of (n, sends) \<Rightarrow> sync_sends sends n)"

datatype node_event =
    Received node_env incoming peer_id
  | Frame_In node_env json peer_id
  | Inbound node_env peer_id nat "topic_name list"
  | Publish node_env topic_name string
  | Subscribe node_env topic_name
  | Unsubscribe node_env topic_name
  | Refresh "nat \<Rightarrow> node_env"
  | Collect_Garbage time
  | Summary_Reply node_env topic_name string nat "string option"
  | Sync_Timer node_env nat
  | On_The_Pool "wire pool_cmd"
  | Found_Peer time peer_id string nat
  | Ask_Peers
  | Gossip_Peers rat
  | Start "string \<Rightarrow> (string \<times> string) option" "nat \<Rightarrow> rat" bool bool node_config
  | Stop io_result

fun node_step :: "sodium \<Rightarrow> 'd level \<Rightarrow> node_event \<Rightarrow> 'd node \<Rightarrow> outcome \<times> 'd node \<times> node_out list" where
  "node_step s lv (Received ev inc frm) n = node_receive s lv ev inc frm n"
| "node_step s lv (Frame_In ev j frm) n = node_frame s lv ev j frm n"
| "node_step s lv (Inbound ev p sock subs) n = node_inbound lv ev p sock subs n"
| "node_step s lv (Publish ev tp content) n = snd (publish s lv ev tp content n)"
| "node_step s lv (Subscribe ev tp) n = node_subscribe s lv ev tp n"
| "node_step s lv (Unsubscribe ev tp) n = node_unsubscribe s lv ev tp n"
| "node_step s lv (Refresh evs) n = refreshSubscriptions s lv evs n"
| "node_step s lv (Collect_Garbage now) n = (Done, node_gc now n, [])"
| "node_step s lv (Summary_Reply ev tp mode count reply) n = (Done, summary_reply s lv ev tp mode count reply n)"
| "node_step s lv (Sync_Timer ev sid) n = node_sync_timeout lv ev sid n"
| "node_step s lv (On_The_Pool c) n = pool_do (pool_exec c) n"
| "node_step s lv (Found_Peer now p host port) n = peers_do (\<lambda>L. Inr (addPeer now p host port L)) n"
| "node_step s lv Ask_Peers n = peers_do (requestPeersFromAll (nd_peerId n)) n"
| "node_step s lv (Gossip_Peers r) n = peers_do (gossipPeerList (nd_peerId n) r) n"
| "node_step s lv (Start url rs ad br cf) n = (Done, fst (node_start url rs ad br cf n), [])"
| "node_step s lv (Stop io) n = (case node_stop lv io n of (n, shut, out) \<Rightarrow> (Done, n, map Net out))"

inductive reachable :: "sodium \<Rightarrow> 'd level \<Rightarrow> 'd node \<Rightarrow> bool" for s lv where
  init: "reachable s lv (node_init r now cf km d)"
| event: "reachable s lv n \<Longrightarrow> reachable s lv (fst (snd (node_step s lv e n)))"

section \<open>The invariant\<close>

definition engine_ok :: "engine \<Rightarrow> bool" where
  "engine_ok e \<longleftrightarrow> router_ok (topicRouter e) \<and> rl_ok (rateLimiter e) \<and> distinct (seenMessages e)"

definition node_ok :: "'d node \<Rightarrow> bool" where
  "node_ok n \<longleftrightarrow> engine_ok (nd_engine n) \<and> peers_ok (nd_peers n)
    \<and> distinct (localSubscriptions n) \<and> distinct (activeSummarizations n)"

text \<open>A result that keeps the invariant, and one that does not throw either.\<close>

definition safe :: "outcome \<times> 'd node \<times> node_out list \<Rightarrow> bool" where
  "safe r \<longleftrightarrow> node_ok (fst (snd r))"

definition sound :: "outcome \<times> 'd node \<times> node_out list \<Rightarrow> bool" where
  "sound r \<longleftrightarrow> safe r \<and> (\<forall>x. fst r \<noteq> Threw x)"

lemma engine_ok_simps [simp]:
  "engine_ok (e\<lparr>metrics := c\<rparr>) = engine_ok e" "engine_ok (e\<lparr>securityManager := sec\<rparr>) = engine_ok e"
  "engine_ok (e\<lparr>topicRouter := rs\<rparr>) \<longleftrightarrow> router_ok rs \<and> rl_ok (rateLimiter e) \<and> distinct (seenMessages e)"
  by (auto simp: engine_ok_def)

lemma peers_ok_simps [simp]:
  "peers_ok (L\<lparr>pr_metrics := c\<rparr>) = peers_ok L"
  "peers_ok (L\<lparr>pr_pool := p\<rparr>) \<longleftrightarrow> pool_ok p \<and> map_ok (st_peers (pr_state L))"
  by (auto simp: peers_ok_def)

lemma node_okD:
  assumes "node_ok n"
  shows "engine_ok (nd_engine n)" "peers_ok (nd_peers n)" "pool_ok (pr_pool (nd_peers n))"
    "router_ok (topicRouter (nd_engine n))"
  using assms by (auto simp: node_ok_def peers_ok_def engine_ok_def)

lemma node_ok_sync [simp]:
  "node_ok (n\<lparr>nd_sync := y\<rparr>) = node_ok n" "node_ok (n\<lparr>nd_acks := a\<rparr>) = node_ok n"
  "node_ok (n\<lparr>localSequences := q\<rparr>) = node_ok n" "node_ok (n\<lparr>newMessagesCounter := c\<rparr>) = node_ok n"
  "node_ok (n\<lparr>nd_sync := y, nd_engine := e\<rparr>) = node_ok (n\<lparr>nd_engine := e\<rparr>)"
  "node_ok (n\<lparr>nd_acks := a, nd_engine := e\<rparr>) = node_ok (n\<lparr>nd_engine := e\<rparr>)"
  by (auto simp: node_ok_def)

lemma node_ok_engine: "node_ok n \<Longrightarrow> engine_ok e \<Longrightarrow> node_ok (n\<lparr>nd_engine := e\<rparr>)"
  by (simp add: node_ok_def)

lemma node_ok_router: "node_ok n \<Longrightarrow> router_ok rs \<Longrightarrow> node_ok (set_router rs n)"
  by (simp add: node_ok_def set_router_def engine_ok_def)

lemma node_ok_heard: "node_ok n \<Longrightarrow> node_ok (heard outs n)"
  unfolding heard_def by (intro node_ok_router) (use listeners_table node_okD(4) in blast)+

section \<open>Running components\<close>

lemma sound_Done: "node_ok n \<Longrightarrow> sound (Done, n, outs)"
  by (simp add: sound_def safe_def)

lemma sound_and_then:
  assumes "sound r" "\<And>n. node_ok n \<Longrightarrow> sound (f n)"
  shows "sound (and_then r f)"
proof -
  obtain res n out where r: "r = (res, n, out)" by (cases r)
  obtain res' n' out' where f: "f n = (res', n', out')" by (cases "f n")
  show ?thesis using assms(1) assms(2) [of n] by (auto simp: and_then_def sound_def safe_def r f)
qed

lemma sound_pool_do:
  assumes "node_ok n" "\<And>pool. pool_ok pool \<Longrightarrow> \<exists>pool' outs. f pool = Inr (pool', outs) \<and> pool_ok pool'"
  shows "sound (pool_do f n)"
proof -
  obtain pool outs where f: "f (pr_pool (nd_peers n)) = Inr (pool, outs)" "pool_ok pool"
    using assms(2) [OF node_okD(3) [OF assms(1)]] by blast
  have "node_ok (n\<lparr>nd_peers := (nd_peers n)\<lparr>pr_pool := pool\<rparr>\<rparr>)"
    using assms(1) f(2) by (simp add: node_ok_def) (simp add: peers_ok_def)
  then show ?thesis using f(1) by (auto simp: pool_do_def intro!: sound_Done node_ok_heard)
qed

lemma pool_exec_sound: "pool_ok pool \<Longrightarrow> \<exists>pool' outs. pool_exec c pool = Inr (pool', outs) \<and> pool_ok pool'"
  by (metis pool_exec_ok)

lemmas pool_cmd_sound = pool_exec_sound [where c = "pool_cmd.Send p m" for p m, unfolded pool_exec.simps]
  pool_exec_sound [where c = "pool_cmd.Broadcast m x" for m x, unfolded pool_exec.simps]
  pool_exec_sound [where c = "Add_Inbound p i ts" for p i ts, unfolded pool_exec.simps]

lemma sound_peers_do:
  assumes "node_ok n" "\<And>L. peers_ok L \<Longrightarrow> \<exists>L' outs. f L = Inr (L', outs) \<and> peers_ok L'"
  shows "sound (peers_do f n)"
proof -
  let ?L = "(nd_peers n)\<lparr>pr_metrics := metrics (nd_engine n)\<rparr>"
  have "peers_ok ?L" using node_okD(2) [OF assms(1)] by simp
  then obtain L outs where f: "f ?L = Inr (L, outs)" "peers_ok L" using assms(2) by blast
  have "node_ok (n\<lparr>nd_peers := L, nd_engine := (nd_engine n)\<lparr>metrics := pr_metrics L\<rparr>\<rparr>)"
    using assms(1) f(2) by (simp add: node_ok_def)
  then show ?thesis using f(1) by (auto simp: peers_do_def on_peers_def intro!: sound_Done node_ok_heard)
qed

lemma node_ok_on_sync: "node_ok n \<Longrightarrow> node_ok (fst (on_sync f n))"
  by (auto simp: on_sync_def case_prod_beta node_ok_engine node_okD)

lemma node_ok_on_store: "node_ok n \<Longrightarrow> node_ok (on_store f n)"
  by (simp add: on_store_def node_ok_on_sync)

lemma sound_sync_sends: "node_ok n \<Longrightarrow> sound (sync_sends outs n)"
proof (induction outs arbitrary: n)
  case (Cons x outs)
  show ?case
  proof (cases x)
    case (Sync_Send p m)
    then show ?thesis using Cons by (simp only: sync_sends.simps) (intro sound_and_then sound_pool_do pool_cmd_sound(1))
  qed
qed (simp add: sound_Done)

lemma sound_start_sync: "node_ok n \<Longrightarrow> sound (start_sync lv ev p n)"
  by (simp add: start_sync_def case_prod_beta sound_sync_sends node_ok_on_sync)

section \<open>Gossip\<close>

text \<open>The advertisement that makes the engine throw.\<close>

definition sub_null :: "message \<Rightarrow> bool" where
  "sub_null m \<longleftrightarrow> msg_type m = ''SUB_AD'' \<and> json_parse (payload m) = Some JNull"

lemma sub_ad_change_router:
  "sub_ad_change now origin nh path x rs = Route b rs' \<Longrightarrow> router_ok rs \<Longrightarrow> router_ok rs'"
  using updateRoute_ok [of rs] removeRoute_ok [of rs]
  by (cases x) (auto simp: sub_ad_change_def split: if_splits option.splits prod.splits; metis snd_conv)

lemma receive_sub_ad_router:
  assumes "router_ok (topicRouter e)"
  shows "router_ok (topicRouter (fst (snd (receive_sub_ad ev me peers m frm e))))"
proof (cases "json_parse (payload m)")
  case None
  then show ?thesis using assms by (simp add: receive_sub_ad_def)
next
  case (Some j)
  let ?c = "sub_ad_change (t_route ev) (sender m) (if truthy frm then the frm else me) (path_of m)
                   (sub_ad_fields j) (topicRouter e)"
  have same: "topicRouter (fst (snd (propagate_sub_ad me peers (path_of m) m frm e))) = topicRouter e" for e
    by (simp add: propagate_sub_ad_def Let_def)
  show ?thesis
  proof (cases ?c)
    case (Route b rs)
    then have "router_ok rs" using sub_ad_change_router assms by blast
    then show ?thesis
      using assms Route same by (cases j) (auto simp: receive_sub_ad_def Some Let_def case_prod_beta)
  qed (use assms in \<open>cases j; auto simp: receive_sub_ad_def Some\<close>)+
qed

lemma receive_engine_ok:
  assumes "receiveMessage s ev me peers m frm e = (r, e', out)" "engine_ok e"
  shows "engine_ok e'"
proof -
  have "rl_ok (rateLimiter e')" using receive_rate [OF assms(1)] assms(2) checkLimit_ok by (auto simp: engine_ok_def)
  moreover have "distinct (seenMessages e')" using receive_ids [OF assms(1)] assms(2) by (auto simp: engine_ok_def)
  moreover have "router_ok (topicRouter e')"
    using assms(1)
  proof (cases rule: receive_cases)
    case (accepted e1 lims out1)
    then show ?thesis
      using receive_sub_ad_router [of e1 ev me peers m frm] receive_gossip_out(2) [of ev peers m frm e1 e' out1] assms(2)
      by (auto simp: engine_ok_def split: if_splits)
  qed (use assms(2) in \<open>simp add: engine_ok_def\<close>)
  ultimately show ?thesis by (simp add: engine_ok_def)
qed

lemma receive_threw: "receiveMessage s ev me peers m frm e = (Threw x, e', out) \<Longrightarrow> sub_null m"
  using receive_outcome [of s ev me peers m frm e x] by (simp add: sub_null_def)

lemma node_ok_summaries: "node_ok n \<Longrightarrow> distinct a \<Longrightarrow> node_ok (n\<lparr>activeSummarizations := a\<rparr>)"
  by (simp add: node_ok_def)

lemma recent_ok: "node_ok n \<Longrightarrow> node_ok (snd (getRecentMessages lv io tp k n))"
  by (simp add: getRecentMessages_def Let_def node_ok_on_store)

lemma node_ok_summary_request: "node_ok n \<Longrightarrow> node_ok (fst (summary_request lv io tp mode n))"
proof -
  assume n: "node_ok n"
  let ?n = "n\<lparr>activeSummarizations := set_add (activeSummarizations n) tp\<rparr>"
  have "node_ok ?n" using n by (intro node_ok_summaries) (auto simp: node_ok_def)
  then have r: "node_ok (snd (getRecentMessages lv io tp 25 ?n))" by (rule recent_ok)
  then have "distinct (activeSummarizations (snd (getRecentMessages lv io tp 25 ?n)))" by (simp add: node_ok_def)
  then show ?thesis using n r by (auto simp: summary_request_def Let_def case_prod_beta set_delete_def intro!: node_ok_summaries)
qed

lemma node_ok_message_new: "node_ok n \<Longrightarrow> node_ok (fst (on_message_new lv io m n))"
  using node_ok_summary_request [where lv = lv and io = io and tp = "msg_topic m" and mode = "''summary''"]
  by (auto simp: on_message_new_def Let_def case_prod_beta node_ok_on_store)

lemma sound_engine_effects: "node_ok n \<Longrightarrow> sound (engine_effects lv io xs n)"
proof (induction xs arbitrary: n)
  case (Cons x xs)
  show ?case
  proof (cases x)
    case (Broadcast m excl)
    then show ?thesis using Cons by (simp only: engine_effects.simps) (intro sound_and_then sound_pool_do pool_cmd_sound(2))
  next
    case (New_Message m)
    obtain n1 out where mn: "on_message_new lv io m n = (n1, out)" by (cases "on_message_new lv io m n")
    then have "node_ok n1" using node_ok_message_new [OF Cons.prems, of lv io m] by simp
    then show ?thesis
      using New_Message mn sound_and_then [OF sound_Done, of n1 "engine_effects lv io xs" out] Cons.IH by simp
  qed (use Cons in simp)
qed (simp add: sound_Done)

lemma gossip_ok:
  assumes "node_ok n"
  shows "safe (gossip s lv ev m frm n)" "fst (gossip s lv ev m frm n) = Threw x \<Longrightarrow> sub_null m"
proof -
  let ?peers = "getAllPeerIds (pr_pool (nd_peers n))"
  obtain r e out where rcv: "receiveMessage s (ne_env ev) (nd_peerId n) ?peers m frm (nd_engine n) = (r, e, out)"
    by (cases "receiveMessage s (ne_env ev) (nd_peerId n) ?peers m frm (nd_engine n)")
  have "node_ok (n\<lparr>nd_engine := e\<rparr>)" using receive_engine_ok [OF rcv] assms node_okD(1) node_ok_engine by blast
  from sound_engine_effects [OF this, of lv "se_io (ne_sync ev)" out] obtain r' n' outs where
    eff: "engine_effects lv (se_io (ne_sync ev)) out (n\<lparr>nd_engine := e\<rparr>) = (r', n', outs)" "node_ok n'" "\<forall>x. r' \<noteq> Threw x"
    by (cases "engine_effects lv (se_io (ne_sync ev)) out (n\<lparr>nd_engine := e\<rparr>)") (auto simp: sound_def safe_def)
  show "safe (gossip s lv ev m frm n)" using eff by (simp add: gossip_def rcv safe_def)
  show "fst (gossip s lv ev m frm n) = Threw x \<Longrightarrow> sub_null m"
    using eff rcv receive_threw by (auto simp: gossip_def split: if_splits)
qed

lemma gossip_sound: "node_ok n \<Longrightarrow> \<not> sub_null m \<Longrightarrow> sound (gossip s lv ev m frm n)"
  unfolding sound_def using gossip_ok(1) [of n s lv ev m frm] gossip_ok(2) [of n s lv ev m frm] by blast

section \<open>What the application calls\<close>

lemma node_ok_made: "node_ok n \<Longrightarrow> made c n = (m, n') \<Longrightarrow> node_ok n'"
  by (auto simp: made_def split: prod.splits)

lemma sign_type: "msg_type (sign_with s m n) = msg_type m" "payload (sign_with s m n) = payload m"
  by (simp_all add: sign_with_def signOutgoingMessage_def split: option.split)

lemma made_chat: "made (createChat uid date frm body tp key) n = (m, n') \<Longrightarrow> msg_type m = ''CHAT''"
  "made (createSummary uid date frm tp body meta key) n = (m, n') \<Longrightarrow> msg_type m = ''SUMMARY''"
  by (auto simp: made_def createChat_def createSummary_def createBaseMessage_def Let_def split: prod.splits)

lemma made_sub_ad:
  assumes "made (createSubAd uid date frm tp seq action path key) n = (m, n')"
  shows "\<not> sub_null (sign_with s m n'')"
proof -
  have "m = fst (createSubAd uid date frm tp seq action path key (sy_factory (nd_sync n)))"
    using assms by (auto simp: made_def split: prod.splits)
  then have p: "payload m = sub_ad_payload tp seq action"
    by (simp add: createSubAd_def createBaseMessage_def Let_def case_prod_beta)
  show ?thesis using sub_ad_payload_fields [of tp seq action] by (auto simp: sub_null_def sign_type p)
qed

lemma sound_publish: "node_ok n \<Longrightarrow> sound (snd (publish s lv ev tp content n))"
proof -
  assume n: "node_ok n"
  obtain m n1 where mk: "made (createChat (se_uid (ne_sync ev)) (se_date (ne_sync ev)) (nd_peerId n) content tp (own_key n)) n = (m, n1)"
    by (cases "made (createChat (se_uid (ne_sync ev)) (se_date (ne_sync ev)) (nd_peerId n) content tp (own_key n)) n")
  have "\<not> sub_null (sign_with s m n1)" using made_chat(1) [OF mk] by (simp add: sub_null_def sign_type)
  then have g: "sound (gossip s lv ev (sign_with s m n1) None n1)" using gossip_sound node_ok_made [OF n mk] by blast
  show ?thesis
    using g node_ok_summary_request [OF n] mk
    by (auto simp: publish_def Let_def case_prod_beta sound_def safe_def)
qed

lemma sound_advertise: "node_ok n \<Longrightarrow> sound (advertise s lv ev tp action n)"
proof -
  assume n: "node_ok n"
  let ?n = "n\<lparr>localSequences := map_set (localSequences n) tp (sequence_of tp n + 1)\<rparr>"
  let ?c = "createSubAd (se_uid (ne_sync ev)) (se_date (ne_sync ev)) (nd_peerId ?n) tp (sequence_of tp n + 1) action [] (own_key ?n)"
  obtain m n1 where mk: "made ?c ?n = (m, n1)" by (cases "made ?c ?n")
  have "node_ok n1" using node_ok_made [OF _ mk] n by simp
  then have "sound (gossip s lv ev (sign_with s m n1) None n1)" using gossip_sound made_sub_ad [OF mk] by blast
  then show ?thesis using mk by (simp add: advertise_def Let_def)
qed

lemma sound_refresh: "node_ok n \<Longrightarrow> sound (refresh_loop s lv evs i ts n)"
  by (induction ts arbitrary: i n) (simp_all add: sound_Done sound_and_then sound_advertise)

lemma sound_subscribe:
  assumes "node_ok n"
  shows "sound (node_subscribe s lv ev tp n)" "sound (node_unsubscribe s lv ev tp n)"
proof -
  have "node_ok (n\<lparr>localSubscriptions := set_add (localSubscriptions n) tp\<rparr>)"
    "node_ok (n\<lparr>localSubscriptions := set_delete (localSubscriptions n) tp\<rparr>)"
    using assms by (auto simp: node_ok_def set_delete_def)
  then show "sound (node_subscribe s lv ev tp n)" "sound (node_unsubscribe s lv ev tp n)"
    using assms by (simp_all add: node_subscribe_def node_unsubscribe_def sound_Done sound_advertise)
qed

lemma safe_summary_reply: "node_ok n \<Longrightarrow> node_ok (fst (summary_reply s lv ev tp mode count reply n))"
proof -
  assume n: "node_ok n"
  let ?c = "createSummary (se_uid (ne_sync ev)) (se_date (ne_sync ev)) (nd_peerId n) tp (the reply)
                 [(''mode'', JStr mode), (''messageCount'', JNum (int count))] (own_key n)"
  obtain m n1 where mk: "made ?c n = (m, n1)" by (cases "made ?c n")
  obtain r n2 outs where g: "gossip s lv ev (sign_with s m n1) None n1 = (r, n2, outs)"
    by (cases "gossip s lv ev (sign_with s m n1) None n1")
  have "node_ok n2" using gossip_ok(1) [OF node_ok_made [OF n mk], of s lv ev "sign_with s m n1" None] g by (simp add: safe_def)
  moreover from this have "distinct (activeSummarizations n2)" by (simp add: node_ok_def)
  moreover have "distinct (activeSummarizations n)" using n by (simp add: node_ok_def)
  ultimately show ?thesis
    using n mk g by (auto simp: summary_reply_def Let_def set_delete_def intro!: node_ok_summaries)
qed

section \<open>What the network delivers\<close>

text \<open>The inputs on which a handler throws.\<close>

fun malformed :: "incoming \<Rightarrow> bool" where
  "malformed In_Null = True"
| "malformed (In_Hello p key subs) = False"
| "malformed (In_Wire (W_Message m)) =
    (if msg_type m = ''SYNC_ACK'' then json_parse (payload m) \<in> {None, Some JNull}
     else if msg_type m = ''SYNC_BATCH'' then
       (case json_parse (payload m) of
          None \<Rightarrow> True
        | Some (JArr js) \<Rightarrow> list_ex (\<lambda>j. j = JNull \<or> (case message_of_json j of None \<Rightarrow> False | Some m' \<Rightarrow> sub_null m')) js
        | _ \<Rightarrow> False)
     else sub_null m)"
| "malformed (In_Wire w) = False"

lemma register_ok: "router_ok rs \<Longrightarrow> router_ok (register_subscriptions p now ts rs)"
  unfolding register_subscriptions_def by (induction ts arbitrary: rs) (simp_all add: updateRoute_ok)

lemma beat_sound: "peers_ok L \<Longrightarrow> \<exists>L' outs. Inr (updateHeartbeat now p lt L) = (Inr (L', outs) :: js_error + _) \<and> peers_ok L'"
  using updateHeartbeat_ok(1) [where L = L and now = now and p = p and lt = lt] by (metis prod.collapse)

lemma sound_hello: "node_ok n \<Longrightarrow> sound (node_hello lv ev p key subs n)"
proof -
  assume n: "node_ok n"
  let ?n = "n\<lparr>nd_engine := (nd_engine n)\<lparr>securityManager := map_option (registerPeerKey p key) (securityManager (nd_engine n))\<rparr>\<rparr>"
  have "node_ok ?n" using n node_okD(1) by (intro node_ok_engine) simp_all
  then have "sound (peers_do (\<lambda>L. Inr (updateHeartbeat (se_now (ne_sync ev)) p None L)) ?n)"
    by (intro sound_peers_do beat_sound)
  then show ?thesis
    unfolding node_hello_def Let_def
    by (rule sound_and_then) (auto simp: register_ok node_okD intro!: sound_start_sync node_ok_router split: option.split)
qed

lemma sound_inbound: "node_ok n \<Longrightarrow> sound (node_inbound lv ev p sock subs n)"
  unfolding node_inbound_def
  by (intro sound_and_then sound_pool_do sound_start_sync node_ok_router register_ok node_okD pool_cmd_sound(3))

lemma sound_ack: "node_ok n \<Longrightarrow> sound (node_ack ev m n)"
  by (auto simp: node_ack_def case_prod_beta node_ok_engine node_okD intro!: sound_Done)

lemma sync_feed_ok:
  assumes "sync_feed s evs me peers frm i js e = (r, e', out)" "engine_ok e"
  shows "engine_ok e' \<and> (r = Threw x \<longrightarrow> list_ex (\<lambda>j. j = JNull \<or> (case message_of_json j of None \<Rightarrow> False | Some m' \<Rightarrow> sub_null m')) js)"
  using assms
proof (induction js arbitrary: i e out)
  case (Cons j js)
  show ?case
  proof (cases "j = JNull")
    case False
    show ?thesis
    proof (cases "message_of_json j")
      case (Some m)
      show ?thesis
      proof (cases "msg_id m \<in> set (seenMessages e)")
        case True
        then show ?thesis using Cons.prems Cons.IH [of "Suc i" e out] False Some by simp
      next
        case fresh: False
        obtain r1 e1 out1 where rcv: "receiveMessage s (evs i) me peers m (Some frm) e = (r1, e1, out1)"
          by (cases "receiveMessage s (evs i) me peers m (Some frm) e")
        have e1: "engine_ok e1" by (rule receive_engine_ok [OF rcv Cons.prems(2)])
        show ?thesis
        proof (cases "r1 = Done")
          case True
          obtain r2 e2 out2 where f: "sync_feed s evs me peers frm (Suc i) js e1 = (r2, e2, out2)"
            by (cases "sync_feed s evs me peers frm (Suc i) js e1")
          have "r = r2" "e' = e2" using Cons.prems(1) False Some fresh rcv True f by auto
          then show ?thesis using Cons.IH [of "Suc i" e1 out2] f e1 by simp
        next
          case stop: False
          then have "r = r1" "e' = e1" using Cons.prems(1) False Some fresh rcv by auto
          then show ?thesis using e1 rcv Some receive_threw by auto
        qed
      qed
    qed (use Cons.prems False in auto)
  qed (use Cons.prems in auto)
qed auto

lemma sync_batch_ok:
  assumes "node_ok n"
  shows "safe (node_sync_batch s lv ev m frm n)"
    "msg_type m = ''SYNC_BATCH'' \<Longrightarrow> fst (node_sync_batch s lv ev m frm n) = Threw x \<Longrightarrow> malformed (In_Wire (W_Message m))"
proof -
  let ?call = "receiveSyncBatch s (ne_batch ev) (se_uid (ne_sync ev)) (se_date (ne_sync ev)) (nd_peerId n)
            (getAllPeerIds (pr_pool (nd_peers n))) m frm (nd_engine n, sy_factory (nd_sync n))"
  obtain r e f out sends where c: "?call = (r, (e, f), out, sends)" by (cases ?call) auto
  have eng: "engine_ok (nd_engine n)" by (rule node_okD(1) [OF assms])
  have call: "engine_ok e \<and> (r = Threw x \<longrightarrow> (case json_parse (payload m) of
          None \<Rightarrow> True
        | Some (JArr js) \<Rightarrow> list_ex (\<lambda>j. j = JNull \<or> (case message_of_json j of None \<Rightarrow> False | Some m' \<Rightarrow> sub_null m')) js
        | _ \<Rightarrow> False))" for x
  proof (cases "json_parse (payload m)")
    case (Some j)
    show ?thesis
    proof (cases j)
      case (JArr js)
      obtain r1 e1 out1 where f: "sync_feed s (ne_batch ev) (nd_peerId n) (getAllPeerIds (pr_pool (nd_peers n))) frm 0 js (nd_engine n) = (r1, e1, out1)"
        by (cases "sync_feed s (ne_batch ev) (nd_peerId n) (getAllPeerIds (pr_pool (nd_peers n))) frm 0 js (nd_engine n)")
      have "e = e1 \<and> r = r1"
        using c f Some JArr by (auto simp: receiveSyncBatch_def split: if_splits prod.splits)
      then show ?thesis using sync_feed_ok [OF f eng] Some JArr by simp
    qed (use c Some eng in \<open>auto simp: receiveSyncBatch_def\<close>)
  qed (use c eng in \<open>auto simp: receiveSyncBatch_def\<close>)
  let ?n = "n\<lparr>nd_engine := e, nd_sync := (nd_sync n)\<lparr>sy_factory := f\<rparr>\<rparr>"
  let ?eff = "engine_effects lv (se_io (ne_sync ev)) out ?n"
  have "node_ok ?n" using assms call by (simp add: node_ok_def)
  from sound_engine_effects [OF this, of lv "se_io (ne_sync ev)" out]
  obtain r1 n1 outs1 where eff: "?eff = (r1, n1, outs1)" "node_ok n1" "\<forall>x. r1 \<noteq> Threw x"
    by (cases ?eff) (auto simp: sound_def safe_def)
  obtain r2 n2 outs2 where snd: "sync_sends sends n1 = (r2, n2, outs2)" "node_ok n2" "\<forall>x. r2 \<noteq> Threw x"
    using sound_sync_sends [OF eff(2), of sends] by (cases "sync_sends sends n1") (auto simp: sound_def safe_def)
  have eq: "node_sync_batch s lv ev m frm n = and_then ?eff (\<lambda>n. and_then (r, n, []) (sync_sends sends))"
    by (simp add: node_sync_batch_def c)
  show "safe (node_sync_batch s lv ev m frm n)"
    unfolding eq using eff snd by (simp add: and_then_def safe_def)
  show "malformed (In_Wire (W_Message m))" if "msg_type m = ''SYNC_BATCH''" "fst (node_sync_batch s lv ev m frm n) = Threw x"
  proof -
    have "r = Threw x" using that(2) eff snd unfolding eq by (auto simp: and_then_def split: if_splits)
    then show ?thesis using call [of x] that(1) by simp
  qed
qed

lemma sync_ack_ok:
  assumes "node_ok n"
  shows "safe (node_sync_ack lv ev m frm n)"
    "msg_type m = ''SYNC_ACK'' \<Longrightarrow> fst (node_sync_ack lv ev m frm n) = Threw x \<Longrightarrow> malformed (In_Wire (W_Message m))"
proof -
  let ?call = "receiveSyncAck lv (nd_open n) (nd_peerId n) (ne_sync ev) m frm (nd_sync n)"
  have rest: "sound (case on_sync (\<lambda>y. case receiveSyncAck lv (nd_open n) (nd_peerId n) (ne_sync ev) m frm y of Inl _ \<Rightarrow> (y, []) | Inr r \<Rightarrow> r) n of
            (n, sends) \<Rightarrow> sync_sends sends n)"
    by (simp add: case_prod_beta sound_sync_sends node_ok_on_sync assms)
  show "safe (node_sync_ack lv ev m frm n)"
    using rest assms by (cases ?call) (simp_all add: node_sync_ack_def sound_def safe_def)
  show "malformed (In_Wire (W_Message m))" if "msg_type m = ''SYNC_ACK''" "fst (node_sync_ack lv ev m frm n) = Threw x"
  proof (cases ?call)
    case (Inl y)
    then have "\<exists>z. ack_batch m = Inl z" by (auto simp: receiveSyncAck_def split: sum.splits)
    then show ?thesis using that(1) by (auto simp: ack_batch_def split: option.splits json.splits)
  next
    case (Inr y)
    then show ?thesis using rest that(2) by (simp add: node_sync_ack_def sound_def)
  qed
qed

lemma pex_sound:
  assumes "peers_ok L"
  shows "\<exists>L' outs. pex_handleRequest me q L = Inr (L', outs) \<and> peers_ok L'"
    "\<exists>L' outs. pex_on_message now me w frm L = Inr (L', outs) \<and> peers_ok L'"
    "\<exists>L' outs. requestPeersFromAll me L = Inr (L', outs) \<and> peers_ok L'"
    "\<exists>L' outs. gossipPeerList me r L = Inr (L', outs) \<and> peers_ok L'"
proof -
  have pool: "pool_ok (pr_pool L)" and st: "map_ok (st_peers (pr_state L))" using assms by (simp_all add: peers_ok_def)
  have rq: "\<exists>L' outs. pex_handleRequest me q L = Inr (L', outs) \<and> peers_ok L'" for q
    using pool_cmd_sound(1) [OF pool, of q "W_Peer_List (peer_list_for me q (pr_state L))"] st
    by (auto simp: pex_handleRequest_def)
  then show "\<exists>L' outs. pex_handleRequest me q L = Inr (L', outs) \<and> peers_ok L'" .
  show "\<exists>L' outs. requestPeersFromAll me L = Inr (L', outs) \<and> peers_ok L'"
    using pool_cmd_sound(2) [OF pool, of "W_Pex_Request me" "[]"] st by (auto simp: requestPeersFromAll_def)
  show "\<exists>L' outs. gossipPeerList me r L = Inr (L', outs) \<and> peers_ok L'"
    using rq assms by (auto simp: gossipPeerList_def Let_def)
  have rs: "\<exists>L' outs. pex_handleResponse now me ps L = (L', outs) \<and> peers_ok L'" for ps
    using pex_response_registry [OF assms, of now me ps] by (metis prod.collapse)
  show "\<exists>L' outs. pex_on_message now me w frm L = Inr (L', outs) \<and> peers_ok L'"
  proof (cases w)
    case (W_Pex_Request q)
    then show ?thesis using rq by (simp add: pex_on_message_def)
  next
    case (W_Peer_List ps)
    then show ?thesis using rs [of ps] by (auto simp: pex_on_message_def)
  next
    case (W_Message m)
    then show ?thesis using rq assms by (simp add: pex_on_message_def)
  qed
qed

lemma receive_ok:
  assumes "node_ok n"
  shows "safe (node_receive s lv ev inc frm n) \<and> (fst (node_receive s lv ev inc frm n) = Threw x \<longrightarrow> malformed inc)"
proof (cases inc)
  case In_Null
  then show ?thesis using assms by (simp add: node_receive_def safe_def)
next
  case (In_Hello p key subs)
  then show ?thesis using sound_hello [OF assms] by (simp add: node_receive_def sound_def)
next
  case (In_Wire w)
  show ?thesis
  proof (cases w)
    case (W_Message m)
    have pex: "sound (peers_do (pex_on_message (se_now (ne_sync ev)) (nd_peerId n) (W_Message m) frm) n)"
      by (intro sound_peers_do assms pex_sound)
    have beat: "sound (peers_do (\<lambda>L. Inr (updateHeartbeat (se_now (ne_sync ev)) (sender m) None L)) n)"
      by (intro sound_peers_do assms beat_sound)
    consider "msg_type m = ''ACK''" | "msg_type m = ''SYNC_BATCH''" | "msg_type m = ''SYNC_ACK''" | "msg_type m = ''HELLO''"
      | "msg_type m = ''HEARTBEAT''" | "msg_type m = ''PEER_EXCHANGE'' \<or> msg_type m = ''PEER_LIST''"
      | "msg_type m \<notin> {''ACK'', ''SYNC_BATCH'', ''SYNC_ACK'', ''HELLO'', ''HEARTBEAT'', ''PEER_EXCHANGE'', ''PEER_LIST''}"
      by blast
    then show ?thesis
    proof cases
      case 1
      then show ?thesis using In_Wire W_Message sound_ack [OF assms] by (simp add: node_receive_def sound_def)
    next
      case 2
      then show ?thesis using In_Wire W_Message sync_batch_ok [OF assms] by (simp add: node_receive_def del: malformed.simps)
    next
      case 3
      then show ?thesis using In_Wire W_Message sync_ack_ok [OF assms] by (simp add: node_receive_def del: malformed.simps)
    next
      case 4
      then show ?thesis using In_Wire W_Message assms by (simp add: node_receive_def safe_def)
    next
      case 5
      then show ?thesis using In_Wire W_Message beat by (simp add: node_receive_def sound_def)
    next
      case 6
      then show ?thesis using In_Wire W_Message pex by (auto simp: node_receive_def sound_def)
    next
      case 7
      then show ?thesis using In_Wire W_Message gossip_ok [OF assms] by (simp add: node_receive_def)
    qed
  qed (use In_Wire sound_peers_do [OF assms pex_sound(2)] in \<open>simp_all add: node_receive_def sound_def\<close>)
qed

section \<open>Every reachable node\<close>

lemma safe_stop: "node_ok n \<Longrightarrow> node_ok (fst (node_stop lv io n))"
proof -
  assume n: "node_ok n"
  have pool: "pool_ok (fst (pool_clear (pr_pool (nd_peers n))))"
    using pool_exec_ok [OF node_okD(3) [OF n], of Clear_All] by (metis fst_conv pool_exec.simps(8) sum.inject(2))
  have map: "map_ok (st_peers (pr_state (nd_peers n)))" using node_okD(2) [OF n] by (simp add: peers_ok_def)
  have rest: "node_ok (n'\<lparr>nd_stored := False, nd_open := False\<rparr>) = node_ok n'" for n' :: "'a node" by (simp add: node_ok_def)
  show ?thesis
    using n pool map
    by (auto simp: node_stop_def Let_def case_prod_beta rest intro!: node_ok_on_store node_ok_heard) (simp_all add: node_ok_def)
qed

lemma step_ok:
  assumes "node_ok n"
  shows "safe (node_step s lv e n) \<and> (fst (node_step s lv e n) = Threw x \<longrightarrow>
    (\<exists>ev inc frm. malformed inc \<and> (e = Received ev inc frm \<or> (\<exists>j. e = Frame_In ev j frm \<and> incoming_of_json j = Some inc))))"
proof (cases e)
  case (Received ev inc frm)
  then show ?thesis using receive_ok [OF assms] by simp
next
  case (Frame_In ev j frm)
  show ?thesis
  proof (cases "incoming_of_json j")
    case None
    then show ?thesis using assms Frame_In by (simp add: node_frame_def safe_def)
  next
    case (Some inc)
    then show ?thesis using receive_ok [OF assms] Frame_In by (simp add: node_frame_def)
  qed
next
  case (On_The_Pool c)
  have "sound (pool_do (pool_exec c) n)" by (intro sound_pool_do assms pool_exec_sound)
  then show ?thesis using On_The_Pool by (simp add: sound_def)
next
  case (Found_Peer now p h port)
  have "\<exists>L' outs. Inr (addPeer now p h port L) = (Inr (L', outs) :: js_error + _) \<and> peers_ok L'" if "peers_ok L" for L :: "wire peers"
    using addPeer_ok(1) [OF that, of now p h port] by (metis prod.collapse)
  then have "sound (peers_do (\<lambda>L. Inr (addPeer now p h port L)) n)" by (intro sound_peers_do assms)
  then show ?thesis using Found_Peer by (simp add: sound_def)
next
  case Ask_Peers
  have "sound (peers_do (requestPeersFromAll (nd_peerId n)) n)" by (intro sound_peers_do assms pex_sound)
  then show ?thesis using Ask_Peers by (simp add: sound_def)
next
  case (Gossip_Peers r)
  have "sound (peers_do (gossipPeerList (nd_peerId n) r) n)" by (intro sound_peers_do assms pex_sound)
  then show ?thesis using Gossip_Peers by (simp add: sound_def)
next
  case (Sync_Timer ev sid)
  have "sound (node_sync_timeout lv ev sid n)"
    by (simp add: node_sync_timeout_def case_prod_beta sound_sync_sends node_ok_on_sync assms)
  then show ?thesis using Sync_Timer by (simp add: sound_def)
next
  case (Collect_Garbage now)
  have "router_ok (router_gc now (topicRouter (nd_engine n)))"
    using sweep_ok node_okD(4) [OF assms] by (simp add: gc_sweep)
  then show ?thesis using Collect_Garbage assms by (simp add: safe_def node_gc_def node_ok_router)
next
  case (Start url rs ad br cf)
  have "node_ok (fst (node_start url rs ad br cf n))"
    using assms by (simp add: node_start_def case_prod_beta) (simp add: node_ok_def)
  then show ?thesis using Start by (simp add: safe_def)
next
  case (Stop io)
  then show ?thesis using safe_stop [OF assms, of lv io] by (simp add: safe_def case_prod_beta)
next
  case (Publish ev tp content)
  then show ?thesis using sound_publish [OF assms, of s lv ev tp content] by (simp add: sound_def)
next
  case (Subscribe ev tp)
  then show ?thesis using sound_subscribe(1) [OF assms, of s lv ev tp] by (simp add: sound_def)
next
  case (Unsubscribe ev tp)
  then show ?thesis using sound_subscribe(2) [OF assms, of s lv ev tp] by (simp add: sound_def)
next
  case (Refresh evs)
  then show ?thesis using sound_refresh [OF assms, of s lv evs] by (simp add: sound_def refreshSubscriptions_def)
next
  case (Inbound ev p sock subs)
  then show ?thesis using sound_inbound [OF assms, of lv ev p sock subs] by (simp add: sound_def)
next
  case (Summary_Reply ev tp mode k reply)
  then show ?thesis using safe_summary_reply [OF assms, of s lv ev tp mode k reply] by (simp add: safe_def case_prod_beta)
qed

lemma init_ok: "node_ok (node_init r now cf km d)"
  by (simp add: node_ok_def node_init_def Let_def engine_ok_def engine_init_def rl_init_ok peers_ok_def state_init_def)

text \<open>
  C7: every reachable node is consistent: from the start on, in any order of deliveries, calls
  of the application, timers, pool and socket events, discoveries and stops, whatever the
  clock, the storage and the network answer, the connection maps and the registry hold one
  entry per peer and at most \<open>MAX_PEERS\<close> outbound connections, the routing table has unique
  keys and no empty topic, every token bucket is within its bounds, and the sets of seen ids,
  local subscriptions and running summaries have no duplicates.
\<close>

theorem reachable_nodes_ok:
  assumes "reachable s lv n"
  shows "node_ok n \<and> length (outboundConnections (pr_pool (nd_peers n))) \<le> MAX_PEERS"
proof -
  have "node_ok n"
    using assms
  proof induction
    case (init r now cf km d)
    show ?case by (rule init_ok)
  next
    case (event n e)
    then show ?case using step_ok [of n s lv e] by (simp add: safe_def)
  qed
  then show ?thesis using node_okD(3) by (auto simp: pool_ok_def)
qed

theorem reachable_nodes_ok_witness:
  "node_ok (fst (snd (node_subscribe toy_sodium toy_level demo_node_env ''t'' demo_node)))"
proof -
  have "reachable toy_sodium toy_level (fst (snd (node_step toy_sodium toy_level (Subscribe demo_node_env ''t'') demo_node)))"
    unfolding demo_node_def by (intro reachable.intros)
  from reachable_nodes_ok [OF this] show ?thesis by simp
qed



end
