(* ===== verification/EndToEnd.thy ===== *)
theory EndToEnd
  imports Node
begin

text \<open>
  From one node to another: what the author's node puts on its sockets is parsed, checked,
  shown and stored by the node that receives it, through the whole path of
  \<^verbatim>\<open>node/index.js\<close> on both sides.
\<close>

section \<open>Reading a printed message\<close>

lemma message_json_type: "json_field ''type'' (message_json m) = Some (JStr (msg_type m))"
  by (simp add: json_field_def message_json_def)

lemma parse_print: "json_parse (print_message m) = Some (message_json m)"
  by (simp add: print_message_def json_roundtrip message_json_ok)

text \<open>A frame that carries a chat reaches the gossip engine.\<close>

lemma chat_frame:
  assumes "msg_type m = ''CHAT''"
  shows "node_frame s lv ev (message_json m) frm n = gossip s lv ev m (Some frm) n"
  using assms message_json_type [of m] message_json_not_null [of m] message_of_json_json [of m]
  by (simp add: node_frame_def incoming_of_json_def node_receive_def)

section \<open>Delivery\<close>

text \<open>With no more peers than the fan-out, a global message of one's own goes to all others.\<close>

lemma small_selection:
  assumes "msg_topic m = ''global''" "distinct peers" "length peers \<le> GOSSIP_FANOUT" "p \<in> set peers" "p \<noteq> sender m"
  shows "p \<in> set (gossip_selection ev peers m None e)"
proof -
  let ?el = "filter (\<lambda>p. p \<noteq> sender m) peers"
  have el: "eligible_peers ev peers m None e = ?el"
    using assms(1) by (simp add: eligible_peers_def truthy_def set_add_def)
  have "length ?el \<le> GOSSIP_FANOUT" using assms(3) length_filter_le [of _ peers] order.trans by blast
  then have sel: "gossip_selection ev peers m None e = select_random (length ?el) (rnd ev) ?el"
    by (simp only: gossip_selection_def el Let_def min_absorb2)
  have d: "distinct ?el" using assms(2) by simp
  note props = select_random_props [OF d order.refl, of "rnd ev"]
  have "set (select_random (length ?el) (rnd ev) ?el) = set ?el"
    by (rule card_subset_eq) (use props d in \<open>simp_all only: finite_set distinct_card\<close>)
  then show ?thesis unfolding sel using assms(4,5) by simp
qed

text \<open>A message of a peer whose key is pinned, signed under that key, passes the receiver's checks.\<close>

lemma pinned_admissible:
  assumes "securityManager e = Some sec" "pinned (sender m) sec = Some key" "pow_ok m"
    and "truthy (signature m)" "km_verify s (payloadToSign m) (the (signature m)) key"
    and "fst (checkLimit (t_check ev) (t_refill ev) frm (rateLimiter e))"
  shows "admissible s ev m (Some frm) e"
  using assms key_for_pinned [OF assms(2)] by (simp add: admissible_def verify_result)

text \<open>A receiver that is ready for a message of a peer: key pinned, id new, within the rate limit.\<close>

definition ready_for :: "node_env \<Rightarrow> peer_id \<Rightarrow> string \<Rightarrow> string \<Rightarrow> peer_id \<Rightarrow> 'd node \<Rightarrow> bool" where
  "ready_for ev author key i frm n \<longleftrightarrow>
    (\<exists>sec. securityManager (nd_engine n) = Some sec \<and> pinned author sec = Some key)
    \<and> i \<notin> set (seenMessages (nd_engine n)) \<and> pool_ok (pr_pool (nd_peers n))
    \<and> fst (checkLimit (t_check (ne_env ev)) (t_refill (ne_env ev)) frm (rateLimiter (nd_engine n)))"

lemma chat_delivered:
  assumes "ready_for ev (sender m) key (msg_id m) frm n" "msg_type m = ''CHAT''" "pow_ok m"
    and "truthy (signature m)" "km_verify s (payloadToSign m) (the (signature m)) key"
    and "level_laws lv" "io_ok (se_io (ne_sync ev))"
    and "node_frame s lv ev (message_json m) frm n = (r, n', outs)"
  shows "r = Done \<and> App_Message (m\<lparr>ttl := ttl m - 1\<rparr>) \<in> set outs
    \<and> fst (getById lv (se_io (ne_sync ev)) (msg_id m) (sy_store (nd_sync n'))) = Inr (Some (m\<lparr>ttl := ttl m - 1\<rparr>))"
proof -
  let ?m' = "m\<lparr>ttl := ttl m - 1\<rparr>"
  obtain sec where sec: "securityManager (nd_engine n) = Some sec" "pinned (sender m) sec = Some key"
    using assms(1) by (auto simp: ready_for_def)
  have "admissible s (ne_env ev) m (Some frm) (nd_engine n)"
    by (rule pinned_admissible [OF sec]) (use assms in \<open>simp_all add: ready_for_def\<close>)
  from gossip_chat [OF this _ _ _ refl refl assms(8) [unfolded chat_frame [OF assms(2)]]]
  have g: "r = Done" "App_Message ?m' \<in> set outs"
    "stored lv n' = (stored lv n)(store_key ?m' \<mapsto> print_message ?m', index_key (msg_id ?m') \<mapsto> store_key ?m')"
    using assms(1,2,6,7) by (auto simp: ready_for_def)
  have "fst (getById lv (se_io (ne_sync ev)) (msg_id m) (sy_store (nd_sync n'))) = Inr (Some ?m')"
    by (rule stored_lookup [OF assms(6,7), of n' "msg_id m" "store_key ?m'"]) (simp_all add: g(3) store_key_def)
  with g show ?thesis by simp
qed

text \<open>What publishing a chat puts on the sockets.\<close>

lemma publish_sent:
  assumes "own_security s A sec" "pool_ok (pr_pool (nd_peers A))"
    and "se_uid (ne_sync ev) \<notin> set (seenMessages (nd_engine A))" "\<exists>k \<le> 1000000. verifyPuzzle (se_uid (ne_sync ev)) 500 k"
    and "\<not> starts_with ''/summary'' (trim content)" "\<not> starts_with ''/keypoints'' (trim content)"
    and "publish s lv ev tp content A = (i, r, A', outs)"
  obtains m where "r = Done" "msg_id m = i" "sender m = nd_peerId A" "payload m = content" "msg_topic m = tp" "ttl m = MAX_TTL - 1"
    "msg_type m = ''CHAT''" "pow_ok m" "truthy (signature m)"
    "km_verify s (payloadToSign m) (the (signature m)) (getPublicKey (keyManager sec))"
    "\<forall>x \<in> set (sent outs). frame_sent x \<in> {None, Some (W_Message m)}"
    "tp = ''global'' \<and> length (getAllPeerIds (pr_pool (nd_peers A))) \<le> GOSSIP_FANOUT \<longrightarrow>
      (\<forall>p. p \<noteq> nd_peerId A \<longrightarrow> on_wire p (sent outs) + queued p (pr_pool (nd_peers A'))
        = queued p (pr_pool (nd_peers A)) + connections p (pr_pool (nd_peers A)))"
proof -
  let ?uid = "se_uid (ne_sync ev)" and ?pool = "pr_pool (nd_peers A)"
  obtain m f where c: "createChat ?uid (se_date (ne_sync ev)) (nd_peerId A) content tp (own_key A) (sy_factory (nd_sync A)) = (m, f)"
    by (cases "createChat ?uid (se_date (ne_sync ev)) (nd_peerId A) content tp (own_key A) (sy_factory (nd_sync A))")
  have fields: "msg_id m = ?uid" "msg_type m = ''CHAT''" "payload m = content" "msg_topic m = tp" "sender m = nd_peerId A"
    "ttl m = MAX_TTL" "powNonce m = Some (solvePuzzle ?uid 500)"
    using arg_cong [OF c, of fst] by (auto simp: createChat_def)
  have pow: "pow_ok m" using pow.solve_verifies [OF assms(4)] by (simp add: pow_ok_def fields)
  let ?A = "A\<lparr>nd_sync := (nd_sync A)\<lparr>sy_factory := f\<rparr>\<rparr>"
  have own: "own_security s ?A sec" using assms(1) by (simp add: own_security_def)
  have run: "i = msg_id m" "gossip s lv ev (sign_with s m ?A) None ?A = (r, A', outs)"
    using assms(5-7) c by (auto simp: publish_def made_def)
  define m1 where "m1 = (sign_with s m ?A)\<lparr>ttl := ttl m - 1\<rparr>"
  define sel where "sel = gossip_selection (ne_env ev) (getAllPeerIds ?pool) (sign_with s m ?A) None (nd_engine A)"
  have adm: "admissible s (ne_env ev) (sign_with s m ?A) None (nd_engine ?A)"
    by (rule own_admissible [OF own]) (use fields pow in simp_all)
  have g: "r = Done" "\<forall>x \<in> set (sent outs). frame_sent x \<in> {None, Some (W_Message m1)}"
    "\<And>p. on_wire p (sent outs) + queued p (pr_pool (nd_peers A')) = queued p ?pool + (if p \<in> set sel then connections p ?pool else 0)"
    using gossip_chat [OF adm _ _ _ refl refl run(2)] assms(2,3) fields
    by (simp_all add: signed_same m1_def sel_def MAX_TTL_def)
  have flood: "on_wire p (sent outs) + queued p (pr_pool (nd_peers A')) = queued p ?pool + connections p ?pool"
    if "tp = ''global''" "length (getAllPeerIds ?pool) \<le> GOSSIP_FANOUT" "p \<noteq> nd_peerId A" for p
    using g(3) [of p] connections_none [of p ?pool] small_selection [of "sign_with s m ?A" "getAllPeerIds ?pool" p "ne_env ev" "nd_engine A"]
      that fields by (auto simp: sel_def signed_same)
  show thesis
    by (rule that [of m1])
      (use g(1,2) flood fields run(1) own_signature [OF own, of m] pow in
        \<open>simp_all add: m1_def signed_same payloadToSign_def pow_ok_def\<close>)
qed

text \<open>
  C3: a published chat arrives: let a node whose own key is pinned publish a chat that is no
  command, under a fresh id whose puzzle has a solution. Whatever it puts on its sockets is one
  and the same signed message; when the topic is global and no more than GOSSIP\_FANOUT peers
  are connected, every one of them but the author gets a copy per connection, written or
  queued. Any node that has pinned the author's key, has not seen the id and has a token left
  for the neighbour the frame comes from reads the printed frame back, accepts it, shows it and
  stores it under the returned id, with the author's text, topic and name.
\<close>

theorem published_message_delivered:
  assumes "own_security s A sec" "pool_ok (pr_pool (nd_peers A))"
    and "se_uid (ne_sync evA) \<notin> set (seenMessages (nd_engine A))" "\<exists>k \<le> 1000000. verifyPuzzle (se_uid (ne_sync evA)) 500 k"
    and "\<not> starts_with ''/summary'' (trim content)" "\<not> starts_with ''/keypoints'' (trim content)"
    and "publish s lvA evA tp content A = (i, r, A', outsA)"
    and "ready_for evB (nd_peerId A) (getPublicKey (keyManager sec)) i frm B"
    and "level_laws lvB" "io_ok (se_io (ne_sync evB))"
  shows "\<exists>m. r = Done \<and> msg_id m = i \<and> sender m = nd_peerId A \<and> payload m = content \<and> msg_topic m = tp \<and> ttl m = MAX_TTL - 1
    \<and> (\<forall>x \<in> set (sent outsA). frame_sent x \<in> {None, Some (W_Message m)})
    \<and> (tp = ''global'' \<and> length (getAllPeerIds (pr_pool (nd_peers A))) \<le> GOSSIP_FANOUT \<longrightarrow>
        (\<forall>p. p \<noteq> nd_peerId A \<longrightarrow> on_wire p (sent outsA) + queued p (pr_pool (nd_peers A'))
          = queued p (pr_pool (nd_peers A)) + connections p (pr_pool (nd_peers A))))
    \<and> (\<exists>j B' outsB. json_parse (print_message m) = Some j \<and> node_frame s lvB evB j frm B = (Done, B', outsB)
        \<and> App_Message (m\<lparr>ttl := ttl m - 1\<rparr>) \<in> set outsB
        \<and> fst (getById lvB (se_io (ne_sync evB)) i (sy_store (nd_sync B'))) = Inr (Some (m\<lparr>ttl := ttl m - 1\<rparr>)))"
proof -
  obtain m where m: "r = Done" "msg_id m = i" "sender m = nd_peerId A" "payload m = content" "msg_topic m = tp" "ttl m = MAX_TTL - 1"
    "msg_type m = ''CHAT''" "pow_ok m" "truthy (signature m)"
    "km_verify s (payloadToSign m) (the (signature m)) (getPublicKey (keyManager sec))"
    and out: "\<forall>x \<in> set (sent outsA). frame_sent x \<in> {None, Some (W_Message m)}"
    "tp = ''global'' \<and> length (getAllPeerIds (pr_pool (nd_peers A))) \<le> GOSSIP_FANOUT \<longrightarrow>
      (\<forall>p. p \<noteq> nd_peerId A \<longrightarrow> on_wire p (sent outsA) + queued p (pr_pool (nd_peers A'))
        = queued p (pr_pool (nd_peers A)) + connections p (pr_pool (nd_peers A)))"
    by (rule publish_sent [OF assms(1-7)])
  obtain rB B' outsB where b: "node_frame s lvB evB (message_json m) frm B = (rB, B', outsB)"
    by (cases "node_frame s lvB evB (message_json m) frm B")
  note d = chat_delivered [OF _ m(7-10) assms(9,10) b, unfolded m(2,3), OF assms(8)]
  show ?thesis using m(1-6) out d b parse_print [of m] by (intro exI [of _ m]) auto
qed


section \<open>Two concrete nodes\<close>

definition demo_receiver :: "(string \<times> string) list node" where
  "demo_receiver =
    (let n = node_init 0 0 (demo_config\<lparr>cf_peerId := Some ''you''\<rparr>) (toy_keys (CHR ''b'')) []
     in n\<lparr>nd_engine := (nd_engine n)\<lparr>securityManager :=
          map_option (registerPeerKey ''me'' (Some (getPublicKey (toy_keys (CHR ''a''))))) (securityManager (nd_engine n))\<rparr>\<rparr>)"

lemma demo_receiver_ready: "ready_for demo_node_env ''me'' (getPublicKey (toy_keys (CHR ''a''))) ''fb1'' ''me'' demo_receiver"
  using toy_public_key [of "CHR ''a''"]
  by (simp add: ready_for_def demo_receiver_def node_init_def demo_config_def config_peerId_def engine_init_def Let_def
      pinned_def registerPeerKey_def truthy_def map_get_set demo_node_env_def demo_env_def checkLimit_def refill_def rl_init_def
      is_banned_def expire_ban_def or_default_def)

lemma demo_io: "io_ok (se_io (ne_sync demo_node_env))"
  by (simp add: demo_node_env_def good_io_def)

lemma demo_pre:
  "pool_ok (pr_pool (nd_peers demo_node))" "se_uid (ne_sync demo_node_env) \<notin> set (seenMessages (nd_engine demo_node))"
  "\<not> starts_with ''/summary'' (trim ''hi'')" "\<not> starts_with ''/keypoints'' (trim ''hi'')"
  by (simp_all add: demo_node_fields starts_with_def trim_def js_white_def)

lemma demo_published:
  assumes "publish toy_sodium toy_level demo_node_env tp ''hi'' demo_node = (i, r, A', outs)"
  shows "ready_for demo_node_env (nd_peerId demo_node)
    (getPublicKey (keyManager (security_init (toy_keys (CHR ''a'')) (Some ''me'')))) i ''me'' demo_receiver"
proof -
  have "i = ''fb1''"
    using arg_cong [OF assms, of fst] demo_pre(3,4) by (simp add: publish_def made_def createChat_def case_prod_beta demo_node_env_def)
  moreover have "keyManager (security_init (toy_keys (CHR ''a'')) (Some ''me'')) = toy_keys (CHR ''a'')"
    by (simp add: security_init_def registerPeerKey_def Let_def)
  ultimately show ?thesis using demo_receiver_ready by (simp add: demo_node_fields)
qed

theorem published_message_delivered_witness:
  "\<exists>m B' outsB. node_frame toy_sodium toy_level demo_node_env (message_json m) ''me'' demo_receiver = (Done, B', outsB)
    \<and> payload m = ''hi'' \<and> sender m = ''me'' \<and> App_Message (m\<lparr>ttl := ttl m - 1\<rparr>) \<in> set outsB"
proof -
  obtain i r A' outs where p: "publish toy_sodium toy_level demo_node_env ''global'' ''hi'' demo_node = (i, r, A', outs)"
    by (cases "publish toy_sodium toy_level demo_node_env ''global'' ''hi'' demo_node")
  from published_message_delivered [OF demo_own demo_pre(1,2) demo_puzzle demo_pre(3,4) p demo_published [OF p] toy_level_laws demo_io]
  show ?thesis using parse_print by (auto simp: demo_node_fields)
qed


end
