(* ===== verification/Simulation.thy ===== *)
theory Simulation
  imports Prelude Complex_Main "HOL-Library.Multiset"
begin

text \<open>
  The propagation model behind the visualizer, \<^verbatim>\<open>visualizer/src/simulation/gossipEngine.js\<close>,
  and the state its hook keeps, \<^verbatim>\<open>visualizer/src/hooks/useGossipState.js\<close>. Sorting with a
  random comparator is the parameter \<open>shuffle\<close>, of which only a permutation is known; it and
  the random numbers take the number of the call. What the hook shows (highlighting, the log)
  is in \<open>Visualizer\<close>.
\<close>

record sim_node =
  sn_id :: string
  sn_label :: string
  sn_x :: nat
  sn_y :: nat

record sim_edge =
  source :: string
  target :: string
  isNew :: bool

definition INITIAL_NODES :: "sim_node list" where
  "INITIAL_NODES = map (\<lambda>(i, l, x, y). \<lparr>sn_id = i, sn_label = l, sn_x = x, sn_y = y\<rparr>)
    [(''A'', ''Node-A'', 300, 180), (''B'', ''Node-B'', 500, 100), (''C'', ''Node-C'', 520, 310),
     (''D'', ''Node-D'', 160, 320), (''E'', ''Node-E'', 370, 420)]"

definition INITIAL_EDGES :: "sim_edge list" where
  "INITIAL_EDGES = map (\<lambda>(s, t). \<lparr>source = s, target = t, isNew = False\<rparr>)
    [(''A'', ''B''), (''A'', ''C''), (''A'', ''D''), (''B'', ''C''), (''C'', ''E''), (''D'', ''E'')]"

section \<open>Adjacency and sampling\<close>

definition neighbours_of :: "(string, string list) jmap \<Rightarrow> string \<Rightarrow> string list" where
  "neighbours_of adj n = (case map_get adj n of None \<Rightarrow> [] | Some ns \<Rightarrow> ns)"

definition ensure_entry :: "string \<Rightarrow> (string, string list) jmap \<Rightarrow> (string, string list) jmap" where
  "ensure_entry n adj = (if map_get adj n = None then map_set adj n [] else adj)"

definition push_to :: "string \<Rightarrow> string \<Rightarrow> (string, string list) jmap \<Rightarrow> (string, string list) jmap" where
  "push_to n v adj = map_set adj n (neighbours_of adj n @ [v])"

fun adjacency_loop :: "string list \<Rightarrow> sim_edge list \<Rightarrow> (string, string list) jmap \<Rightarrow> (string, string list) jmap" where
  "adjacency_loop dead [] adj = adj"
| "adjacency_loop dead (e # es) adj =
    (if source e \<in> set dead \<or> target e \<in> set dead then adjacency_loop dead es adj
     else
       let adj = ensure_entry (target e) (ensure_entry (source e) adj);
           adj = push_to (source e) (target e) adj;
           adj = push_to (target e) (source e) adj
       in adjacency_loop dead es adj)"

definition buildAdjacency :: "sim_edge list \<Rightarrow> string list \<Rightarrow> (string, string list) jmap" where
  "buildAdjacency edges dead = adjacency_loop dead edges []"

record sim_env =
  shuffle :: "nat \<Rightarrow> string list \<Rightarrow> string list"
  jitter :: "nat \<Rightarrow> rat"

definition sampleK :: "sim_env \<Rightarrow> nat \<Rightarrow> string list \<Rightarrow> nat \<Rightarrow> string list" where
  "sampleK ev i arr k = take k (shuffle ev i arr)"

definition shuffles :: "sim_env \<Rightarrow> bool" where
  "shuffles ev \<longleftrightarrow> (\<forall>i xs. mset (shuffle ev i xs) = mset xs)"

section \<open>Waves\<close>

record transmission =
  tx_from :: string
  tx_to :: string
  tx_msgId :: string
  tx_hop :: nat
  tx_latency :: int

text \<open>What the loops of one wave change: reached nodes, next frontier, transmissions, and the calls made.\<close>

record wave_state =
  w_seen :: "string list"
  w_next :: "string list"
  w_events :: "transmission list"
  w_sorts :: nat
  w_rands :: nat

definition js_round :: "rat \<Rightarrow> int" where "js_round x = \<lfloor>x + 1/2\<rfloor>"

definition hop_latency :: "sim_env \<Rightarrow> nat \<Rightarrow> nat \<Rightarrow> int" where
  "hop_latency ev i hopLatencyMs = js_round (of_nat hopLatencyMs * (1 + (jitter ev i * (6/10) - 3/10)))"

fun visit_targets :: "sim_env \<Rightarrow> string \<Rightarrow> nat \<Rightarrow> nat \<Rightarrow> string \<Rightarrow> string list \<Rightarrow> wave_state \<Rightarrow> wave_state" where
  "visit_targets ev msgId hop lat node [] w = w"
| "visit_targets ev msgId hop lat node (t # ts) w =
    (let w = w\<lparr>w_events := w_events w @
               [\<lparr>tx_from = node, tx_to = t, tx_msgId = msgId, tx_hop = hop, tx_latency = hop_latency ev (w_rands w) lat\<rparr>],
             w_rands := Suc (w_rands w)\<rparr>;
         w = (if t \<in> set (w_seen w) then w
              else w\<lparr>w_seen := set_add (w_seen w) t, w_next := w_next w @ [t]\<rparr>)
     in visit_targets ev msgId hop lat node ts w)"

fun visit_frontier ::
  "sim_env \<Rightarrow> (string, string list) jmap \<Rightarrow> nat \<Rightarrow> string \<Rightarrow> nat \<Rightarrow> nat \<Rightarrow> string list \<Rightarrow> wave_state \<Rightarrow> wave_state" where
  "visit_frontier ev adj fanout msgId hop lat [] w = w"
| "visit_frontier ev adj fanout msgId hop lat (n # ns) w =
    (let targets = sampleK ev (w_sorts w) (neighbours_of adj n) fanout;
         w = visit_targets ev msgId hop lat n targets (w\<lparr>w_sorts := Suc (w_sorts w)\<rparr>)
     in visit_frontier ev adj fanout msgId hop lat ns w)"

text \<open>The while loop, with fuel; \<^const>\<open>None\<close> when it is not enough.\<close>

fun waves_loop ::
  "nat \<Rightarrow> sim_env \<Rightarrow> (string, string list) jmap \<Rightarrow> nat \<Rightarrow> string \<Rightarrow> nat \<Rightarrow> string list \<Rightarrow> transmission list list \<Rightarrow> wave_state
    \<Rightarrow> (transmission list list \<times> string list) option" where
  "waves_loop 0 ev adj fanout msgId lat frontier waves w = None"
| "waves_loop (Suc fuel) ev adj fanout msgId lat frontier waves w =
    (if frontier = [] then Some (waves, w_seen w)
     else
       let w = visit_frontier ev adj fanout msgId (length waves + 1) lat frontier (w\<lparr>w_next := [], w_events := []\<rparr>);
           waves = (if w_events w \<noteq> [] then waves @ [w_events w] else waves)
       in waves_loop fuel ev adj fanout msgId lat (w_next w) waves w)"

text \<open>Every wave but the last reaches a new endpoint of an edge, which bounds their number.\<close>

definition computeGossipWaves ::
  "sim_env \<Rightarrow> string \<Rightarrow> string \<Rightarrow> sim_edge list \<Rightarrow> string list \<Rightarrow> nat \<Rightarrow> nat \<Rightarrow> (transmission list list \<times> string list) option" where
  "computeGossipWaves ev msgId sourceNode edges dead fanout lat =
    waves_loop (2 * length edges + 3) ev (buildAdjacency edges dead) fanout msgId lat [sourceNode] []
      \<lparr>w_seen = [sourceNode], w_next = [], w_events = [], w_sorts = 0, w_rands = 0\<rparr>"

section \<open>Healing\<close>

fun connect_orphan :: "string \<Rightarrow> string list \<Rightarrow> sim_edge list \<Rightarrow> sim_edge list" where
  "connect_orphan node [] newEdges = newEdges"
| "connect_orphan node (p # ps) newEdges =
    (let alreadyExists = list_ex (\<lambda>e. (source e = node \<and> target e = p) \<or> (source e = p \<and> target e = node)) newEdges
     in connect_orphan node ps
          (if alreadyExists then newEdges else newEdges @ [\<lparr>source = node, target = p, isNew = True\<rparr>]))"

fun heal_loop :: "sim_env \<Rightarrow> nat \<Rightarrow> (string, string list) jmap \<Rightarrow> string list \<Rightarrow> string list \<Rightarrow> string list \<Rightarrow> sim_edge list \<Rightarrow> sim_edge list" where
  "heal_loop ev i adj dead live [] newEdges = newEdges"
| "heal_loop ev i adj dead live (node # nodes) newEdges =
    (let neighbours = filter (\<lambda>n. n \<notin> set dead) (neighbours_of adj node)
     in if length neighbours = 0 then
          let candidates = filter (\<lambda>n. n \<noteq> node) live;
              picks = sampleK ev i candidates (min 2 (length candidates))
          in heal_loop ev (Suc i) adj dead live nodes (connect_orphan node picks newEdges)
        else heal_loop ev i adj dead live nodes newEdges)"

definition computeHealingEdges :: "sim_env \<Rightarrow> sim_edge list \<Rightarrow> string list \<Rightarrow> sim_node list \<Rightarrow> sim_edge list" where
  "computeHealingEdges ev edges dead allNodes =
    (let liveNodes = map sn_id (filter (\<lambda>n. sn_id n \<notin> set dead) allNodes)
     in heal_loop ev 0 (buildAdjacency edges dead) dead liveNodes liveNodes [])"

section \<open>The hook\<close>

definition DEFAULT_FANOUT :: nat where "DEFAULT_FANOUT = 2"
definition DEFAULT_HOP_LATENCY_MS :: nat where "DEFAULT_HOP_LATENCY_MS = 300"

record sim_metrics =
  totalSent :: nat
  delivered :: int
  duplicatesDropped :: int
  activeNodes :: int
  failedNodes :: int
  throughput :: int
  avgLatencyMs :: int
  peakLatencyMs :: int
  propagationTimeMs :: int
  m_fanout :: nat
  totalTransmissions :: int
  theoreticalMin :: int
  amplificationFactor :: rat
  maxHops :: nat
  reconnectionEvents :: nat
  retryCount :: nat
  latencyHistory :: "int list"

definition makeInitialMetrics :: sim_metrics where
  "makeInitialMetrics = \<lparr>totalSent = 0, delivered = 0, duplicatesDropped = 0, activeNodes = int (length INITIAL_NODES),
     failedNodes = 0, throughput = 0, avgLatencyMs = 0, peakLatencyMs = 0, propagationTimeMs = 0,
     m_fanout = DEFAULT_FANOUT, totalTransmissions = 0, theoreticalMin = 0, amplificationFactor = 0, maxHops = 0,
     reconnectionEvents = 0, retryCount = 0, latencyHistory = []\<rparr>"

record sim_state =
  sim_nodes :: "sim_node list"
  sim_edges :: "sim_edge list"
  deadNodes :: "string list"
  sim_metrics :: sim_metrics
  isAnimating :: bool
  sim_fanout :: nat
  hopLatency :: nat

definition sim_init :: sim_state where
  "sim_init = \<lparr>sim_nodes = INITIAL_NODES, sim_edges = INITIAL_EDGES, deadNodes = [], sim_metrics = makeInitialMetrics,
     isAnimating = False, sim_fanout = DEFAULT_FANOUT, hopLatency = DEFAULT_HOP_LATENCY_MS\<rparr>"

text \<open>What \<^verbatim>\<open>sendMessage\<close> computes before the animation and uses when it is over.\<close>

record sim_sending =
  sg_waves :: nat
  sg_totalTx :: nat
  sg_avg :: int
  sg_peak :: int
  sg_theoreticalMin :: int
  sg_delivered :: int
  sg_fanout :: nat
  sg_start :: time

definition sendMessage :: "sim_env \<Rightarrow> string \<Rightarrow> time \<Rightarrow> sim_state \<Rightarrow> sim_state \<times> sim_sending option" where
  "sendMessage ev msgId now st =
    (if isAnimating st then (st, None)
     else
       case computeGossipWaves ev msgId ''A'' (sim_edges st) (deadNodes st) (sim_fanout st) (hopLatency st) of
         None \<Rightarrow> (st, None)
       | Some (waves, reached) \<Rightarrow>
           let latencies = map tx_latency (concat waves);
               liveCount = length (filter (\<lambda>n. sn_id n \<notin> set (deadNodes st)) (sim_nodes st))
           in (st\<lparr>isAnimating := True\<rparr>,
               Some \<lparr>sg_waves = length waves, sg_totalTx = length (concat waves),
                     sg_avg = (if latencies = [] then 0 else js_round (of_int (sum_list latencies) / of_nat (length latencies))),
                     sg_peak = (if latencies = [] then 0 else Max (set latencies)),
                     sg_theoreticalMin = int liveCount - 1, sg_delivered = int (length reached) - 1,
                     sg_fanout = sim_fanout st, sg_start = now\<rparr>))"

definition last_20 :: "int list \<Rightarrow> int list" where
  "last_20 xs = drop (length xs - 20) xs"

text \<open>The end of the animation; the ratio is rounded to two decimals.\<close>

definition finishMessage :: "time \<Rightarrow> sim_sending \<Rightarrow> sim_state \<Rightarrow> sim_state" where
  "finishMessage now sg st =
    (let propagationMs = now - sg_start sg;
         m = sim_metrics st;
         totalTx = int (sg_totalTx sg)
     in st\<lparr>sim_metrics := m\<lparr>
          totalSent := totalSent m + 1,
          delivered := delivered m + sg_delivered sg,
          duplicatesDropped := duplicatesDropped m + (totalTx - sg_delivered sg),
          throughput := (if propagationMs > 0 then js_round (of_int (sg_delivered sg) / of_int propagationMs * 1000) else sg_delivered sg),
          avgLatencyMs := sg_avg sg,
          peakLatencyMs := max (peakLatencyMs m) (sg_peak sg),
          propagationTimeMs := propagationMs,
          totalTransmissions := totalTransmissions m + totalTx,
          theoreticalMin := theoreticalMin m + sg_theoreticalMin sg,
          amplificationFactor := (if sg_theoreticalMin sg > 0
            then of_int (js_round (of_int totalTx / of_int (sg_theoreticalMin sg) * 100)) / 100 else 0),
          maxHops := max (maxHops m) (sg_waves sg),
          m_fanout := sg_fanout sg,
          latencyHistory := last_20 (latencyHistory m @ [sg_avg sg])\<rparr>\<rparr>)"

definition endAnimation :: "sim_state \<Rightarrow> sim_state" where
  "endAnimation st = st\<lparr>isAnimating := False\<rparr>"

definition killNode :: "string \<Rightarrow> sim_state \<Rightarrow> sim_state" where
  "killNode nodeId st =
    (if nodeId \<in> set (deadNodes st) then st
     else
       let newDeadNodes = set_add (deadNodes st) nodeId; failedCount = int (length newDeadNodes)
       in st\<lparr>deadNodes := newDeadNodes, sim_metrics := (sim_metrics st)\<lparr>
            activeNodes := int (length (sim_nodes st)) - failedCount, failedNodes := failedCount\<rparr>\<rparr>)"

definition healNetwork :: "sim_env \<Rightarrow> sim_state \<Rightarrow> sim_state" where
  "healNetwork ev st =
    (let newEdges = computeHealingEdges ev (sim_edges st) (deadNodes st) (sim_nodes st)
     in if newEdges = [] then st
        else st\<lparr>sim_edges := sim_edges st @ newEdges, sim_metrics := (sim_metrics st)\<lparr>
               reconnectionEvents := reconnectionEvents (sim_metrics st) + length newEdges\<rparr>\<rparr>)"

definition sim_reset :: "sim_state \<Rightarrow> sim_state" where
  "sim_reset st = st\<lparr>sim_nodes := INITIAL_NODES, sim_edges := INITIAL_EDGES, deadNodes := [],
     sim_metrics := makeInitialMetrics\<lparr>m_fanout := sim_fanout st\<rparr>, isAnimating := False\<rparr>"

section \<open>The live graph\<close>

definition live_edge :: "sim_edge list \<Rightarrow> string list \<Rightarrow> string \<Rightarrow> string \<Rightarrow> bool" where
  "live_edge edges dead a b \<longleftrightarrow> (\<exists>e \<in> set edges. source e \<notin> set dead \<and> target e \<notin> set dead
     \<and> ((source e = a \<and> target e = b) \<or> (source e = b \<and> target e = a)))"

lemma neighbours_ensure [simp]: "neighbours_of (ensure_entry n adj) a = neighbours_of adj a"
  by (simp add: neighbours_of_def ensure_entry_def map_get_set)

lemma neighbours_push [simp]:
  "neighbours_of (push_to n v adj) a = (if a = n then neighbours_of adj n @ [v] else neighbours_of adj a)"
  by (simp add: neighbours_of_def push_to_def map_get_set)

lemma adjacency_loop_edges:
  "b \<in> set (neighbours_of (adjacency_loop dead es adj) a) \<longleftrightarrow> b \<in> set (neighbours_of adj a) \<or> live_edge es dead a b"
  by (induction es arbitrary: adj) (auto simp: live_edge_def Let_def)

lemma adjacency_edges: "b \<in> set (neighbours_of (buildAdjacency edges dead) a) \<longleftrightarrow> live_edge edges dead a b"
proof -
  have "neighbours_of [] a = []" by (simp add: neighbours_of_def)
  then show ?thesis by (simp add: buildAdjacency_def adjacency_loop_edges)
qed

section \<open>One wave\<close>

lemma sampleK_props:
  assumes "shuffles ev"
  shows "set (sampleK ev i xs k) \<subseteq> set xs" "length xs \<le> k \<Longrightarrow> set (sampleK ev i xs k) = set xs"
proof -
  have m: "mset (shuffle ev i xs) = mset xs" using assms by (simp add: shuffles_def)
  show "set (sampleK ev i xs k) \<subseteq> set xs"
    using set_take_subset [of k "shuffle ev i xs"] mset_eq_setD [OF m] by (simp add: sampleK_def)
  show "length xs \<le> k \<Longrightarrow> set (sampleK ev i xs k) = set xs"
    using mset_eq_setD [OF m] mset_eq_length [OF m] by (simp add: sampleK_def)
qed

definition hops :: "transmission list \<Rightarrow> (string \<times> string) list" where
  "hops xs = map (\<lambda>x. (tx_from x, tx_to x)) xs"

text \<open>What a piece of a wave adds: the newly reached nodes, in order, and its transmissions.\<close>

definition adds :: "wave_state \<Rightarrow> wave_state \<Rightarrow> string list \<Rightarrow> (string \<times> string) list \<Rightarrow> bool" where
  "adds w w' new tx \<longleftrightarrow> w_seen w' = w_seen w @ new \<and> w_next w' = w_next w @ new \<and> hops (w_events w') = hops (w_events w) @ tx
     \<and> distinct new \<and> set new = snd ` set tx - set (w_seen w)"

lemma adds_trans:
  assumes "adds w w1 new tx" "adds w1 w2 new' tx'"
  shows "adds w w2 (new @ new') (tx @ tx')"
  using assms by (auto simp: adds_def)

lemma visit_targets_adds:
  "\<exists>new. adds w (visit_targets ev msgId hop lat node ts w) new (map (Pair node) ts)"
proof (induction ts arbitrary: w)
  case Nil
  show ?case by (intro exI [of _ "[]"]) (simp add: adds_def)
next
  case (Cons t ts)
  let ?x = "\<lparr>tx_from = node, tx_to = t, tx_msgId = msgId, tx_hop = hop, tx_latency = hop_latency ev (w_rands w) lat\<rparr>"
  define w1 where "w1 = w\<lparr>w_events := w_events w @ [?x], w_rands := Suc (w_rands w)\<rparr>"
  define w2 where "w2 = (if t \<in> set (w_seen w1) then w1 else w1\<lparr>w_seen := set_add (w_seen w1) t, w_next := w_next w1 @ [t]\<rparr>)"
  have first: "adds w w2 (if t \<in> set (w_seen w) then [] else [t]) [(node, t)]"
    by (auto simp: adds_def w2_def w1_def hops_def set_add_def)
  obtain new where "adds w2 (visit_targets ev msgId hop lat node ts w2) new (map (Pair node) ts)" using Cons.IH by blast
  from adds_trans [OF first this] show ?case by (auto simp: Let_def w1_def w2_def)
qed

lemma visit_frontier_adds:
  assumes "shuffles ev"
  shows "\<exists>new tx. adds w (visit_frontier ev adj fanout msgId hop lat ns w) new tx
    \<and> (\<forall>(a, b) \<in> set tx. a \<in> set ns \<and> b \<in> set (neighbours_of adj a))
    \<and> ((\<forall>n. length (neighbours_of adj n) \<le> fanout) \<longrightarrow> (\<forall>n \<in> set ns. set (neighbours_of adj n) \<subseteq> snd ` set tx))"
proof (induction ns arbitrary: w)
  case Nil
  show ?case by (intro exI [of _ "[]"]) (simp add: adds_def)
next
  case (Cons n ns)
  define w1 where "w1 = w\<lparr>w_sorts := Suc (w_sorts w)\<rparr>"
  define ts where "ts = sampleK ev (w_sorts w) (neighbours_of adj n) fanout"
  define w2 where "w2 = visit_targets ev msgId hop lat n ts w1"
  obtain new1 where "adds w1 w2 new1 (map (Pair n) ts)" using visit_targets_adds unfolding w2_def by blast
  then have first: "adds w w2 new1 (map (Pair n) ts)" by (simp add: adds_def w1_def)
  obtain new2 tx where rest: "adds w2 (visit_frontier ev adj fanout msgId hop lat ns w2) new2 tx"
    "\<forall>(a, b) \<in> set tx. a \<in> set ns \<and> b \<in> set (neighbours_of adj a)"
    "(\<forall>n. length (neighbours_of adj n) \<le> fanout) \<longrightarrow> (\<forall>n \<in> set ns. set (neighbours_of adj n) \<subseteq> snd ` set tx)"
    using Cons.IH [of w2] by blast
  have eq: "visit_frontier ev adj fanout msgId hop lat (n # ns) w = visit_frontier ev adj fanout msgId hop lat ns w2"
    by (simp add: Let_def w1_def ts_def w2_def)
  have "set ts \<subseteq> set (neighbours_of adj n)" "(\<forall>n. length (neighbours_of adj n) \<le> fanout) \<longrightarrow> set ts = set (neighbours_of adj n)"
    using sampleK_props [OF assms] by (auto simp: ts_def)
  moreover have "snd ` set (map (Pair n) ts @ tx) = set ts \<union> snd ` set tx" by (simp add: image_Un image_image)
  ultimately show ?case
    unfolding eq using rest(2,3) adds_trans [OF first rest(1)]
    by (intro exI [of _ "new1 @ new2"] exI [of _ "map (Pair n) ts @ tx"] conjI) (auto 0 3)
qed

section \<open>The whole propagation\<close>

definition live_graph :: "(string, string list) jmap \<Rightarrow> (string \<times> string) set" where
  "live_graph adj = {(a, b). b \<in> set (neighbours_of adj a)}"

text \<open>The invariant of the while loop.\<close>

definition wave_inv :: "(string, string list) jmap \<Rightarrow> nat \<Rightarrow> string \<Rightarrow> string list \<Rightarrow> transmission list list \<Rightarrow> wave_state \<Rightarrow> bool" where
  "wave_inv adj fanout src frontier waves w \<longleftrightarrow>
    distinct (w_seen w) \<and> src \<in> set (w_seen w) \<and> set frontier \<subseteq> set (w_seen w)
    \<and> set (w_seen w) \<subseteq> insert src (snd ` set (hops (concat waves)))
    \<and> set (hops (concat waves)) \<subseteq> live_graph adj \<inter> (set (w_seen w) \<times> set (w_seen w))
    \<and> (\<forall>n \<in> set (w_seen w). (src, n) \<in> (live_graph adj)\<^sup>*)
    \<and> length waves + (if frontier = [] then 0 else 1) \<le> length (w_seen w)
    \<and> ((\<forall>n. length (neighbours_of adj n) \<le> fanout) \<longrightarrow>
        (\<forall>n \<in> set (w_seen w) - set frontier. set (neighbours_of adj n) \<subseteq> set (w_seen w)))"

lemma hops_append: "hops (concat (ws @ [x])) = hops (concat ws) @ hops x" "hops [] = []"
  by (simp_all add: hops_def)

lemma wave_inv_step:
  assumes inv: "wave_inv adj fanout src frontier waves w" and "frontier \<noteq> []" "shuffles ev"
    and w': "w' = visit_frontier ev adj fanout msgId hop lat frontier (w\<lparr>w_next := [], w_events := []\<rparr>)"
  shows "wave_inv adj fanout src (w_next w') (if w_events w' \<noteq> [] then waves @ [w_events w'] else waves) w'
    \<and> (w_next w' = [] \<or> set (w_seen w) \<subset> set (w_seen w')) \<and> set (w_seen w') \<subseteq> set (w_seen w) \<union> Range (live_graph adj)"
proof -
  obtain new tx where a: "adds (w\<lparr>w_next := [], w_events := []\<rparr>) w' new tx"
    and live: "\<forall>(a, b) \<in> set tx. a \<in> set frontier \<and> b \<in> set (neighbours_of adj a)"
    and full: "(\<forall>n. length (neighbours_of adj n) \<le> fanout) \<longrightarrow> (\<forall>n \<in> set frontier. set (neighbours_of adj n) \<subseteq> snd ` set tx)"
    using visit_frontier_adds [OF assms(3), of "w\<lparr>w_next := [], w_events := []\<rparr>" adj fanout msgId hop lat frontier]
    unfolding w' [symmetric] by blast
  have w1: "w_seen w' = w_seen w @ new" "w_next w' = new" "hops (w_events w') = tx" "distinct new"
    "set new = snd ` set tx - set (w_seen w)"
    using a by (simp_all add: adds_def hops_append)
  let ?waves = "if w_events w' \<noteq> [] then waves @ [w_events w'] else waves"
  have hw: "hops (concat ?waves) = hops (concat waves) @ tx"
    using w1(3) by (cases "w_events w' = []") (simp_all add: hops_append hops_def)
  have seen: "set (w_seen w') = set (w_seen w) \<union> snd ` set tx" using w1 by auto
  have tx: "set tx \<subseteq> live_graph adj \<inter> (set (w_seen w) \<times> snd ` set tx)"
  proof
    fix p assume p: "p \<in> set tx"
    obtain a b where ab: "p = (a, b)" by (cases p)
    have "a \<in> set frontier" "b \<in> set (neighbours_of adj a)" using live p by (auto simp: ab)
    moreover have "set frontier \<subseteq> set (w_seen w)" using inv by (simp add: wave_inv_def)
    moreover have "b \<in> snd ` set tx" using p by (force simp: ab)
    ultimately show "p \<in> live_graph adj \<inter> (set (w_seen w) \<times> snd ` set tx)" by (auto simp: ab live_graph_def)
  qed
  have i: "distinct (w_seen w)" "src \<in> set (w_seen w)" "set (w_seen w) \<subseteq> insert src (snd ` set (hops (concat waves)))"
    "set (hops (concat waves)) \<subseteq> live_graph adj \<inter> (set (w_seen w) \<times> set (w_seen w))"
    "\<forall>n \<in> set (w_seen w). (src, n) \<in> (live_graph adj)\<^sup>*" "length waves + 1 \<le> length (w_seen w)"
    "(\<forall>n. length (neighbours_of adj n) \<le> fanout) \<longrightarrow>
        (\<forall>n \<in> set (w_seen w) - set frontier. set (neighbours_of adj n) \<subseteq> set (w_seen w))"
    using inv assms(2) by (auto simp: wave_inv_def)
  have "distinct (w_seen w')" using i(1) w1 by auto
  moreover have "src \<in> set (w_seen w')" "set (w_next w') \<subseteq> set (w_seen w')" using i(2) w1 by auto
  moreover have "set (w_seen w') \<subseteq> insert src (snd ` set (hops (concat ?waves)))"
    unfolding hw seen using i(3) by auto
  moreover have "set (hops (concat ?waves)) \<subseteq> live_graph adj \<inter> (set (w_seen w') \<times> set (w_seen w'))"
    unfolding hw seen using i(4) tx by auto
  moreover have "(src, n) \<in> (live_graph adj)\<^sup>*" if n: "n \<in> set (w_seen w')" for n
  proof (cases "n \<in> set (w_seen w)")
    case False
    then obtain a where "(a, n) \<in> set tx" using n unfolding seen by auto
    then have "(a, n) \<in> live_graph adj" "a \<in> set (w_seen w)" using tx by auto
    then show ?thesis using i(5) by (meson rtrancl.rtrancl_into_rtrancl)
  qed (use i(5) in blast)
  moreover have "length ?waves + (if w_next w' = [] then 0 else 1) \<le> length (w_seen w')"
    using i(6) w1(1,2) by (cases new) auto
  moreover have "set (neighbours_of adj n) \<subseteq> set (w_seen w')"
    if "\<forall>n. length (neighbours_of adj n) \<le> fanout" "n \<in> set (w_seen w') - set (w_next w')" for n
  proof -
    have "n \<in> set (w_seen w)" using that(2) w1(1,2) by auto
    then show ?thesis using that(1) i(7) full unfolding seen by (cases "n \<in> set frontier") auto
  qed
  ultimately have "wave_inv adj fanout src (w_next w') ?waves w'" unfolding wave_inv_def by blast
  moreover have "w_next w' = [] \<or> set (w_seen w) \<subset> set (w_seen w')" using w1 by (cases new) auto
  moreover have "snd ` set tx \<subseteq> Range (live_graph adj)" unfolding Range_snd using tx by (intro image_mono) blast
  then have "set (w_seen w') \<subseteq> set (w_seen w) \<union> Range (live_graph adj)" unfolding seen by blast
  ultimately show ?thesis by blast
qed

lemma waves_loop_result:
  assumes "wave_inv adj fanout src frontier waves w" "shuffles ev" "finite U" "set (w_seen w) \<union> Range (live_graph adj) \<subseteq> U"
    "card (U - set (w_seen w)) + (if frontier = [] then 1 else 2) \<le> fuel"
  shows "\<exists>waves' w'. waves_loop fuel ev adj fanout msgId lat frontier waves w = Some (waves', w_seen w')
    \<and> wave_inv adj fanout src [] waves' w'"
  using assms(1,4,5)
proof (induction fuel arbitrary: frontier waves w)
  case (Suc fuel)
  show ?case
  proof (cases "frontier = []")
    case True
    then show ?thesis using Suc.prems(1) by auto
  next
    case False
    define w1 where "w1 = visit_frontier ev adj fanout msgId (length waves + 1) lat frontier (w\<lparr>w_next := [], w_events := []\<rparr>)"
    define ws where "ws = (if w_events w1 \<noteq> [] then waves @ [w_events w1] else waves)"
    have inv1: "wave_inv adj fanout src (w_next w1) ws w1"
      and new: "w_next w1 = [] \<or> set (w_seen w) \<subset> set (w_seen w1)"
      and within: "set (w_seen w1) \<subseteq> set (w_seen w) \<union> Range (live_graph adj)"
      using wave_inv_step [OF Suc.prems(1) False assms(2) w1_def] by (simp_all add: ws_def)
    have U: "set (w_seen w1) \<union> Range (live_graph adj) \<subseteq> U" using within Suc.prems(2) by blast
    have fin: "finite (U - set (w_seen w))" using assms(3) by simp
    have fuel: "card (U - set (w_seen w)) < fuel" using Suc.prems(3) False by simp
    have "card (U - set (w_seen w1)) + (if w_next w1 = [] then 1 else 2) \<le> fuel"
    proof (cases "w_next w1 = []")
      case True
      have "set (w_seen w) \<subseteq> set (w_seen w1)"
        using visit_frontier_adds [OF assms(2), of "w\<lparr>w_next := [], w_events := []\<rparr>" adj fanout msgId "length waves + 1" lat frontier]
        by (auto simp: adds_def w1_def)
      then have "card (U - set (w_seen w1)) \<le> card (U - set (w_seen w))" by (intro card_mono fin) blast
      then show ?thesis using fuel True by simp
    next
      case more: False
      then have "U - set (w_seen w1) \<subset> U - set (w_seen w)" using new U by blast
      then have "card (U - set (w_seen w1)) < card (U - set (w_seen w))" by (rule psubset_card_mono [OF fin])
      then show ?thesis using fuel more by simp
    qed
    moreover have "waves_loop (Suc fuel) ev adj fanout msgId lat frontier waves w = waves_loop fuel ev adj fanout msgId lat (w_next w1) ws w1"
      unfolding waves_loop.simps Let_def w1_def [symmetric] ws_def [symmetric] using False by (simp only: if_False)
    ultimately show ?thesis using Suc.IH [OF inv1 U] by simp
  qed
qed (simp split: if_splits)

lemma live_range: "Range (live_graph (buildAdjacency edges dead)) \<subseteq> source ` set edges \<union> target ` set edges"
  by (auto simp: live_graph_def adjacency_edges live_edge_def)

lemma waves_result:
  assumes "shuffles ev"
  shows "\<exists>waves w. computeGossipWaves ev msgId src edges dead fanout lat = Some (waves, w_seen w)
    \<and> wave_inv (buildAdjacency edges dead) fanout src [] waves w"
proof -
  let ?w = "\<lparr>w_seen = [src], w_next = [], w_events = [], w_sorts = 0, w_rands = 0\<rparr>"
  let ?U = "insert src (source ` set edges \<union> target ` set edges)"
  have inv: "wave_inv (buildAdjacency edges dead) fanout src [src] [] ?w" by (simp add: wave_inv_def hops_def)
  have "card (?U - {src}) \<le> card (source ` set edges \<union> target ` set edges)" by (intro card_mono) auto
  also have "\<dots> \<le> card (source ` set edges) + card (target ` set edges)" by (rule card_Un_le)
  also have "\<dots> \<le> 2 * length edges"
    using card_image_le [of "set edges" source] card_image_le [of "set edges" target] card_length [of edges] by simp
  finally have "card (?U - set (w_seen ?w)) + (if [src] = [] then 1 else 2) \<le> 2 * length edges + 3" by simp
  moreover have "set (w_seen ?w) \<union> Range (live_graph (buildAdjacency edges dead)) \<subseteq> ?U" using live_range [of edges dead] by auto
  moreover have "finite ?U" by simp
  ultimately show ?thesis
    using waves_loop_result [OF inv assms, of ?U "2 * length edges + 3" msgId lat] unfolding computeGossipWaves_def by blast
qed

text \<open>The nodes connected to a source by edges between live nodes.\<close>

definition component :: "sim_edge list \<Rightarrow> string list \<Rightarrow> string \<Rightarrow> string set" where
  "component edges dead src = {n. (src, n) \<in> {(a, b). live_edge edges dead a b}\<^sup>*}"

lemma live_graph_edges: "live_graph (buildAdjacency edges dead) = {(a, b). live_edge edges dead a b}"
  by (simp add: live_graph_def adjacency_edges)

lemma closed_component:
  assumes "\<forall>n \<in> S. {b. live_edge edges dead n b} \<subseteq> S" "src \<in> S"
  shows "component edges dead src \<subseteq> S"
proof -
  have "n \<in> S" if "(src, n) \<in> {(a, b). live_edge edges dead a b}\<^sup>*" for n
    using that by (induction rule: rtrancl_induct) (use assms in auto)
  then show ?thesis by (auto simp: component_def)
qed

lemma reached_count:
  assumes "distinct xs" "src \<in> set xs" "set xs \<subseteq> insert src (snd ` set (hops txs))"
  shows "length xs - 1 \<le> length txs"
proof -
  have "length xs - 1 = card (set xs - {src})" using assms(1,2) by (simp add: distinct_card)
  also have "\<dots> \<le> card (set (map snd (hops txs)))" using assms(3) by (intro card_mono) auto
  also have "\<dots> \<le> length txs" using card_length [of "map snd (hops txs)"] by (simp add: hops_def)
  finally show ?thesis .
qed


definition in_order :: sim_env where
  "in_order = \<lparr>shuffle = (\<lambda>i xs. xs), jitter = (\<lambda>i. 0)\<rparr>"


section \<open>Healing reconnects\<close>

definition joins :: "sim_edge \<Rightarrow> string \<Rightarrow> string \<Rightarrow> bool" where
  "joins e a b \<longleftrightarrow> (source e = a \<and> target e = b) \<or> (source e = b \<and> target e = a)"

lemma connect_orphan_all:
  "set ne \<subseteq> set (connect_orphan node ps ne)
    \<and> (\<forall>e \<in> set (connect_orphan node ps ne). e \<in> set ne \<or> (source e = node \<and> target e \<in> set ps \<and> isNew e))
    \<and> (\<forall>p \<in> set ps. \<exists>e \<in> set (connect_orphan node ps ne). joins e node p)"
proof (induction ps arbitrary: ne)
  case (Cons q ps)
  let ?b = "list_ex (\<lambda>e. (source e = node \<and> target e = q) \<or> (source e = q \<and> target e = node)) ne"
  define ne' where "ne' = (if ?b then ne else ne @ [\<lparr>source = node, target = q, isNew = True\<rparr>])"
  have eq: "connect_orphan node (q # ps) ne = connect_orphan node ps ne'" by (simp add: ne'_def Let_def)
  have q: "\<exists>e \<in> set ne'. joins e node q" by (auto simp: ne'_def joins_def list_ex_iff)
  have sub: "set ne \<subseteq> set ne'" by (auto simp: ne'_def)
  have only: "\<forall>e \<in> set ne'. e \<in> set ne \<or> (source e = node \<and> target e = q \<and> isNew e)" by (auto simp: ne'_def)
  note IH = Cons.IH [of ne']
  show ?case unfolding eq
  proof (intro conjI ballI)
    show "set ne \<subseteq> set (connect_orphan node ps ne')" using IH sub by blast
    show "e \<in> set ne \<or> (source e = node \<and> target e \<in> set (q # ps) \<and> isNew e)"
      if "e \<in> set (connect_orphan node ps ne')" for e using that IH only by auto
    show "\<exists>e \<in> set (connect_orphan node ps ne'). joins e node p" if "p \<in> set (q # ps)" for p
      using that IH q by auto
  qed
qed simp

lemma heal_loop_all:
  assumes "shuffles ev"
  shows "set ne \<subseteq> set (heal_loop ev i adj dead live nodes ne)
    \<and> (\<forall>e \<in> set (heal_loop ev i adj dead live nodes ne).
        e \<in> set ne \<or> (source e \<in> set nodes \<and> target e \<in> set live \<and> source e \<noteq> target e \<and> isNew e))
    \<and> (\<forall>n \<in> set nodes. filter (\<lambda>v. v \<notin> set dead) (neighbours_of adj n) = [] \<longrightarrow> (\<exists>m \<in> set live. m \<noteq> n) \<longrightarrow>
        (\<exists>e \<in> set (heal_loop ev i adj dead live nodes ne). \<exists>p. joins e n p))"
proof (induction nodes arbitrary: i ne)
  case (Cons node nodes)
  define cand where "cand = filter (\<lambda>v. v \<noteq> node) live"
  define picks where "picks = sampleK ev i cand (min 2 (length cand))"
  define ne' where "ne' = connect_orphan node picks ne"
  have cand: "set picks \<subseteq> set live - {node}"
    using sampleK_props(1) [OF assms, of i cand "min 2 (length cand)"] by (auto simp: picks_def cand_def)
  have len: "length picks = min 2 (length cand)"
    using assms size_mset [of "shuffle ev i cand"] by (simp add: picks_def sampleK_def shuffles_def)
  note co = connect_orphan_all [of ne node picks, folded ne'_def]
  show ?case
  proof (cases "filter (\<lambda>v. v \<notin> set dead) (neighbours_of adj node) = []")
    case True
    then have eq: "heal_loop ev i adj dead live (node # nodes) ne = heal_loop ev (Suc i) adj dead live nodes ne'"
      by (simp add: Let_def cand_def picks_def ne'_def)
    note IH = Cons.IH [of ne' "Suc i"]
    show ?thesis unfolding eq
    proof (intro conjI ballI impI)
      show "set ne \<subseteq> set (heal_loop ev (Suc i) adj dead live nodes ne')" using IH co by blast
      show "e \<in> set ne \<or> (source e \<in> set (node # nodes) \<and> target e \<in> set live \<and> source e \<noteq> target e \<and> isNew e)"
        if "e \<in> set (heal_loop ev (Suc i) adj dead live nodes ne')" for e
      proof -
        have "e \<in> set ne' \<or> (source e \<in> set nodes \<and> target e \<in> set live \<and> source e \<noteq> target e \<and> isNew e)"
          using that IH by blast
        moreover have "e \<in> set ne' \<Longrightarrow> e \<in> set ne \<or> (source e = node \<and> target e \<in> set live - {node} \<and> isNew e)"
          using co cand by blast
        ultimately show ?thesis by auto
      qed
      show "\<exists>e \<in> set (heal_loop ev (Suc i) adj dead live nodes ne'). \<exists>p. joins e n p"
        if n: "n \<in> set (node # nodes)" "filter (\<lambda>v. v \<notin> set dead) (neighbours_of adj n) = []" "\<exists>m \<in> set live. m \<noteq> n" for n
      proof (cases "n = node")
        case True
        then have "cand \<noteq> []" using n(3) by (auto simp: cand_def filter_empty_conv)
        then have "picks \<noteq> []" using len by (cases cand) auto
        then have "\<exists>e \<in> set ne'. \<exists>p. joins e node p" using co by (cases picks) auto
        then show ?thesis using IH True by blast
      next
        case False
        then show ?thesis using n IH by auto
      qed
    qed
  next
    case False
    then have eq: "heal_loop ev i adj dead live (node # nodes) ne = heal_loop ev i adj dead live nodes ne"
      by (simp add: Let_def)
    show ?thesis unfolding eq using Cons.IH [of ne i] False by auto
  qed
qed simp

lemmas heal_loop_props = conjunct2 [OF heal_loop_all, THEN conjunct1, rule_format]
  conjunct2 [OF heal_loop_all, THEN conjunct2, rule_format]

text \<open>
  Healing reconnects every orphan: whatever nodes have died, each live node has a live
  neighbour afterwards when another live node is left, and the new edges connect different
  live nodes.
\<close>

theorem healing_reconnects:
  assumes "shuffles ev" "n \<in> set nodes" "m \<in> set nodes" "sn_id n \<notin> set dead" "sn_id m \<notin> set dead" "sn_id m \<noteq> sn_id n"
    and "new = computeHealingEdges ev edges dead nodes"
  shows "(\<exists>p. live_edge (edges @ new) dead (sn_id n) p)
    \<and> (\<forall>e \<in> set new. isNew e \<and> source e \<noteq> target e \<and> source e \<notin> set dead \<and> target e \<notin> set dead)"
proof -
  let ?live = "map sn_id (filter (\<lambda>n. sn_id n \<notin> set dead) nodes)"
  let ?adj = "buildAdjacency edges dead"
  have new: "new = heal_loop ev 0 ?adj dead ?live ?live []" using assms(7) by (simp add: computeHealingEdges_def Let_def)
  have live: "v \<in> set ?live \<Longrightarrow> v \<notin> set dead" for v by auto
  have fresh: "\<forall>e \<in> set new. isNew e \<and> source e \<noteq> target e \<and> source e \<notin> set dead \<and> target e \<notin> set dead"
  proof
    fix e assume "e \<in> set new"
    then have "source e \<in> set ?live \<and> target e \<in> set ?live \<and> source e \<noteq> target e \<and> isNew e"
      using heal_loop_props(1) [OF assms(1), of e 0 ?adj dead ?live ?live "[]"] unfolding new by simp
    then show "isNew e \<and> source e \<noteq> target e \<and> source e \<notin> set dead \<and> target e \<notin> set dead" using live by blast
  qed
  have "\<exists>p. live_edge (edges @ new) dead (sn_id n) p"
  proof (cases "filter (\<lambda>v. v \<notin> set dead) (neighbours_of ?adj (sn_id n)) = []")
    case True
    have "sn_id n \<in> set ?live" "\<exists>m \<in> set ?live. m \<noteq> sn_id n" using assms(2-6) by auto
    from heal_loop_props(2) [OF assms(1) this(1) True this(2), of 0 "[]"]
    obtain e p where "e \<in> set new" "joins e (sn_id n) p" unfolding new by blast
    then show ?thesis using fresh by (auto simp: live_edge_def joins_def)
  next
    case False
    then obtain p where "p \<in> set (neighbours_of ?adj (sn_id n))" by (auto simp: filter_empty_conv)
    then show ?thesis by (auto simp: adjacency_edges live_edge_def)
  qed
  then show ?thesis using fresh by blast
qed

section \<open>The books of the simulation\<close>

datatype sim_cmd =
    Sim_Send sim_env string time
  | Sim_Finish time
  | Sim_End
  | Sim_Kill string
  | Sim_Heal sim_env
  | Sim_Reset

text \<open>The state with the animations that have not finished; timers survive a reset.\<close>

fun sim_step :: "sim_cmd \<Rightarrow> sim_state \<times> sim_sending list \<Rightarrow> sim_state \<times> sim_sending list" where
  "sim_step (Sim_Send ev i now) (st, pend) =
    (case sendMessage ev i now st of (st, None) \<Rightarrow> (st, pend) | (st, Some sg) \<Rightarrow> (st, pend @ [sg]))"
| "sim_step (Sim_Finish now) (st, []) = (st, [])"
| "sim_step (Sim_Finish now) (st, sg # pend) = (finishMessage now sg st, pend)"
| "sim_step Sim_End (st, pend) = (endAnimation st, pend)"
| "sim_step (Sim_Kill n) (st, pend) = (killNode n st, pend)"
| "sim_step (Sim_Heal ev) (st, pend) = (healNetwork ev st, pend)"
| "sim_step Sim_Reset (st, pend) = (sim_reset st, pend)"

fun cmd_ok :: "sim_cmd \<Rightarrow> bool" where
  "cmd_ok (Sim_Send ev i now) = shuffles ev"
| "cmd_ok _ = True"

definition sending_ok :: "sim_sending \<Rightarrow> bool" where
  "sending_ok sg \<longleftrightarrow> 0 \<le> sg_delivered sg \<and> sg_delivered sg \<le> int (sg_totalTx sg)"

definition books_ok :: "sim_state \<Rightarrow> bool" where
  "books_ok st \<longleftrightarrow>
    delivered (sim_metrics st) + duplicatesDropped (sim_metrics st) = totalTransmissions (sim_metrics st)
    \<and> 0 \<le> delivered (sim_metrics st) \<and> 0 \<le> duplicatesDropped (sim_metrics st)
    \<and> activeNodes (sim_metrics st) + failedNodes (sim_metrics st) = int (length (sim_nodes st))
    \<and> failedNodes (sim_metrics st) = int (length (deadNodes st)) \<and> distinct (deadNodes st)
    \<and> length (latencyHistory (sim_metrics st)) \<le> 20"

lemma sendMessage_ok:
  assumes "sendMessage ev i now st = (st', r)" "shuffles ev"
  shows "(books_ok st \<longrightarrow> books_ok st') \<and> (\<forall>sg. r = Some sg \<longrightarrow> sending_ok sg)"
proof -
  obtain waves w0 where w0: "computeGossipWaves ev i ''A'' (sim_edges st) (deadNodes st) (sim_fanout st) (hopLatency st) = Some (waves, w_seen w0)"
    and inv: "wave_inv (buildAdjacency (sim_edges st) (deadNodes st)) (sim_fanout st) ''A'' [] waves w0"
    using waves_result [OF assms(2)] by blast
  define reached where "reached = w_seen w0"
  note w = w0 [folded reached_def]
  have r: "''A'' \<in> set reached" "length reached - 1 \<le> length (concat waves)"
    using inv reached_count [of reached "''A''" "concat waves"] by (simp_all add: wave_inv_def reached_def)
  have "0 < length reached" using r(1) by (cases reached) auto
  then have ok: "0 \<le> int (length reached) - 1 \<and> int (length reached) - 1 \<le> int (length (concat waves))"
    using r(2) by linarith
  show ?thesis
  proof (cases "isAnimating st")
    case True
    then show ?thesis using assms(1) by (simp add: sendMessage_def)
  next
    case False
    then have "st' = st\<lparr>isAnimating := True\<rparr> \<and> (\<exists>sg. r = Some sg \<and> sg_delivered sg = int (length reached) - 1 \<and> sg_totalTx sg = length (concat waves))"
      using assms(1) w by (auto simp: sendMessage_def Let_def)
    then show ?thesis using ok by (auto simp: books_ok_def sending_ok_def)
  qed
qed

lemma finishMessage_ok: "books_ok st \<Longrightarrow> sending_ok sg \<Longrightarrow> books_ok (finishMessage now sg st)"
  by (auto simp: books_ok_def sending_ok_def finishMessage_def Let_def last_20_def)

lemma other_steps_ok:
  "books_ok st \<Longrightarrow> books_ok (endAnimation st)" "books_ok st \<Longrightarrow> books_ok (killNode n st)"
  "books_ok st \<Longrightarrow> books_ok (healNetwork ev st)" "books_ok (sim_reset st)" "books_ok sim_init"
  by (auto simp: books_ok_def endAnimation_def killNode_def healNetwork_def sim_reset_def sim_init_def makeInitialMetrics_def
      set_add_def Let_def)

lemma sim_step_ok:
  assumes "books_ok st" "list_all sending_ok pend" "cmd_ok c" "sim_step c (st, pend) = (st', pend')"
  shows "books_ok st' \<and> list_all sending_ok pend'"
proof (cases c)
  case (Sim_Send ev i now)
  obtain st1 r where s: "sendMessage ev i now st = (st1, r)" by (cases "sendMessage ev i now st")
  then show ?thesis
    using sendMessage_ok [OF s] assms Sim_Send by (cases r) auto
next
  case (Sim_Finish now)
  then show ?thesis using assms finishMessage_ok by (cases pend) auto
qed (use assms other_steps_ok in auto)

text \<open>
  The simulation's books balance: whatever is sent, killed, healed, reset and finished in
  whatever order, deliveries and duplicates are never negative and add up to the
  transmissions, active and failed nodes add up to all nodes, the failed ones are the nodes
  killed, and the history keeps at most 20 values.
\<close>

theorem simulation_books_balance:
  assumes "list_all cmd_ok cs"
  shows "books_ok (fst (foldl (\<lambda>s c. sim_step c s) (sim_init, []) cs))"
proof -
  have "books_ok (fst (foldl (\<lambda>s c. sim_step c s) (st, pend) cs))" if "books_ok st" "list_all sending_ok pend" for st pend
    using assms that
  proof (induction cs arbitrary: st pend)
    case (Cons c cs)
    obtain st1 pend1 where s: "sim_step c (st, pend) = (st1, pend1)" by (cases "sim_step c (st, pend)")
    then show ?case using Cons.IH [of st1 pend1] Cons.prems sim_step_ok [OF _ _ _ s] by simp
  qed simp
  then show ?thesis using other_steps_ok(5) by simp
qed

theorem simulation_books_balance_witness:
  "books_ok (fst (foldl (\<lambda>s c. sim_step c s) (sim_init, []) [Sim_Kill ''C'', Sim_Send in_order ''m'' 0, Sim_Finish 9]))"
  by (rule simulation_books_balance) (simp add: shuffles_def in_order_def)

end
