(* ===== verification/Visualizer.thy ===== *)
theory Visualizer
  imports Simulation
begin

text \<open>
  What the visualizer shows and lets its user do: the animation and the log of
  \<^verbatim>\<open>visualizer/src/hooks/useGossipState.js\<close>, the buttons and sliders of
  \<^verbatim>\<open>ControlPanel.jsx\<close>, the shapes of \<^verbatim>\<open>NetworkGraph.jsx\<close> and the values of
  \<^verbatim>\<open>MetricsDashboard.jsx\<close> and \<^verbatim>\<open>StatusLog.jsx\<close>. A component is a function of the
  state; the markup around the values, fonts and filters are left out.
\<close>

section \<open>The animation\<close>

datatype log_entry =
    L_Ready nat
  | L_Started string int nat
  | L_Complete int int nat int
  | L_Killed string
  | L_Connected
  | L_Healed nat
  | L_Reset

text \<open>The one timer the hook may have pending: the next transmission, or the end of the animation.\<close>

datatype anim_timer = T_None | T_Tx transmission | T_End

record view =
  v_sim :: sim_state
  v_sending :: "sim_sending option"
  v_waves :: "transmission list list"
  waveIndex :: nat
  txIndex :: nat
  v_timer :: anim_timer
  activeEdge :: "(string \<times> string) option"
  litNodes :: "string list"
  statusLog :: "log_entry list"

definition view_init :: view where
  "view_init = \<lparr>v_sim = sim_init, v_sending = None, v_waves = [], waveIndex = 0, txIndex = 0, v_timer = T_None,
     activeEdge = None, litNodes = [], statusLog = [L_Ready (length INITIAL_NODES)]\<rparr>"

definition view_log :: "log_entry \<Rightarrow> view \<Rightarrow> view" where
  "view_log x v = v\<lparr>statusLog := take 50 (x # statusLog v)\<rparr>"

text \<open>The recursion of \<^verbatim>\<open>scheduleNext\<close> over finished waves, up to the next transmission.\<close>

function next_tx :: "'a list list \<Rightarrow> nat \<Rightarrow> nat \<Rightarrow> ('a \<times> nat \<times> nat) option" where
  "next_tx waves w t =
    (if w \<ge> length waves then None
     else if t \<ge> length (waves ! w) then next_tx waves (Suc w) 0
     else Some (waves ! w ! t, w, Suc t))"
  by pat_completeness auto
termination by (relation "measure (\<lambda>(waves, w, t). length waves - w)") auto

declare next_tx.simps [simp del]

definition scheduleNext :: "time \<Rightarrow> view \<Rightarrow> view" where
  "scheduleNext now v =
    (case v_sending v of
       None \<Rightarrow> v
     | Some sg \<Rightarrow>
         (case next_tx (v_waves v) (waveIndex v) (txIndex v) of
            None \<Rightarrow>
              view_log (L_Complete (sg_delivered sg) (int (sg_totalTx sg) - sg_delivered sg) (sg_waves sg) (now - sg_start sg))
                (v\<lparr>activeEdge := None, v_sim := finishMessage now sg (v_sim v), v_sending := None, v_timer := T_End\<rparr>)
          | Some (tx, w, t) \<Rightarrow> v\<lparr>waveIndex := w, txIndex := t, v_timer := T_Tx tx\<rparr>))"

definition view_send :: "sim_env \<Rightarrow> string \<Rightarrow> time \<Rightarrow> view \<Rightarrow> view" where
  "view_send ev msgId now v =
    (let st = v_sim v in
     case (sendMessage ev msgId now st, computeGossipWaves ev msgId ''A'' (sim_edges st) (deadNodes st) (sim_fanout st) (hopLatency st)) of
       ((st', Some sg), Some (waves, reached)) \<Rightarrow>
         scheduleNext now
           ((view_log (L_Started msgId (sg_theoreticalMin sg + 1) (sim_fanout st)) v)
             \<lparr>v_sim := st', v_sending := Some sg, v_waves := waves, waveIndex := 0, txIndex := 0, litNodes := [''A'']\<rparr>)
     | _ \<Rightarrow> v)"

definition view_timer :: "time \<Rightarrow> view \<Rightarrow> view" where
  "view_timer now v =
    (case v_timer v of
       T_None \<Rightarrow> v
     | T_Tx tx \<Rightarrow> scheduleNext now (v\<lparr>activeEdge := Some (tx_from tx, tx_to tx), litNodes := set_add (litNodes v) (tx_to tx)\<rparr>)
     | T_End \<Rightarrow> v\<lparr>litNodes := [], v_sim := endAnimation (v_sim v), v_timer := T_None\<rparr>)"

definition view_kill :: "string \<Rightarrow> view \<Rightarrow> view" where
  "view_kill nodeId v =
    (if nodeId \<in> set (deadNodes (v_sim v)) then v
     else view_log (L_Killed nodeId) (v\<lparr>v_sim := killNode nodeId (v_sim v)\<rparr>))"

definition view_heal :: "sim_env \<Rightarrow> view \<Rightarrow> view" where
  "view_heal ev v =
    (let st = v_sim v; newEdges = computeHealingEdges ev (sim_edges st) (deadNodes st) (sim_nodes st)
     in if newEdges = [] then view_log L_Connected v
        else view_log (L_Healed (length newEdges)) (v\<lparr>v_sim := healNetwork ev st\<rparr>))"

definition view_reset :: "view \<Rightarrow> view" where
  "view_reset v = view_log L_Reset (v\<lparr>v_sim := sim_reset (v_sim v), activeEdge := None, litNodes := []\<rparr>)"

section \<open>The control panel\<close>

text \<open>A button or slider whose \<^verbatim>\<open>disabled\<close> attribute holds does not call its handler.\<close>

record controls =
  send_enabled :: bool
  kill_enabled :: bool
  heal_enabled :: bool
  reset_enabled :: bool
  sliders_enabled :: bool
  send_label :: string
  kill_label :: string

definition control_panel :: "sim_state \<Rightarrow> controls" where
  "control_panel st =
    (let nodeC_dead = ''C'' \<in> set (deadNodes st)
     in \<lparr>send_enabled = (\<not> isAnimating st), kill_enabled = (\<not> (nodeC_dead \<or> isAnimating st)),
         heal_enabled = (\<not> (isAnimating st \<or> \<not> nodeC_dead)), reset_enabled = (\<not> isAnimating st),
         sliders_enabled = (\<not> isAnimating st),
         send_label = (if isAnimating st then ''Propagating'' else ''Send Message from A''),
         kill_label = (if nodeC_dead then ''Node-C Already Dead'' else ''Kill Node-C'')\<rparr>)"

text \<open>The positions a range input can take.\<close>

definition slider_values :: "nat \<Rightarrow> nat \<Rightarrow> nat \<Rightarrow> nat list" where
  "slider_values lo hi step = map (\<lambda>i. lo + step * i) [0..<Suc ((hi - lo) div step)]"

definition fanout_slider :: "nat list" where "fanout_slider = slider_values 1 4 1"

definition latency_slider :: "nat list" where "latency_slider = slider_values 100 800 50"

datatype panel_cmd =
    Click_Send sim_env string time
  | Click_Kill
  | Click_Heal sim_env
  | Click_Reset
  | Slide_Fanout nat
  | Slide_Latency nat
  | Timer_Fires time

fun panel_step :: "panel_cmd \<Rightarrow> view \<Rightarrow> view" where
  "panel_step (Click_Send ev i now) v = (if send_enabled (control_panel (v_sim v)) then view_send ev i now v else v)"
| "panel_step Click_Kill v = (if kill_enabled (control_panel (v_sim v)) then view_kill ''C'' v else v)"
| "panel_step (Click_Heal ev) v = (if heal_enabled (control_panel (v_sim v)) then view_heal ev v else v)"
| "panel_step Click_Reset v = (if reset_enabled (control_panel (v_sim v)) then view_reset v else v)"
| "panel_step (Slide_Fanout k) v =
    (if sliders_enabled (control_panel (v_sim v)) \<and> k \<in> set fanout_slider then v\<lparr>v_sim := (v_sim v)\<lparr>sim_fanout := k\<rparr>\<rparr> else v)"
| "panel_step (Slide_Latency k) v =
    (if sliders_enabled (control_panel (v_sim v)) \<and> k \<in> set latency_slider then v\<lparr>v_sim := (v_sim v)\<lparr>hopLatency := k\<rparr>\<rparr> else v)"
| "panel_step (Timer_Fires now) v = view_timer now v"

section \<open>The drawing\<close>

datatype shape =
    S_Line nat nat nat nat string rat string rat
  | S_Packet nat nat nat nat
  | S_Ring nat nat nat
  | S_Disc nat nat string string nat
  | S_Label nat nat string string
  | S_Status nat nat string string
  | S_Cross nat nat

definition GRAPH_WIDTH :: nat where "GRAPH_WIDTH = 680"
definition GRAPH_HEIGHT :: nat where "GRAPH_HEIGHT = 520"
definition NODE_R :: nat where "NODE_R = 28"

definition grid_lines :: "shape list" where
  "grid_lines =
    map (\<lambda>x. S_Line x 0 x GRAPH_HEIGHT ''#ffffff08'' 1 ''none'' 1) (slider_values 0 GRAPH_WIDTH 40)
    @ map (\<lambda>y. S_Line 0 y GRAPH_WIDTH y ''#ffffff08'' 1 ''none'' 1) (slider_values 0 GRAPH_HEIGHT 40)"

definition node_positions :: "sim_node list \<Rightarrow> (string, nat \<times> nat) jmap" where
  "node_positions nodes = foldl (\<lambda>pos n. map_set pos (sn_id n) (sn_x n, sn_y n)) [] nodes"

definition draw_edge ::
  "(string, nat \<times> nat) jmap \<Rightarrow> string list \<Rightarrow> (string \<times> string) option \<Rightarrow> sim_edge \<Rightarrow> shape list" where
  "draw_edge pos dead active e =
    (case (map_get pos (source e), map_get pos (target e)) of
       (Some (x1, y1), Some (x2, y2)) \<Rightarrow>
         (let isDead = (source e \<in> set dead \<or> target e \<in> set dead);
              isActive = (active = Some (source e, target e) \<or> active = Some (target e, source e))
          in S_Line x1 y1 x2 y2
               (if isDead then ''#1a1a2e'' else if isNew e then ''#34d399'' else if isActive then ''#60a5fa'' else ''#2d4a6e'')
               (if isActive then 3 else if isNew e then 2 else 3 / 2)
               (if isActive then ''8 4'' else if isDead then ''4 4'' else if isNew e then ''6 3'' else ''none'')
               (if isDead then 3 / 10 else if isActive then 1 else 7 / 10)
             # (if isActive then [S_Packet x1 y1 x2 y2] else []))
     | _ \<Rightarrow> [])"

definition draw_node :: "string list \<Rightarrow> string list \<Rightarrow> sim_node \<Rightarrow> shape list" where
  "draw_node dead lit n =
    (let isDead = sn_id n \<in> set dead; isLit = sn_id n \<in> set lit; x = sn_x n; y = sn_y n
     in (if isLit \<and> \<not> isDead then [S_Ring x y (NODE_R + 8)] else [])
        @ [S_Disc x y (if isDead then ''#2d1515'' else if isLit then ''#1e3a5f'' else ''#1e2a3a'')
             (if isDead then ''#ef4444'' else if isLit then ''#f59e0b'' else ''#3b82f6'') (if isDead then 2 else if isLit then 3 else 2),
           S_Label x y (if isDead then ''#6b7280'' else if isLit then ''#f59e0b'' else ''#e2e8f0'') (sn_id n),
           S_Status x y (if isDead then ''#4b5563'' else ''#64748b'') (if isDead then ''DEAD'' else ''ACTIVE'')]
        @ (if isDead then [S_Cross x y] else []))"

definition NetworkGraph :: "view \<Rightarrow> shape list" where
  "NetworkGraph v =
    (let st = v_sim v
     in grid_lines
        @ concat (map (draw_edge (node_positions (sim_nodes st)) (deadNodes st) (activeEdge v)) (sim_edges st))
        @ concat (map (draw_node (deadNodes st) (litNodes v)) (sim_nodes st)))"

section \<open>The dashboard\<close>

definition sparkline :: "rat \<Rightarrow> rat \<Rightarrow> int list \<Rightarrow> (rat \<times> rat) list" where
  "sparkline height width data =
    (if length data < 2 then []
     else
       let m = Max (insert 1 (set data))
       in map (\<lambda>i. (of_nat i / of_nat (length data - 1) * width, height - of_int (data ! i) / of_int m * height)) [0..<length data])"

record dashboard =
  d_status :: string
  d_rows :: "(string \<times> rat \<times> bool) list"
  d_warning :: bool
  d_spark :: "(rat \<times> rat) list"
  d_spark_color :: string

definition metrics_dashboard :: "sim_metrics \<Rightarrow> dashboard" where
  "metrics_dashboard m =
    (let highLatency = avgLatencyMs m > 500; highAmplification = amplificationFactor m > 3
     in \<lparr>d_status = (if failedNodes m > 0 then ''DEGRADED'' else ''HEALTHY''),
         d_rows =
           [(''Total Messages Sent'', of_nat (totalSent m), False), (''Messages Delivered'', of_int (delivered m), False),
            (''Duplicates Dropped'', of_int (duplicatesDropped m), duplicatesDropped m > 5),
            (''Active Nodes'', of_int (activeNodes m), False), (''Failed Nodes'', of_int (failedNodes m), failedNodes m > 0),
            (''Throughput'', of_int (throughput m), False), (''Avg Latency'', of_int (avgLatencyMs m), highLatency),
            (''Peak Latency (p99)'', of_int (peakLatencyMs m), False), (''Propagation Time'', of_int (propagationTimeMs m), False),
            (''Fanout (k)'', of_nat (m_fanout m), False), (''Total Transmissions'', of_int (totalTransmissions m), False),
            (''Theoretical Minimum'', of_int (theoreticalMin m), False),
            (''Amplification Factor'', amplificationFactor m, highAmplification), (''Max Hops'', of_nat (maxHops m), False),
            (''Reconnection Events'', of_nat (reconnectionEvents m), False), (''Message Retry Count'', of_nat (retryCount m), False)],
         d_warning = highAmplification, d_spark = sparkline 36 150 (latencyHistory m),
         d_spark_color = (if highLatency then ''#ef4444'' else ''#60a5fa'')\<rparr>)"

text \<open>The log panel: every entry, with the first one marked as the latest.\<close>

definition status_log :: "log_entry list \<Rightarrow> (log_entry \<times> bool) list" where
  "status_log entries = map (\<lambda>i. (entries ! i, i = 0)) [0..<length entries]"

section \<open>The panel keeps the simulation consistent\<close>

definition view_ok :: "view \<Rightarrow> bool" where
  "view_ok v \<longleftrightarrow> books_ok (v_sim v) \<and> sim_nodes (v_sim v) = INITIAL_NODES \<and> set (deadNodes (v_sim v)) \<subseteq> {''C''}
    \<and> sim_fanout (v_sim v) \<in> set fanout_slider \<and> hopLatency (v_sim v) \<in> set latency_slider
    \<and> isAnimating (v_sim v) = (v_timer v \<noteq> T_None)
    \<and> (case v_sending v of None \<Rightarrow> v_timer v \<in> {T_None, T_End} | Some sg \<Rightarrow> sending_ok sg \<and> v_timer v \<notin> {T_None, T_End})
    \<and> (v_sending v = None \<longrightarrow> activeEdge v = None) \<and> (v_timer v = T_None \<longrightarrow> litNodes v = [])
    \<and> length (statusLog v) \<le> 50"

lemma log_frames [simp]:
  "v_sim (view_log x v) = v_sim v" "v_sending (view_log x v) = v_sending v" "v_timer (view_log x v) = v_timer v"
  "activeEdge (view_log x v) = activeEdge v" "litNodes (view_log x v) = litNodes v" "length (statusLog (view_log x v)) \<le> 50"
  "v_waves (view_log x v) = v_waves v" "waveIndex (view_log x v) = waveIndex v" "txIndex (view_log x v) = txIndex v"
  by (simp_all add: view_log_def)

lemma finish_frames [simp]:
  "sim_nodes (finishMessage now sg st) = sim_nodes st" "deadNodes (finishMessage now sg st) = deadNodes st"
  "sim_fanout (finishMessage now sg st) = sim_fanout st" "hopLatency (finishMessage now sg st) = hopLatency st"
  "isAnimating (finishMessage now sg st) = isAnimating st"
  by (simp_all add: finishMessage_def Let_def)

lemma books_sliders [simp]:
  "books_ok (st\<lparr>sim_fanout := k\<rparr>) = books_ok st" "books_ok (st\<lparr>hopLatency := k\<rparr>) = books_ok st"
  by (simp_all add: books_ok_def)

lemma schedule_ok:
  assumes "v_sending v = Some sg" "sending_ok sg" "books_ok (v_sim v)" "isAnimating (v_sim v)"
    "sim_nodes (v_sim v) = INITIAL_NODES" "set (deadNodes (v_sim v)) \<subseteq> {''C''}"
    "sim_fanout (v_sim v) \<in> set fanout_slider" "hopLatency (v_sim v) \<in> set latency_slider" "length (statusLog v) \<le> 50"
  shows "view_ok (scheduleNext now v)"
  using assms finishMessage_ok [OF assms(3,2), of now]
  by (auto simp: scheduleNext_def view_ok_def split: option.splits)

lemma send_ok:
  assumes "view_ok v" "shuffles ev" "\<not> isAnimating (v_sim v)"
  shows "view_ok (view_send ev i now v)"
proof -
  obtain st' r where s: "sendMessage ev i now (v_sim v) = (st', r)" by (cases "sendMessage ev i now (v_sim v)")
  note ok = sendMessage_ok [OF s assms(2)]
  show ?thesis
  proof (cases r)
    case (Some sg)
    have st': "st' = (v_sim v)\<lparr>isAnimating := True\<rparr>"
      using s Some assms(3) by (auto simp: sendMessage_def Let_def split: option.splits)
    obtain waves reached where w: "computeGossipWaves ev i ''A'' (sim_edges (v_sim v)) (deadNodes (v_sim v)) (sim_fanout (v_sim v))
        (hopLatency (v_sim v)) = Some (waves, reached)"
      using s Some assms(3) by (auto simp: sendMessage_def Let_def split: option.splits)
    show ?thesis
      unfolding view_send_def Let_def s Some w prod.case option.case
      by (rule schedule_ok [where sg = sg]) (use assms(1) ok Some st' in \<open>auto simp: view_ok_def\<close>)
  qed (use assms(1) s in \<open>simp add: view_send_def Let_def\<close>)
qed

lemma kill_frames [simp]:
  "sim_nodes (killNode n st) = sim_nodes st" "sim_fanout (killNode n st) = sim_fanout st" "hopLatency (killNode n st) = hopLatency st"
  "isAnimating (killNode n st) = isAnimating st" "set (deadNodes (killNode n st)) = insert n (set (deadNodes st))"
  "sim_nodes (healNetwork ev st) = sim_nodes st" "sim_fanout (healNetwork ev st) = sim_fanout st" "hopLatency (healNetwork ev st) = hopLatency st"
  "isAnimating (healNetwork ev st) = isAnimating st" "deadNodes (healNetwork ev st) = deadNodes st"
  by (auto simp: killNode_def healNetwork_def Let_def)

fun panel_cmd_ok :: "panel_cmd \<Rightarrow> bool" where
  "panel_cmd_ok (Click_Send ev i now) = shuffles ev"
| "panel_cmd_ok c = True"

lemma panel_step_ok:
  assumes "view_ok v" "panel_cmd_ok c"
  shows "view_ok (panel_step c v)"
proof (cases c)
  case (Click_Send ev i now)
  then show ?thesis using assms send_ok [of v ev i now] by (simp add: control_panel_def Let_def)
next
  case (Timer_Fires now)
  show ?thesis
  proof (cases "v_timer v")
    case (T_Tx tx)
    then obtain sg where sg: "v_sending v = Some sg" "sending_ok sg" using assms(1) by (auto simp: view_ok_def split: option.splits)
    show ?thesis
      unfolding Timer_Fires panel_step.simps view_timer_def T_Tx anim_timer.case
      by (rule schedule_ok [where sg = sg]) (use assms(1) sg T_Tx in \<open>auto simp: view_ok_def\<close>)
  next
    case T_End
    then show ?thesis
      using assms(1) Timer_Fires other_steps_ok(1) [of "v_sim v"]
      by (auto simp: view_ok_def view_timer_def endAnimation_def split: option.splits)
  qed (use assms Timer_Fires in \<open>simp add: view_timer_def\<close>)
next
  case Click_Kill
  then show ?thesis
    using assms(1) other_steps_ok(2) [of "v_sim v" "''C''"]
    by (auto simp: view_ok_def control_panel_def view_kill_def Let_def split: option.splits)
next
  case (Click_Heal ev)
  then show ?thesis
    using assms(1) other_steps_ok(3) [of "v_sim v" ev]
    by (auto simp: view_ok_def control_panel_def view_heal_def Let_def split: option.splits)
next
  case Click_Reset
  then show ?thesis
    using assms(1) other_steps_ok(4) [of "v_sim v"]
    by (auto simp: view_ok_def control_panel_def view_reset_def sim_reset_def Let_def split: option.splits)
qed (use assms(1) in \<open>auto simp: view_ok_def split: option.splits\<close>)

text \<open>
  C39: the panel never corrupts the simulation: whatever is clicked and slid and whenever timers
  fire, at most one message is animated, exactly while the controls are locked; so no result
  is added to counters that were reset meanwhile, the books balance, at most the node C is
  dead, the sliders stay in range, the log keeps at most 50 entries, and nothing is lit or
  active once the controls are free again.
\<close>

theorem panel_consistent:
  assumes "list_all panel_cmd_ok cs" "v = foldl (\<lambda>v c. panel_step c v) view_init cs"
  shows "view_ok v \<and> activeNodes (sim_metrics (v_sim v)) \<in> {4, 5}
    \<and> (send_enabled (control_panel (v_sim v)) \<longrightarrow> v_sending v = None \<and> activeEdge v = None \<and> litNodes v = [])"
proof -
  have sliders: "DEFAULT_FANOUT \<in> set fanout_slider" "DEFAULT_HOP_LATENCY_MS \<in> set latency_slider" by code_simp+
  have "view_ok view_init"
    unfolding view_ok_def view_init_def by (intro conjI) (use sliders other_steps_ok(5) in \<open>simp_all add: sim_init_def\<close>)
  moreover have "view_ok v \<Longrightarrow> view_ok (foldl (\<lambda>v c. panel_step c v) v cs)" for v
    using assms(1) by (induction cs arbitrary: v) (simp_all add: panel_step_ok)
  ultimately have ok: "view_ok v" using assms(2) by simp
  then have "length (deadNodes (v_sim v)) \<le> 1"
    using card_mono [of "{''C''}" "set (deadNodes (v_sim v))"] distinct_card [of "deadNodes (v_sim v)"]
    by (simp add: view_ok_def books_ok_def)
  then have "activeNodes (sim_metrics (v_sim v)) \<in> {4, 5}"
    using ok by (auto simp: view_ok_def books_ok_def INITIAL_NODES_def)
  with ok show ?thesis by (auto simp: view_ok_def control_panel_def Let_def split: option.splits)
qed

theorem panel_consistent_witness:
  "view_ok (foldl (\<lambda>v c. panel_step c v) view_init
    [Click_Kill, Click_Heal in_order, Click_Send in_order ''m'' 0, Click_Reset, Timer_Fires 1])"
  using panel_consistent [OF _ refl, of "[Click_Kill, Click_Heal in_order, Click_Send in_order ''m'' 0, Click_Reset, Timer_Fires 1]"]
  by (simp add: shuffles_def in_order_def)

section \<open>The animation shows the propagation\<close>

definition tx_left :: "'a list list \<Rightarrow> nat \<Rightarrow> nat \<Rightarrow> 'a list" where
  "tx_left waves w t = (if w < length waves then drop t (waves ! w) @ concat (drop (Suc w) waves) else [])"

lemma next_tx_left:
  "case tx_left waves w t of
     [] \<Rightarrow> next_tx waves w t = None
   | x # xs \<Rightarrow> \<exists>w' t'. next_tx waves w t = Some (x, w', t') \<and> tx_left waves w' t' = xs"
proof (induction waves w t rule: next_tx.induct)
  case (1 waves w t)
  show ?case
  proof (cases "w < length waves \<and> length (waves ! w) \<le> t")
    case True
    then have "tx_left waves (Suc w) 0 = tx_left waves w t"
      by (auto simp: tx_left_def Cons_nth_drop_Suc [symmetric])
    moreover have "next_tx waves w t = next_tx waves (Suc w) 0" using True by (simp add: next_tx.simps [of waves w])
    moreover have "case tx_left waves (Suc w) 0 of [] \<Rightarrow> next_tx waves (Suc w) 0 = None
      | x # xs \<Rightarrow> \<exists>w' t'. next_tx waves (Suc w) 0 = Some (x, w', t') \<and> tx_left waves w' t' = xs"
      by (rule 1) (use True in simp_all)
    ultimately show ?thesis by (simp only:)
  next
    case False
    then show ?thesis
      by (auto simp: next_tx.simps [of waves w] tx_left_def Cons_nth_drop_Suc [symmetric])
  qed
qed

lemma next_tx_Nil: "tx_left waves w t = [] \<Longrightarrow> next_tx waves w t = None"
  using next_tx_left [of waves w t] by simp

lemma next_tx_Cons:
  assumes "tx_left waves w t = x # xs"
  obtains w' t' where "next_tx waves w t = Some (x, w', t')" "tx_left waves w' t' = xs"
  using next_tx_left [of waves w t] assms by auto

definition edge_of :: "transmission \<Rightarrow> string \<times> string" where
  "edge_of tx = (tx_from tx, tx_to tx)"

abbreviation fire_timers :: "view \<Rightarrow> time list \<Rightarrow> view" where
  "fire_timers v nows \<equiv> foldl (\<lambda>v now. view_timer now v) v nows"

text \<open>Firing fewer timers than there are transmissions left.\<close>

lemma playing:
  assumes "v_timer v = T_Tx tx" "v_sending v = Some sg" "tx_left (v_waves v) (waveIndex v) (txIndex v) = rest" "length nows \<le> length rest"
  shows "v_sending (fire_timers v nows) = Some sg \<and> v_sim (fire_timers v nows) = v_sim v
    \<and> v_timer (fire_timers v nows) = T_Tx ((tx # rest) ! length nows)
    \<and> tx_left (v_waves (fire_timers v nows)) (waveIndex (fire_timers v nows)) (txIndex (fire_timers v nows)) = drop (length nows) rest
    \<and> set (litNodes (fire_timers v nows)) = set (litNodes v) \<union> tx_to ` set (take (length nows) (tx # rest))
    \<and> (nows \<noteq> [] \<longrightarrow> activeEdge (fire_timers v nows) = Some (edge_of ((tx # rest) ! (length nows - 1))))"
  using assms
proof (induction nows arbitrary: v tx rest)
  case (Cons now nows)
  obtain x xs where rest: "rest = x # xs" using Cons.prems(4) by (cases rest) auto
  obtain w' t' where nt: "next_tx (v_waves v) (waveIndex v) (txIndex v) = Some (x, w', t')" "tx_left (v_waves v) w' t' = xs"
    by (rule next_tx_Cons [OF Cons.prems(3) [unfolded rest]])
  define v1 where "v1 = v\<lparr>activeEdge := Some (edge_of tx), litNodes := set_add (litNodes v) (tx_to tx), waveIndex := w', txIndex := t', v_timer := T_Tx x\<rparr>"
  have v1: "view_timer now v = v1"
    using Cons.prems(1,2) nt(1) by (simp add: view_timer_def scheduleNext_def v1_def edge_of_def)
  have "length nows \<le> length xs" using Cons.prems(4) rest by simp
  from Cons.IH [OF _ _ _ this, of v1 x] have ih: "v_sending (fire_timers v1 nows) = Some sg" "v_sim (fire_timers v1 nows) = v_sim v"
    "v_timer (fire_timers v1 nows) = T_Tx ((x # xs) ! length nows)"
    "tx_left (v_waves (fire_timers v1 nows)) (waveIndex (fire_timers v1 nows)) (txIndex (fire_timers v1 nows)) = drop (length nows) xs"
    "set (litNodes (fire_timers v1 nows)) = insert (tx_to tx) (set (litNodes v)) \<union> tx_to ` set (take (length nows) (x # xs))"
    "nows \<noteq> [] \<longrightarrow> activeEdge (fire_timers v1 nows) = Some (edge_of ((x # xs) ! (length nows - 1)))"
    using Cons.prems(2) nt(2) by (auto simp: v1_def)
  have "activeEdge v1 = Some (edge_of tx)" by (simp add: v1_def)
  then have "activeEdge (fire_timers v1 nows) = Some (edge_of ((tx # rest) ! length nows))"
    using ih(6) rest by (cases nows) auto
  then show ?case using ih(1-5) v1 rest by simp
qed simp

lemma sent_message:
  assumes "\<not> isAnimating st" "computeGossipWaves ev i ''A'' (sim_edges st) (deadNodes st) (sim_fanout st) (hopLatency st) = Some (waves, reached)"
  obtains sg where "sendMessage ev i now st = (st\<lparr>isAnimating := True\<rparr>, Some sg)" "sg_totalTx sg = length (concat waves)"
    "sg_delivered sg = int (length reached) - 1"
  using assms by (simp add: sendMessage_def Let_def)

text \<open>
  The animation shows the propagation, all but its last step: after a click on send, each
  timer lights the next target of the computed waves, in their order, and marks its edge; with
  the last one the marker goes out at once, so the last edge is never shown; then the source
  and all targets are lit and the counters grow by one message, the transmissions and the
  nodes reached; one more timer puts the lights out and unlocks the controls.
\<close>

theorem animation_shows_propagation:
  assumes "\<not> isAnimating (v_sim v)" "st = v_sim v" "activeEdge v = None"
    and "computeGossipWaves ev i ''A'' (sim_edges st) (deadNodes st) (sim_fanout st) (hopLatency st) = Some (waves, reached)" "txs = concat waves"
    and "v0 = view_send ev i now v" "length nows = length txs" "v' = fire_timers v0 nows"
  shows "(\<forall>k. 0 < k \<and> k < length nows \<longrightarrow>
        activeEdge (fire_timers v0 (take k nows)) = Some (edge_of (txs ! (k - 1)))
        \<and> set (litNodes (fire_timers v0 (take k nows))) = insert ''A'' (tx_to ` set (take k txs)))
    \<and> v_timer v' = T_End \<and> activeEdge v' = None \<and> set (litNodes v') = insert ''A'' (tx_to ` set txs)
    \<and> totalSent (sim_metrics (v_sim v')) = totalSent (sim_metrics st) + 1
    \<and> totalTransmissions (sim_metrics (v_sim v')) = totalTransmissions (sim_metrics st) + int (length txs)
    \<and> delivered (sim_metrics (v_sim v')) = delivered (sim_metrics st) + int (length reached) - 1
    \<and> v_timer (view_timer end v') = T_None \<and> litNodes (view_timer end v') = [] \<and> \<not> isAnimating (v_sim (view_timer end v'))"
proof -
  obtain sg where sg: "sendMessage ev i now st = (st\<lparr>isAnimating := True\<rparr>, Some sg)" "sg_totalTx sg = length txs"
    "sg_delivered sg = int (length reached) - 1"
    using sent_message [OF _ assms(4), of now] assms(1,2,5) by metis
  define u where "u = (view_log (L_Started i (sg_theoreticalMin sg + 1) (sim_fanout st)) v)
    \<lparr>v_sim := st\<lparr>isAnimating := True\<rparr>, v_sending := Some sg, v_waves := waves, waveIndex := 0, txIndex := 0, litNodes := [''A'']\<rparr>"
  have v0: "v0 = scheduleNext now u" using assms(2,4,6) sg(1) by (simp add: view_send_def Let_def u_def)
  have rem: "tx_left waves 0 0 = txs" by (cases waves) (simp_all add: tx_left_def assms(5))
  have u: "v_sending u = Some sg" "v_waves u = waves" "waveIndex u = 0" "txIndex u = 0" "litNodes u = [''A'']" "activeEdge u = None"
    "v_sim u = st\<lparr>isAnimating := True\<rparr>"
    by (simp_all add: u_def assms(3))
  have fin: "v_timer (scheduleNext t x) = T_End \<and> activeEdge (scheduleNext t x) = None \<and> litNodes (scheduleNext t x) = litNodes x
      \<and> v_sim (scheduleNext t x) = finishMessage t sg (v_sim x)"
    if "v_sending x = Some sg" "tx_left (v_waves x) (waveIndex x) (txIndex x) = []" for t x
    using that next_tx_Nil [OF that(2)] by (simp add: scheduleNext_def)
  have books: "totalSent (sim_metrics (finishMessage t sg (st\<lparr>isAnimating := True\<rparr>))) = totalSent (sim_metrics st) + 1
      \<and> totalTransmissions (sim_metrics (finishMessage t sg (st\<lparr>isAnimating := True\<rparr>))) = totalTransmissions (sim_metrics st) + int (length txs)
      \<and> delivered (sim_metrics (finishMessage t sg (st\<lparr>isAnimating := True\<rparr>))) = delivered (sim_metrics st) + int (length reached) - 1" for t
    by (simp add: finishMessage_def Let_def sg(2,3))
  have idle: "v_timer (view_timer end x) = T_None \<and> litNodes (view_timer end x) = [] \<and> \<not> isAnimating (v_sim (view_timer end x))"
    if "v_timer x = T_End" for x using that by (simp add: view_timer_def endAnimation_def)
  show ?thesis
  proof (cases "txs")
    case Nil
    then have "v_timer v0 = T_End" "activeEdge v0 = None" "litNodes v0 = [''A'']" "v_sim v0 = finishMessage now sg (st\<lparr>isAnimating := True\<rparr>)"
      using fin [of u now] u rem by (simp_all add: v0)
    moreover have "v' = v0" using assms(7,8) Nil by simp
    ultimately show ?thesis using books [of now] idle [of v0] Nil assms(7) by simp
  next
    case (Cons tx rest)
    obtain w' t' where nt: "next_tx (v_waves u) (waveIndex u) (txIndex u) = Some (tx, w', t')" "tx_left (v_waves u) w' t' = rest"
      by (rule next_tx_Cons [of "v_waves u" "waveIndex u" "txIndex u" tx rest]) (use rem Cons u in simp_all)
    have s: "v_timer v0 = T_Tx tx" "v_sending v0 = Some sg" "tx_left (v_waves v0) (waveIndex v0) (txIndex v0) = rest"
      "litNodes v0 = [''A'']" "v_sim v0 = st\<lparr>isAnimating := True\<rparr>"
      using nt u by (simp_all add: v0 scheduleNext_def)
    note play = playing [OF s(1-3)]
    have shown: "activeEdge (fire_timers v0 (take k nows)) = Some (edge_of (txs ! (k - 1)))
        \<and> set (litNodes (fire_timers v0 (take k nows))) = insert ''A'' (tx_to ` set (take k txs))"
      if "0 < k" "k < length nows" for k
    proof -
      have "nows \<noteq> []" using that by auto
      then show ?thesis using play [of "take k nows"] that assms(7) s(4) by (simp add: Cons)
    qed
    obtain nows0 t1 where nows: "nows = nows0 @ [t1]" using assms(7) Cons by (cases nows rule: rev_cases) auto
    have len: "length nows0 = length rest" using assms(7) Cons nows by simp
    define x where "x = fire_timers v0 nows0"
    have x: "v_sending x = Some sg" "v_sim x = st\<lparr>isAnimating := True\<rparr>" "v_timer x = T_Tx (last (tx # rest))"
      "tx_left (v_waves x) (waveIndex x) (txIndex x) = []"
      "set (litNodes x) = insert ''A'' (tx_to ` set (take (length rest) (tx # rest)))"
      using play [of nows0] len s(4,5) by (simp_all add: x_def last_conv_nth)
    have all: "insert (last (tx # rest)) (set (take (length rest) (tx # rest))) = set (tx # rest)"
      using arg_cong [OF append_butlast_last_id [of "tx # rest"], of set] by (simp only: butlast_conv_take) auto
    have v': "v' = view_timer t1 x" using assms(8) nows by (simp add: x_def)
    define y where "y = x\<lparr>activeEdge := Some (edge_of (last (tx # rest))), litNodes := set_add (litNodes x) (tx_to (last (tx # rest)))\<rparr>"
    have "v' = scheduleNext t1 y" using x(3) by (simp add: v' view_timer_def y_def edge_of_def)
    moreover have "set (litNodes y) = insert ''A'' (tx_to ` insert (last (tx # rest)) (set (take (length rest) (tx # rest))))"
      using x(5) by (auto simp: y_def simp del: take_Cons' last.simps)
    then have "set (litNodes y) = insert ''A'' (tx_to ` set txs)" by (simp only: all Cons)
    ultimately have "v_timer v' = T_End" "activeEdge v' = None" "set (litNodes v') = insert ''A'' (tx_to ` set txs)"
      "v_sim v' = finishMessage t1 sg (st\<lparr>isAnimating := True\<rparr>)"
      using fin [of y t1] x by (simp_all add: y_def)
    then show ?thesis using shown books [of t1] idle [of v'] by simp
  qed
qed

theorem animation_shows_propagation_witness:
  "\<exists>n. v_timer (fire_timers (view_send in_order ''m'' 0 view_init) (replicate n 1)) = T_End"
proof -
  have idle: "\<not> isAnimating (v_sim view_init)" "activeEdge view_init = None" by (simp_all add: view_init_def sim_init_def)
  have "shuffles in_order" by (simp add: shuffles_def in_order_def)
  then obtain waves reached where w: "computeGossipWaves in_order ''m'' ''A'' (sim_edges (v_sim view_init)) (deadNodes (v_sim view_init))
      (sim_fanout (v_sim view_init)) (hopLatency (v_sim view_init)) = Some (waves, reached)"
    using waves_result by blast
  have "length (replicate (length (concat waves)) (1 :: time)) = length (concat waves)" by (rule length_replicate)
  from animation_shows_propagation [OF idle(1) refl idle(2) w refl refl this refl] show ?thesis by blast
qed

section \<open>The sparkline stays in its box\<close>

lemma sparkline_in_box:
  assumes "(x, y) \<in> set (sparkline height width data)" "\<forall>d \<in> set data. 0 \<le> d" "0 \<le> height" "0 \<le> width"
  shows "0 \<le> x \<and> x \<le> width \<and> 0 \<le> y \<and> y \<le> height"
proof -
  let ?m = "Max (insert 1 (set data))"
  have m: "1 \<le> ?m" "\<And>d. d \<in> set data \<Longrightarrow> d \<le> ?m" by simp_all
  obtain i where i: "i < length data" "2 \<le> length data" "x = of_nat i / of_nat (length data - 1) * width"
    "y = height - of_int (data ! i) / of_int ?m * height"
    using assms(1) by (auto simp: sparkline_def Let_def split: if_splits)
  have fx: "0 \<le> of_nat i / (of_nat (length data - 1) :: rat)" "of_nat i / (of_nat (length data - 1) :: rat) \<le> 1"
    using i(1,2) by (auto simp: divide_le_eq_1)
  have d: "0 \<le> data ! i" "data ! i \<le> ?m" using assms(2) m(2) i(1) by simp_all
  have fy: "0 \<le> of_int (data ! i) / (of_int ?m :: rat)" "of_int (data ! i) / (of_int ?m :: rat) \<le> 1"
    using d m(1) by (auto simp: divide_le_eq_1 zero_le_divide_iff)
  show ?thesis
    using mult_right_mono [OF fx(2) assms(4)] mult_right_mono [OF fy(2) assms(3)] mult_nonneg_nonneg [OF fx(1) assms(4)]
      mult_nonneg_nonneg [OF fy(1) assms(3)] i(3,4) by simp
qed

end
