(* ===== verification/Client.thy ===== *)
theory Client
  imports Node
begin

text \<open>
  The programs that drive a node: the command line client \<^verbatim>\<open>client/cliClient.js\<close>, the
  server entry point \<^verbatim>\<open>node/server.js\<close>, the worker of the benchmarks
  \<^verbatim>\<open>scripts/nodeWrapper.js\<close>, and the singleton of \<^verbatim>\<open>storage/index.js\<close>. Terminal
  output is the list of things shown, without colours and times; environment variables are
  arguments.
\<close>

section \<open>Words of a line\<close>

fun split_on :: "char \<Rightarrow> string \<Rightarrow> string list" where
  "split_on c [] = [[]]"
| "split_on c (x # xs) =
    (if x = c then [] # split_on c xs
     else case split_on c xs of [] \<Rightarrow> [[x]] | p # ps \<Rightarrow> (x # p) # ps)"

fun join_with :: "char \<Rightarrow> string list \<Rightarrow> string" where
  "join_with c [] = []"
| "join_with c [p] = p"
| "join_with c (p # ps) = p @ c # join_with c ps"

text \<open>An absent argument and an empty one are both falsy.\<close>

definition arg :: "nat \<Rightarrow> string list \<Rightarrow> string" where
  "arg i args = (if i < length args then args ! i else [])"

definition or_else :: "string \<Rightarrow> string \<Rightarrow> string" where
  "or_else s d = (if s = [] then d else s)"

section \<open>The command line client\<close>

record 'd cli =
  cl_node :: "'d node"
  cl_peerId :: peer_id
  currentTopic :: topic_name
  pendingMessages :: "(string, string) jmap"
  cl_exiting :: bool

text \<open>A chat line is shown with its topic, whether it is the user's own, the check mark, the short id and the text.\<close>

datatype cli_out =
    C_Node node_out
  | C_System string
  | C_Chat topic_name bool bool string string
  | C_Confirmed string
  | C_Failed string
  | C_Metrics json
  | C_Stopped "srv_out list" "wire pool_out list"
  | C_Prompt

definition cli_init :: "peer_id \<Rightarrow> 'd node \<Rightarrow> 'd cli" where
  "cli_init p n = \<lparr>cl_node = n, cl_peerId = p, currentTopic = ''global'', pendingMessages = [], cl_exiting = False\<rparr>"

definition logMessage :: "message \<Rightarrow> 'd cli \<Rightarrow> cli_out list" where
  "logMessage m c =
    (let isSelf = sender m = cl_peerId c
     in [C_Chat (msg_topic m) isSelf (isSelf \<and> \<not> map_has (pendingMessages c) (msg_id m)) (take 8 (sender m)) (payload m), C_Prompt])"

fun cli_event :: "node_out \<Rightarrow> 'd cli \<Rightarrow> 'd cli \<times> cli_out list" where
  "cli_event (App_Message m) c = (c, logMessage m c)"
| "cli_event (App_Confirmed i) c =
    (case map_get (pendingMessages c) i of
       None \<Rightarrow> (c, [])
     | Some body \<Rightarrow> (c\<lparr>pendingMessages := map_delete (pendingMessages c) i\<rparr>, [C_Confirmed (take 20 body), C_Prompt]))"
| "cli_event (App_Failed i ps) c =
    (case map_get (pendingMessages c) i of
       None \<Rightarrow> (c, [])
     | Some body \<Rightarrow> (c\<lparr>pendingMessages := map_delete (pendingMessages c) i\<rparr>, [C_Failed (take 20 body), C_Prompt]))"
| "cli_event _ c = (c, [])"

definition with_node :: "('d node \<Rightarrow> outcome \<times> 'd node \<times> node_out list) \<Rightarrow> 'd cli \<Rightarrow> outcome \<times> 'd cli \<times> cli_out list" where
  "with_node f c = (case f (cl_node c) of (r, n, outs) \<Rightarrow> (r, c\<lparr>cl_node := n\<rparr>, map C_Node outs))"

text \<open>What a command prints by \<^verbatim>\<open>logSystem\<close>, which also prompts.\<close>

definition logSystem :: "string \<Rightarrow> 'd cli \<Rightarrow> outcome \<times> 'd cli \<times> cli_out list" where
  "logSystem body c = (Done, c, [C_System body, C_Prompt])"

definition help_text :: string where
  "help_text = join_with (CHR 0x0A)
    [''Commands:'', ''  /join <topic>    - Subscribe to a topic'', ''  /leave <topic>   - Unsubscribe'',
     ''  /peers           - List active peers'', ''  /metrics         - Show performance stats'',
     ''  /send <t> <m>    - Send message to specific topic'', ''  /dm <p> <m>      - Direct message to peer'',
     ''  /help            - Show this help'']"

definition cli_command ::
  "sodium \<Rightarrow> 'd level \<Rightarrow> node_env \<Rightarrow> string \<Rightarrow> string list \<Rightarrow> 'd cli \<Rightarrow> outcome \<times> 'd cli \<times> cli_out list" where
  "cli_command s lv ev cmd args c =
    (if cmd = ''join'' then
       let tp = or_else (arg 0 args) ''global''
       in and_then (with_node (node_subscribe s lv ev tp) c)
            (\<lambda>c. logSystem (''Joined topic: '' @ tp) (c\<lparr>currentTopic := tp\<rparr>))
     else if cmd = ''leave'' then
       let tp = or_else (arg 0 args) (currentTopic c)
       in and_then (with_node (node_unsubscribe s lv ev tp) c) (logSystem (''Left topic: '' @ tp))
     else if cmd = ''peers'' then
       let ps = getAllPeerIds (pr_pool (nd_peers (cl_node c)))
       in logSystem (''Active Peers ('' @ show_nat (length ps) @ ''):'' @ CHR 0x0A # join_with (CHR 0x0A) ps) c
     else if cmd = ''metrics'' then
       (Done, c, [C_Metrics (snapshot_json (getSnapshot (metrics (nd_engine (cl_node c)))))])
     else if cmd = ''send'' then
       let tp = arg 0 args; msg = join_with (CHR '' '') (drop 1 args)
       in if tp = [] \<or> msg = [] then logSystem ''Usage: /send <topic> <message>'' c
          else with_node (\<lambda>n. snd (publish s lv ev tp msg n)) c
     else if cmd = ''dm'' then
       let peer = arg 0 args; msg = join_with (CHR '' '') (drop 1 args)
       in if peer = [] \<or> msg = [] then logSystem ''Usage: /dm <peerId> <message>'' c
          else and_then (with_node (\<lambda>n. snd (sendDM s lv ev peer msg n)) c) (logSystem (''DM sent to '' @ peer))
     else if cmd = ''help'' then logSystem help_text c
     else if cmd = ''exit'' \<or> cmd = ''quit'' then
       (case node_stop lv (se_io (ne_sync ev)) (cl_node c) of
          (n, shut, outs) \<Rightarrow> (Done, c\<lparr>cl_node := n, cl_exiting := True\<rparr>, [C_Stopped shut outs]))
     else logSystem (''Unknown command: '' @ cmd) c)"

definition cli_line ::
  "sodium \<Rightarrow> 'd level \<Rightarrow> node_env \<Rightarrow> string \<Rightarrow> 'd cli \<Rightarrow> outcome \<times> 'd cli \<times> cli_out list" where
  "cli_line s lv ev line c =
    (let input = trim line in
     if input = [] then (Done, c, [C_Prompt])
     else and_then
       (if starts_with ''/'' input then
          let ws = split_on (CHR '' '') (drop 1 input) in cli_command s lv ev (hd ws) (tl ws) c
        else
          (case publish s lv ev (currentTopic c) input (cl_node c) of
             (i, r, n, outs) \<Rightarrow>
               and_then (r, c\<lparr>cl_node := n\<rparr>, map C_Node outs)
                 (\<lambda>c. (Done, c\<lparr>pendingMessages := map_set (pendingMessages c) i input\<rparr>, []))))
       (\<lambda>c. (Done, c, [C_Prompt])))"

text \<open>The node's events reach their listeners after the line has been handled: storing is asynchronous.\<close>

fun cli_events :: "cli_out list \<Rightarrow> 'd cli \<Rightarrow> 'd cli \<times> cli_out list" where
  "cli_events [] c = (c, [])"
| "cli_events (C_Node x # outs) c =
    (case cli_event x c of (c, shown) \<Rightarrow> case cli_events outs c of (c, rest) \<Rightarrow> (c, shown @ rest))"
| "cli_events (_ # outs) c = cli_events outs c"

definition cli_turn ::
  "sodium \<Rightarrow> 'd level \<Rightarrow> node_env \<Rightarrow> string \<Rightarrow> 'd cli \<Rightarrow> outcome \<times> 'd cli \<times> cli_out list" where
  "cli_turn s lv ev line c =
    (case cli_line s lv ev line c of (r, c, outs) \<Rightarrow> case cli_events outs c of (c, shown) \<Rightarrow> (r, c, outs @ shown))"

section \<open>Configuration from the environment\<close>

text \<open>\<^verbatim>\<open>parseInt(v) || d\<close>; ports are naturals.\<close>

definition env_int :: "string option \<Rightarrow> nat \<Rightarrow> nat" where
  "env_int v d = (case v of None \<Rightarrow> d | Some s \<Rightarrow> if parseInt_auto s = 0 then d else nat (parseInt_auto s))"

definition env_str :: "string option \<Rightarrow> string \<Rightarrow> string" where
  "env_str v d = (case v of None \<Rightarrow> d | Some s \<Rightarrow> or_else s d)"

definition server_config :: "nat \<Rightarrow> string option \<Rightarrow> string option \<Rightarrow> string option \<Rightarrow> node_config" where
  "server_config r peer_env port_env bootstrap_env =
    \<lparr>cf_peerId = Some (env_str peer_env (''node-'' @ show_nat (r mod 1000))), cf_port = Some (env_int port_env 8080),
     cf_autoSummary = False, cf_metricsPort = None, cf_enableDiscovery = True, cf_enableMetrics = True,
     cf_bootstrap = (case bootstrap_env of None \<Rightarrow> [] | Some s \<Rightarrow> if s = [] then [] else map Boot_String (split_on (CHR '','') s)),
     cf_rateLimitCapacity = None, cf_rateLimitRefillRate = None\<rparr>"

definition cli_config :: "nat \<Rightarrow> string option \<Rightarrow> string option \<Rightarrow> string option \<Rightarrow> node_config" where
  "cli_config r peer_env port_env metrics_env =
    (let port = env_int port_env 8080
     in \<lparr>cf_peerId = Some (env_str peer_env (''user-'' @ show_nat (r mod 1000))), cf_port = Some port,
         cf_autoSummary = False, cf_metricsPort = Some (env_int metrics_env (port + 1000)), cf_enableDiscovery = True,
         cf_enableMetrics = True, cf_bootstrap = [], cf_rateLimitCapacity = None, cf_rateLimitRefillRate = None\<rparr>)"

section \<open>The benchmark worker\<close>

datatype worker_cmd = Worker_Publish topic_name string | Worker_AddPeer peer_id string nat | Worker_Other

definition worker_command ::
  "sodium \<Rightarrow> 'd level \<Rightarrow> node_env \<Rightarrow> worker_cmd \<Rightarrow> 'd node \<Rightarrow> outcome \<times> 'd node \<times> node_out list" where
  "worker_command s lv ev cmd n =
    (case cmd of
       Worker_Publish tp content \<Rightarrow> snd (publish s lv ev tp content n)
     | Worker_AddPeer p host port \<Rightarrow> peers_do (\<lambda>L. Inr (addPeer (se_now (ne_sync ev)) p host port L)) n
     | Worker_Other \<Rightarrow> (Done, n, []))"

text \<open>What the worker reports to its parent: id and sender of each message.\<close>

definition worker_reports :: "node_out list \<Rightarrow> (string \<times> peer_id) list" where
  "worker_reports outs = List.map_filter (\<lambda>x. case x of App_Message m \<Rightarrow> Some (msg_id m, sender m) | _ \<Rightarrow> None) outs"

section \<open>The processes around a node\<close>

text \<open>
  What the three programs do once their node has started, and on the signals that end them.
  The first component is the list of bootstrap attempts \<^const>\<open>node_start\<close> leaves pending.
\<close>

definition cli_start ::
  "(string \<Rightarrow> (string \<times> string) option) \<Rightarrow> (nat \<Rightarrow> rat) \<Rightarrow> bool \<Rightarrow> bool \<Rightarrow> node_config \<Rightarrow> sodium \<Rightarrow> 'd level \<Rightarrow> node_env \<Rightarrow> 'd cli
    \<Rightarrow> (rat \<times> string \<times> nat \<times> peer_id) list \<times> outcome \<times> 'd cli \<times> cli_out list" where
  "cli_start url rs ad_ok br_ok cf s lv ev c =
    (case node_start url rs ad_ok br_ok cf (cl_node c) of
       (n, pending) \<Rightarrow>
         (pending,
          and_then (logSystem (''Node started on port '' @ show_nat (config_port cf) @ ''. Welcome to the Mesh.'') (c\<lparr>cl_node := n\<rparr>))
           (\<lambda>c. and_then (logSystem ''Type /help for commands.'' c)
             (\<lambda>c. and_then (with_node (node_subscribe s lv ev ''global'') c)
               (\<lambda>c. (Done, c, [C_Prompt]))))))"

definition cli_interrupt :: "'d level \<Rightarrow> io_result \<Rightarrow> 'd cli \<Rightarrow> 'd cli \<times> cli_out list" where
  "cli_interrupt lv io c =
    (case node_stop lv io (cl_node c) of
       (n, shut, outs) \<Rightarrow> (c\<lparr>cl_node := n, cl_exiting := True\<rparr>, [C_Stopped shut outs]))"

text \<open>A server or worker process: its node and, once it has ended, its exit code.\<close>

record 'd process =
  ps_node :: "'d node"
  ps_exit :: "nat option"

text \<open>\<open>started\<close> says whether \<^verbatim>\<open>node.start()\<close> resolves; it rejects when a library does.\<close>

definition server_main ::
  "(string \<Rightarrow> (string \<times> string) option) \<Rightarrow> (nat \<Rightarrow> rat) \<Rightarrow> bool \<Rightarrow> bool \<Rightarrow> bool \<Rightarrow> node_config \<Rightarrow> 'd process
    \<Rightarrow> (rat \<times> string \<times> nat \<times> peer_id) list \<times> 'd process" where
  "server_main url rs ad_ok br_ok started cf ps =
    (if started then
       (case node_start url rs ad_ok br_ok cf (ps_node ps) of (n, pending) \<Rightarrow> (pending, ps\<lparr>ps_node := n\<rparr>))
     else ([], ps\<lparr>ps_exit := Some 1\<rparr>))"

definition server_interrupt :: "'d level \<Rightarrow> io_result \<Rightarrow> 'd process \<Rightarrow> 'd process \<times> srv_out list \<times> wire pool_out list" where
  "server_interrupt lv io ps =
    (case node_stop lv io (ps_node ps) of (n, shut, outs) \<Rightarrow> (ps\<lparr>ps_node := n, ps_exit := Some 0\<rparr>, shut, outs))"

text \<open>The worker subscribes and then tells its parent that it has started.\<close>

definition worker_start ::
  "(string \<Rightarrow> (string \<times> string) option) \<Rightarrow> (nat \<Rightarrow> rat) \<Rightarrow> bool \<Rightarrow> bool \<Rightarrow> node_config \<Rightarrow> sodium \<Rightarrow> 'd level \<Rightarrow> node_env \<Rightarrow> 'd process
    \<Rightarrow> (rat \<times> string \<times> nat \<times> peer_id) list \<times> outcome \<times> 'd process \<times> node_out list \<times> bool" where
  "worker_start url rs ad_ok br_ok cf s lv ev ps =
    (case node_start url rs ad_ok br_ok cf (ps_node ps) of
       (n, pending) \<Rightarrow>
         (case node_subscribe s lv ev ''global'' n of
            (r, n, outs) \<Rightarrow> (pending, r, ps\<lparr>ps_node := n\<rparr>, outs, r = Done)))"

definition worker_stop :: "'d level \<Rightarrow> io_result \<Rightarrow> 'd process \<Rightarrow> 'd process \<times> srv_out list \<times> wire pool_out list" where
  "worker_stop lv io ps =
    (case node_stop lv io (ps_node ps) of (n, shut, outs) \<Rightarrow> (ps\<lparr>ps_node := n, ps_exit := Some 0\<rparr>, shut, outs))"

lemma process_ends_stopped:
  "ps_exit (fst (server_interrupt lv io ps)) = Some 0 \<and> \<not> nd_open (ps_node (fst (server_interrupt lv io ps)))"
  by (simp add: server_interrupt_def node_stop_def Let_def case_prod_beta)

section \<open>The storage singleton\<close>

record 'd storage =
  sg_db :: bool
  sg_store :: "'d store option"

text \<open>\<open>open_ok\<close> says whether the database opens; the handle is kept before that is known.\<close>

definition initializeStorage ::
  "'d level \<Rightarrow> bool \<Rightarrow> io_result \<Rightarrow> io_result \<Rightarrow> (string \<Rightarrow> time option) \<Rightarrow> time \<Rightarrow> 'd \<Rightarrow> collector \<Rightarrow> 'd storage
    \<Rightarrow> (bool \<times> 'd store option) \<times> 'd storage" where
  "initializeStorage lv open_ok io io' date now d col g =
    (if sg_db g then ((True, sg_store g), g)
     else
       let g = g\<lparr>sg_db := True\<rparr>
       in if \<not> open_ok then ((False, None), g)
          else
            let st = prune lv io io' date now (7 * 24 * 60 * 60 * 1000) (store_init d col)
            in ((True, Some st), g\<lparr>sg_store := Some st\<rparr>))"

definition closeStorage :: "'d storage \<Rightarrow> 'd storage" where
  "closeStorage g = (if sg_db g then g\<lparr>sg_db := False\<rparr> else g)"

section \<open>What a typed line does\<close>

lemma join_split: "join_with c (split_on c s) = s"
proof (induction s)
  case (Cons x xs)
  obtain p ps where s: "split_on c xs = p # ps" by (cases xs; cases "split_on c xs") (auto split: if_splits list.splits)
  then show ?case using Cons.IH by (cases ps) auto
qed simp

lemma split_word: "c \<notin> set t \<Longrightarrow> split_on c (t @ c # s) = t # split_on c s"
  by (induction t) auto

lemma trim_id:
  assumes "s \<noteq> []" "\<not> js_white (hd s)" "\<not> js_white (last s)"
  shows "trim s = s"
proof -
  have "dropWhile js_white s = s" using assms(1,2) by (cases s) auto
  moreover have "dropWhile js_white (rev s) = rev s" using assms(1,3) by (cases "rev s") (auto simp: hd_rev [symmetric])
  ultimately show ?thesis by (simp add: trim_def)
qed

lemma slash_black: "\<not> js_white (CHR ''/'')" by (simp add: js_white_def)

text \<open>
  A typed \<^verbatim>\<open>/send\<close> publishes exactly the rest of the line, inner blanks included, to the named
  topic, and plain text goes unchanged to the current topic and is remembered under the id of
  the message.
\<close>

theorem typed_lines_publish:
  assumes "tp \<noteq> []" "CHR '' '' \<notin> set tp" "body \<noteq> []" "\<not> js_white (last body)" "\<not> js_white (hd body)"
  shows "cli_line s lv ev (''/send '' @ tp @ CHR '' '' # body) c
      = and_then (with_node (\<lambda>n. snd (publish s lv ev tp body n)) c) (\<lambda>c. (Done, c, [C_Prompt]))
    \<and> (\<forall>i n outs. hd body \<noteq> CHR ''/'' \<and> publish s lv ev (currentTopic c) body (cl_node c) = (i, Done, n, outs) \<longrightarrow>
        cli_line s lv ev body c = (Done, c\<lparr>cl_node := n, pendingMessages := map_set (pendingMessages c) i body\<rparr>, map C_Node outs @ [C_Prompt]))"
proof (intro conjI allI impI)
  let ?line = "''/send '' @ tp @ CHR '' '' # body"
  have t: "trim ?line = ?line" by (rule trim_id) (use assms slash_black in auto)
  have "split_on (CHR '' '') (drop 1 ?line) = ''send'' # tp # split_on (CHR '' '') body"
    using split_word [of "CHR '' ''" "''send''" "tp @ CHR '' '' # body"] split_word [OF assms(2), of body] by simp
  then have "cli_line s lv ev ?line c = and_then (cli_command s lv ev ''send'' (tp # split_on (CHR '' '') body) c) (\<lambda>c. (Done, c, [C_Prompt]))"
    unfolding cli_line_def t Let_def by (simp add: starts_with_def)
  also have "cli_command s lv ev ''send'' (tp # split_on (CHR '' '') body) c = with_node (\<lambda>n. snd (publish s lv ev tp body n)) c"
    using assms(1,3) by (simp add: cli_command_def arg_def join_split)
  finally show "cli_line s lv ev ?line c = and_then (with_node (\<lambda>n. snd (publish s lv ev tp body n)) c) (\<lambda>c. (Done, c, [C_Prompt]))" .
next
  fix i n outs
  assume a: "hd body \<noteq> CHR ''/'' \<and> publish s lv ev (currentTopic c) body (cl_node c) = (i, Done, n, outs)"
  have t: "trim body = body" by (rule trim_id) (use assms in auto)
  have "\<not> starts_with ''/'' body" using a assms(3) by (cases body) (auto simp: starts_with_def)
  then show "cli_line s lv ev body c = (Done, c\<lparr>cl_node := n, pendingMessages := map_set (pendingMessages c) i body\<rparr>, map C_Node outs @ [C_Prompt])"
    using a assms(3) by (simp add: cli_line_def t and_then_def)
qed

text \<open>
  A database that fails to open poisons the singleton: the failed call keeps the handle, so
  that every later call reports success and hands out no store.
\<close>

theorem failed_open_is_remembered:
  assumes "\<not> sg_db g" "sg_store g = None"
  shows "fst (initializeStorage lv ok io2 io2' date2 now2 d2 col2 (snd (initializeStorage lv False io io' date now d col g))) = (True, None)"
  using assms by (simp add: initializeStorage_def)

end
