(* ===== verification/Scripts.thy ===== *)
theory Scripts
  imports Client
begin

text \<open>
  What the scripts compute and claim: the phases of the showcase
  \<^verbatim>\<open>scripts/interview_pro.js\<close> on the models of the components they exercise, the
  probes and the statistics of \<^verbatim>\<open>scripts/latency_bench.js\<close>, and the report of
  \<^verbatim>\<open>scripts/benchmark.js\<close>. Console output is the list of results it shows, without
  colours, banners and pauses; the clock readings a script takes are arguments.
\<close>

unbundle bit_operations_syntax

section \<open>The showcase: proof of work\<close>

text \<open>The script repeats the hash of \<^verbatim>\<open>utils/pow.js\<close> on unbounded integers, masked to 32 bits.\<close>

fun big_hash_loop :: "int \<Rightarrow> string \<Rightarrow> int" where
  "big_hash_loop h [] = h"
| "big_hash_loop h (c # cs) = big_hash_loop (((h XOR int (of_char c)) * 16777619) AND 0xffffffff) cs"

definition big_hash :: "string \<Rightarrow> int" where
  "big_hash s = big_hash_loop 2166136261 s"

definition pow_target :: "nat \<Rightarrow> int" where
  "pow_target difficulty = push_bit (256 - difficulty) 1"

text \<open>The search has no bound; not returning is \<^const>\<open>None\<close>.\<close>

partial_function (option) showcase_solve :: "string \<Rightarrow> nat \<Rightarrow> nat \<Rightarrow> nat option" where
  "showcase_solve s difficulty nonce =
    (if big_hash (s @ show_nat nonce) < pow_target difficulty then Some nonce
     else showcase_solve s difficulty (Suc nonce))"

text \<open>The nonce found, the verification of it, and that of the nonce 999999 called forged.\<close>

definition showcase_pow :: "string \<Rightarrow> nat \<Rightarrow> (nat \<times> bool \<times> bool) option" where
  "showcase_pow puzzleInput difficulty =
    map_option (\<lambda>nonce.
      (nonce, big_hash (puzzleInput @ show_nat nonce) < pow_target difficulty,
       big_hash (puzzleInput @ show_nat 999999) < pow_target difficulty))
      (showcase_solve puzzleInput difficulty 0)"

lemma word_hash_step:
  "uint ((h XOR of_nat (of_char c)) * 0x01000193 :: 32 word) = ((uint h XOR int (of_char c)) * 16777619) AND 0xffffffff"
proof -
  have "(of_char c :: nat) < 256" by simp
  then have "(of_char c :: nat) < 2 ^ 32" by (rule less_trans) simp
  then have "uint (of_nat (of_char c) :: 32 word) = int (of_char c)"
    by (simp add: unsigned_of_nat take_bit_nat_eq_self)
  then have "uint (h XOR of_nat (of_char c)) = uint h XOR int (of_char c)" by (simp add: uint_xor)
  then show ?thesis
    using take_bit_eq_mask [of 32 "(uint h XOR int (of_char c)) * 16777619"]
    by (simp add: uint_word_ariths take_bit_eq_mod mask_numeral)
qed

lemma big_hash_loop_word: "big_hash_loop (uint h) s = uint (hash_loop h s)"
proof (induction s arbitrary: h)
  case (Cons c cs)
  show ?case unfolding big_hash_loop.simps hash_loop.simps word_hash_step [symmetric] by (rule Cons.IH)
qed simp

lemma big_hash_simple: "big_hash s = int (jsSimpleHash s)"
  using big_hash_loop_word [where h = "0x811c9dc5" and s = s] by (simp add: big_hash_def jsSimpleHash_def)

lemma below_target:
  assumes "difficulty \<le> 224"
  shows "big_hash s < pow_target difficulty"
proof -
  have "big_hash s < 2 ^ 32"
    using uint_lt2p [where x = "hash_loop 0x811c9dc5 s"] by (simp add: big_hash_simple jsSimpleHash_def)
  also have "(2 :: int) ^ 32 \<le> 2 ^ (256 - difficulty)" using assms by (intro power_increasing) auto
  finally show ?thesis by (simp add: pow_target_def push_bit_eq_mult)
qed

text \<open>
  The showcase's puzzle is no puzzle: its target has up to 256 bits and its hash 32, so for
  every input and every difficulty up to 224 the search stops at nonce 0, and the nonce the
  script presents as forged verifies as well.
\<close>

theorem showcase_accepts_every_nonce:
  assumes "difficulty \<le> 224"
  shows "showcase_pow puzzleInput difficulty = Some (0, True, True)"
  using below_target [OF assms] by (simp add: showcase_pow_def showcase_solve.simps)

theorem showcase_accepts_every_nonce_witness:
  "showcase_pow ''msg-uuid-test-pow-12345'' 12 = Some (0, True, True)"
  by (rule showcase_accepts_every_nonce) simp

section \<open>The showcase: rate limiter\<close>

text \<open>Each call reads the clock up to twice; the lines count the violations so far.\<close>

datatype limit_line = Ingesting nat | Dropped nat nat

fun limit_calls :: "nat \<Rightarrow> nat \<Rightarrow> (time \<times> time) list \<Rightarrow> peer_id \<Rightarrow> rate_limiter \<Rightarrow> nat \<times> rate_limiter \<times> limit_line list" where
  "limit_calls i violationCount [] p rl = (violationCount, rl, [])"
| "limit_calls i violationCount ((t, t') # ts) p rl =
    (case checkLimit t t' p rl of
       (True, rl, evs) \<Rightarrow>
         (case limit_calls (Suc i) violationCount ts p rl of (v, rl, ls) \<Rightarrow> (v, rl, Ingesting i # ls))
     | (False, rl, evs) \<Rightarrow>
         (case limit_calls (Suc i) (Suc violationCount) ts p rl of
            (v, rl, ls) \<Rightarrow> (v, rl, Dropped i (Suc violationCount) # ls)))"

definition showcase_limiter :: "(time \<times> time) list \<Rightarrow> bool \<times> rate_limiter \<times> limit_line list" where
  "showcase_limiter readings =
    (case limit_calls 1 0 readings ''DegradedPeer-B'' (rl_init (Some 5) (Some 1)) of
       (violationCount, rl, ls) \<Rightarrow> (violationCount \<ge> 10, rl, ls))"

text \<open>Readings of the clock that do not go back, from \<open>ta\<close> on and before \<open>t1\<close>.\<close>

fun in_time :: "time \<Rightarrow> time \<Rightarrow> (time \<times> time) list \<Rightarrow> bool" where
  "in_time ta t1 [] = True"
| "in_time ta t1 ((t, t') # ts) \<longleftrightarrow> ta \<le> t \<and> t \<le> t' \<and> t' < t1 \<and> in_time t' t1 ts"

definition spammed :: "time \<Rightarrow> time \<Rightarrow> peer_id \<Rightarrow> nat \<Rightarrow> rate_limiter \<Rightarrow> bool" where
  "spammed t0 ta p k rl \<longleftrightarrow> capacity rl = 5 \<and> refillRatePerSec rl = 1 \<and> map_get (bannedPeers rl) p = None
    \<and> (case map_get (buckets rl) p of
         None \<Rightarrow> k = 0
       | Some b \<Rightarrow> 0 < k \<and> lastRefill b = ta \<and> of_nat (5 - k) \<le> tokens b
           \<and> tokens b \<le> of_nat (5 - k) + of_int (ta - t0) / 1000)
    \<and> (let h = (case map_get (violations rl) p of None \<Rightarrow> [] | Some h \<Rightarrow> h)
       in length h = k - 5 \<and> (\<forall>x \<in> set h. t0 \<le> x))"

lemma spammed_refill:
  assumes "spammed t0 ta p k rl" "t0 \<le> ta" "ta \<le> t'" "t' < t0 + 1000"
  obtains b where "map_get (buckets (refill t' p (expire_ban p rl))) p = Some b" "lastRefill b = t'"
    "of_nat (5 - k) \<le> tokens b" "tokens b \<le> of_nat (5 - k) + of_int (t' - t0) / 1000"
proof (cases "map_get (buckets rl) p")
  case None
  then show ?thesis using assms by (intro that) (auto simp: spammed_def refill_get)
next
  case (Some b)
  then have k: "0 < k" "lastRefill b = ta" "of_nat (5 - k) \<le> tokens b"
    "tokens b \<le> of_nat (5 - k) + of_int (ta - t0) / 1000" and rl: "capacity rl = 5" "refillRatePerSec rl = 1"
    using assms(1) by (simp_all add: spammed_def)
  have sum: "rat_of_int (ta - t0) / 1000 + of_int (t' - ta) / 1000 = of_int (t' - t0) / 1000"
    by (simp add: add_divide_distrib [symmetric])
  have pos: "0 \<le> rat_of_int (t' - ta) / 1000" using assms(3) by simp
  have "rat_of_int (t' - t0) / 1000 < 1" using assms(4) by (simp add: divide_less_eq)
  moreover have "rat_of_nat (5 - k) \<le> of_nat 4" using k(1) by (intro of_nat_mono) simp
  then have "rat_of_nat (5 - k) \<le> 4" by simp
  ultimately have cap: "tokens b + of_int (t' - ta) / 1000 \<le> 5" using k(4) sum by linarith
  have up: "tokens b + of_int (t' - ta) / 1000 \<le> of_nat (5 - k) + of_int (t' - t0) / 1000" using k(4) sum by linarith
  let ?b = "if ta < t' then \<lparr>tokens = tokens b + of_int (t' - ta) / 1000, lastRefill = t'\<rparr> else b"
  have "map_get (buckets (refill t' p (expire_ban p rl))) p = Some ?b"
    using Some k(2) rl cap by (simp add: refill_get min_absorb2)
  then show ?thesis
  proof (rule that)
    show "lastRefill ?b = t'" using k(2) assms(3) by simp
    show "of_nat (5 - k) \<le> tokens ?b" using k(3) pos by (auto intro: order_trans)
    show "tokens ?b \<le> of_nat (5 - k) + of_int (t' - t0) / 1000" using up k(4) assms(3) by (cases "ta = t'") simp_all
  qed
qed

lemma dropWhile_none: "\<forall>x \<in> set xs. \<not> P x \<Longrightarrow> dropWhile P xs = xs"
  by (cases xs) auto

lemma spammed_step:
  assumes "spammed t0 ta p k rl" "t0 \<le> ta" "ta \<le> t" "t \<le> t'" "t' < t0 + 1000" "k < 15"
  shows "fst (checkLimit t t' p rl) = (k < 5) \<and> spammed t0 t' p (Suc k) (fst (snd (checkLimit t t' p rl)))"
proof -
  let ?rl = "refill t' p (expire_ban p rl)"
  obtain b where b: "map_get (buckets ?rl) p = Some b" "lastRefill b = t'" "of_nat (5 - k) \<le> tokens b"
    "tokens b \<le> of_nat (5 - k) + of_int (t' - t0) / 1000"
    by (rule spammed_refill [OF assms(1,2) _ assms(5)]) (use assms(3,4) in linarith)
  have nb: "\<not> is_banned t p rl" using assms(1) by (simp add: spammed_def is_banned_def)
  have eq: "checkLimit t t' p rl = (if 1 \<le> tokens b then
       (True, ?rl\<lparr>buckets := map_set (buckets ?rl) p (b\<lparr>tokens := tokens b - 1\<rparr>)\<rparr>, [])
     else (False, fst (recordViolation p t ?rl), Rate_Limited p # snd (recordViolation p t ?rl)))"
    by (rule checkLimit_unbanned [OF nb, of t']) (use b(1) in simp)
  have frac: "rat_of_int (t' - t0) / 1000 < 1" using assms(5) by (simp add: divide_less_eq)
  show ?thesis
  proof (cases "k < 5")
    case True
    then have "1 \<le> tokens b" using b(3) one_le_of_nat_diff [of 5 k] by linarith
    moreover have "rat_of_nat (5 - Suc k) = of_nat (5 - k) - 1" using True by (simp add: of_nat_diff)
    ultimately show ?thesis
      using True assms(1) b by (simp add: eq spammed_def map_get_set Let_def)
  next
    case False
    then have "\<not> 1 \<le> tokens b" using b(4) frac by simp
    moreover have "map_get (violations ?rl) p = map_get (violations rl) p" "map_get (bannedPeers ?rl) p = None"
      "capacity ?rl = capacity rl" "refillRatePerSec ?rl = refillRatePerSec rl"
      using assms(1) by (simp_all add: spammed_def)
    moreover define h where "h = (case map_get (violations rl) p of None \<Rightarrow> [] | Some h \<Rightarrow> h)"
    moreover have h: "length h = k - 5" "\<forall>x \<in> set h. t0 \<le> x"
      using assms(1) by (simp_all add: spammed_def h_def Let_def)
    moreover have "dropWhile (\<lambda>x. x < t - VIOLATION_WINDOW_MS) (h @ [t]) = h @ [t]"
      by (rule dropWhile_none) (use h(2) assms(2-5) in fastforce)
    ultimately show ?thesis
      using False assms b by (simp add: eq spammed_def recordViolation_view Let_def Suc_diff_le)
  qed
qed

lemma limit_calls_spammed:
  "spammed t0 ta p k rl \<Longrightarrow> t0 \<le> ta \<Longrightarrow> in_time ta (t0 + 1000) ts \<Longrightarrow> k + length ts \<le> 15 \<Longrightarrow>
    limit_calls i v ts p rl = (v', rl', ls) \<Longrightarrow>
    v' + (k - 5) = v + (k + length ts - 5) \<and> map_get (bannedPeers rl') p = None"
proof (induction ts arbitrary: i v k ta rl v' rl' ls)
  case Nil
  then show ?case by (simp add: spammed_def)
next
  case (Cons r ts)
  obtain t t' where r: "r = (t, t')" by (cases r)
  have in_t: "ta \<le> t" "t \<le> t'" "t' < t0 + 1000" "in_time t' (t0 + 1000) ts" using Cons.prems(3) by (simp_all add: r)
  obtain ok rl1 evs where c: "checkLimit t t' p rl = (ok, rl1, evs)" by (cases "checkLimit t t' p rl")
  have "ok = (k < 5) \<and> spammed t0 t' p (Suc k) rl1"
    using spammed_step [OF Cons.prems(1,2) in_t(1-3)] Cons.prems(4) by (simp add: c)
  then have ok: "ok = (k < 5)" and sp: "spammed t0 t' p (Suc k) rl1" by simp_all
  have le: "t0 \<le> t'" "Suc k + length ts \<le> 15" using Cons.prems(2,4) in_t by simp_all
  obtain v1 rl2 ls1 where rest: "limit_calls (Suc i) (if ok then v else Suc v) ts p rl1 = (v1, rl2, ls1)"
    by (cases "limit_calls (Suc i) (if ok then v else Suc v) ts p rl1")
  from Cons.IH [OF sp le(1) in_t(4) le(2) rest] Cons.prems(5) rest
  show ?case by (cases ok) (auto simp: r c ok split: if_splits)
qed

text \<open>
  The showcase announces a ban that has not happened: fifteen calls within a second let five
  messages through and drop ten, and it is the eleventh violation that bans.
\<close>

theorem showcase_ban_not_applied:
  assumes "in_time t0 (t0 + 1000) readings" "length readings = 15"
    and "showcase_limiter readings = (announced, rl, ls)"
  shows "announced \<and> map_get (bannedPeers rl) ''DegradedPeer-B'' = None"
proof -
  obtain v where run: "limit_calls 1 0 readings ''DegradedPeer-B'' (rl_init (Some 5) (Some 1)) = (v, rl, ls)" "announced = (10 \<le> v)"
    using assms(3) by (auto simp: showcase_limiter_def split: prod.splits)
  have "spammed t0 t0 ''DegradedPeer-B'' 0 (rl_init (Some 5) (Some 1))" by (simp add: spammed_def rl_init_def or_default_def)
  from limit_calls_spammed [OF this _ assms(1) _ run(1)] show ?thesis by (simp add: assms(2) run(2))
qed

theorem showcase_ban_not_applied_witness:
  "\<exists>rl ls. showcase_limiter (replicate 15 (0, 0)) = (True, rl, ls) \<and> map_get (bannedPeers rl) ''DegradedPeer-B'' = None"
proof -
  obtain announced rl ls where run: "showcase_limiter (replicate 15 (0, 0)) = (announced, rl, ls)"
    by (cases "showcase_limiter (replicate 15 (0, 0))")
  have "in_time 0 (0 + 1000) (replicate 15 (0, 0))" by (simp add: numeral_eq_Suc)
  from showcase_ban_not_applied [OF this _ run] run show ?thesis by simp
qed

section \<open>The showcase: identity and encryption\<close>

text \<open>
  The signature check of the signed envelope, of the tampered one, and the decrypted direct
  message. The envelope is a message whose fields the script leaves out are never read.
\<close>

definition showcase_security ::
  "sodium \<Rightarrow> key_manager \<Rightarrow> key_manager \<Rightarrow> bytes \<Rightarrow> message \<Rightarrow> collector \<Rightarrow> bool \<times> bool \<times> (crypt_error + string option)" where
  "showcase_security s km km' nonce original col =
    (let sec = security_init km (Some ''Node-A'');
         signedEnvelope = signOutgoingMessage s sec (original\<lparr>senderPublicKey := Some (getPublicKey km)\<rparr>);
         (isSignatureOk, sec, col) = verifyIncomingMessage s signedEnvelope sec col;
         (isTamperedOk, sec, col) = verifyIncomingMessage s (signedEnvelope\<lparr>payload := ''Score is 9-9!''\<rparr>) sec col;
         sharedSecret = deriveSharedSecret s km (getBoxPublicKey km')
     in (isSignatureOk, isTamperedOk,
         (case encrypt s nonce ''Meet at coffee shop at 5PM'' sharedSecret of
            Inl err \<Rightarrow> Inl err
          | Inr (ciphertext, n) \<Rightarrow> decrypt s ciphertext n sharedSecret)))"

section \<open>The showcase: clocks, routes and synchronisation\<close>

text \<open>The clock values shown: A at the start, A after sending, B after receiving, B after replying, A after receiving.\<close>

definition showcase_clocks :: "int list" where
  "showcase_clocks =
    (let a = clock_init; b = clock_init; a1 = tick a; ts1 = clk_value a1; b1 = clock_update b ts1;
         b2 = tick b1; ts2 = clk_value b2; a2 = clock_update a1 ts2
     in [clk_value a, ts1, clk_value b1, ts2, clk_value a2])"

text \<open>The next hops before the expiry, the peers forwarded to, and whether the collector leaves no route.\<close>

definition showcase_routes :: "time \<Rightarrow> time \<Rightarrow> time \<Rightarrow> time \<Rightarrow> time \<Rightarrow> peer_id list \<times> peer_id list \<times> bool" where
  "showcase_routes now1 now2 now3 now4 now5 =
    (let r = snd (updateRoute ''sports'' ''Node-C'' ''Node-C'' 1 101 [''Node-C''] (At (now1 + 30000)) []);
         nextHops = getPeersForTopic ''sports'' now2 r;
         selectedPeers = filter (\<lambda>p. p \<in> set nextHops) [''Node-A'', ''Node-C'', ''Node-D''];
         r = (case Option.bind (map_get r ''sports'') (\<lambda>m. map_get m ''Node-C'') of
                Some rt \<Rightarrow> map_set r ''sports'' (map_set (the (map_get r ''sports'')) ''Node-C'' (rt\<lparr>expiresAt := At (now3 - 5000)\<rparr>))
              | None \<Rightarrow> r);
         r = router_gc now4 r
     in (nextHops, selectedPeers, getPeersForTopic ''sports'' now5 r = []))"

text \<open>What the showcase sends a reconnected peer: the delta of each of its topics, in Lamport order.\<close>

fun missed_messages :: "'d level \<Rightarrow> io_result \<Rightarrow> topic_name list \<Rightarrow> int \<Rightarrow> 'd store \<Rightarrow> message list \<times> 'd store" where
  "missed_messages lv io [] since st = ([], st)"
| "missed_messages lv io (tp # tps) since st =
    (case getByTopic lv io tp since st of
       (msgs, st) \<Rightarrow> case missed_messages lv io tps since st of (rest, st) \<Rightarrow> (msgs @ rest, st))"

definition showcase_sync :: "'d level \<Rightarrow> io_result \<Rightarrow> message list \<Rightarrow> topic_name list \<Rightarrow> 'd store \<Rightarrow> message list" where
  "showcase_sync lv io msgs topics st =
    (let st = store_flush lv io (foldl (\<lambda>st m. save lv io m st) st msgs)
     in sort_key lamportTimestamp (fst (missed_messages lv io topics 5 st)))"

text \<open>The closing report is a constant: no phase's result reaches it.\<close>

definition final_report :: "(string \<times> string \<times> string) list" where
  "final_report =
    map (\<lambda>(f, m). (f, m, ''PASS''))
     [(''Sybil Spam Defense'', ''FNV-1a Puzzle Solve & Verify''), (''Token-Bucket Limiting'', ''Bounded Capacity & Ingest Rate''),
      (''Auto Peer Blacklist'', ''Temporary Ban on Spam Count''), (''Cryptographic Identity'', ''Ed25519 Envelope Verification''),
      (''Tamper Protection'', ''Signature Mismatch Drop Checks''), (''Private Direct Message'', ''XSalsa20-Poly1305 AEAD Crypt''),
      (''Causal Ordering'', ''Lamport logical clock updates''), (''Storage Persistence'', ''LevelDB Padded Range Scan Key''),
      (''Soft-State DV Routing'', ''Next-Hop Tables & Path Vector''), (''DV Route Expiry'', ''Background GC Timeout Cleanup''),
      (''Multi-Topic Delta Sync'', ''Multi-subscription Reconnect Sync''), (''Sync Flow Control'', ''Sliding Window ACK Backpressure''),
      (''Layered Peer Discovery'', ''LAN mDNS + Bootstrap + PEX Mesh'')]"

lemma showcase_clocks_values: "showcase_clocks = [0, 1, 2, 3, 4]"
  by (simp add: showcase_clocks_def clock_init_def tick_def clock_update_def Let_def)

lemma showcase_routes_outcome:
  assumes "now2 \<le> now1 + 30000" "now3 - 5000 < now4"
  shows "showcase_routes now1 now2 now3 now4 now5 = ([''Node-C''], [''Node-C''], True)"
  using assms
  by (simp add: showcase_routes_def updateRoute_def getPeersForTopic_def router_gc_def Let_def
      map_get_set set_add_def less_eq_expiry_def less_expiry_def)

lemma showcase_sync_causal: "sorted (map lamportTimestamp (showcase_sync lv io msgs topics st))"
  by (simp add: showcase_sync_def Let_def)

section \<open>The latency benchmark\<close>

definition bench_nodes :: "node_config list" where
  "bench_nodes = map (\<lambda>i. \<lparr>cf_peerId = Some (''Node-'' @ [char_of (65 + i)]), cf_port = Some (11000 + i), cf_autoSummary = False,
     cf_metricsPort = None, cf_enableDiscovery = True, cf_enableMetrics = True, cf_bootstrap = [],
     cf_rateLimitCapacity = Some 1000, cf_rateLimitRefillRate = Some 100\<rparr>) [0..<5]"

text \<open>Who connects to which port under which id.\<close>

definition bench_links :: "(peer_id \<times> nat \<times> peer_id) list" where
  "bench_links = map (\<lambda>i. let a = bench_nodes ! i; b = bench_nodes ! Suc i
     in (the (cf_peerId a), the (cf_port b), the (cf_peerId b))) [0..<5 - 1]"

definition probe :: "nat \<Rightarrow> nat \<Rightarrow> string" where
  "probe i sentAt = ''PROBE-'' @ show_nat i @ '':'' @ show_nat sentAt"

text \<open>
  The listener of the last node; times and latencies are nanoseconds. \<^verbatim>\<open>BigInt\<close> of a text
  that is no decimal numeral is outside the model: the result is then \<^const>\<open>None\<close>.
\<close>

record bench =
  latencies :: "int list"
  receivedCount :: nat

definition on_probe :: "nat \<Rightarrow> string \<Rightarrow> bench \<Rightarrow> bench option" where
  "on_probe receivedAt text b =
    (if starts_with ''PROBE-'' text then
       (case split_on (CHR '':'') text of
          _ # num # _ \<Rightarrow>
            if num \<noteq> [] \<and> list_all is_digit num
            then Some (b\<lparr>latencies := latencies b @ [int receivedAt - int (read_nat 0 num)], receivedCount := Suc (receivedCount b)\<rparr>)
            else None
        | _ \<Rightarrow> None)
     else Some b)"

datatype bench_class = Excellent | Nominal | Degraded

record latency_report =
  lr_min :: int
  lr_avg :: rat
  lr_p50 :: int
  lr_p95 :: int
  lr_p99 :: int
  lr_max :: int
  lr_hops :: nat
  lr_reliability :: rat
  lr_class :: bench_class

text \<open>
  \<^verbatim>\<open>latencies[Math.floor(latencies.length * p)]\<close>; with at most 100 probes the doubles
  give the floor of the exact product.
\<close>

definition at_fraction :: "int list \<Rightarrow> nat \<Rightarrow> int" where
  "at_fraction xs p = xs ! (length xs * p div 100)"

text \<open>
  The class is decided on the text of \<^verbatim>\<open>toFixed(2)\<close>: values from 19.995 ms and from
  99.995 ms on (the doubles nearest to these lie just above them) are printed as 20.00 and
  as 100.00.
\<close>

definition performance :: "int \<Rightarrow> bench_class" where
  "performance v = (if v < 19995000 then Excellent else if v < 99995000 then Nominal else Degraded)"

definition latency_results :: "bench \<Rightarrow> latency_report option" where
  "latency_results b =
    (if latencies b = [] then None
     else let xs = sort (latencies b)
       in Some \<lparr>lr_min = Min (set xs), lr_avg = of_int (sum_list xs) / of_nat (length xs),
            lr_p50 = at_fraction xs 50, lr_p95 = at_fraction xs 95, lr_p99 = at_fraction xs 99, lr_max = Max (set xs),
            lr_hops = 5 - 1, lr_reliability = of_nat (receivedCount b) / 100 * 100,
            lr_class = performance (at_fraction xs 99)\<rparr>)"

lemma probe_measured:
  "on_probe receivedAt (probe i sentAt) b
    = Some (b\<lparr>latencies := latencies b @ [int receivedAt - int sentAt], receivedCount := Suc (receivedCount b)\<rparr>)"
proof -
  have nocolon: "CHR '':'' \<notin> set (''PROBE-'' @ show_nat i)" "CHR '':'' \<notin> set (show_nat sentAt)"
    using show_nat_digits [of i] show_nat_digits [of sentAt] by (auto simp: list_all_iff is_digit_def)
  have last: "split_on c s = [s]" if "c \<notin> set s" for c s using that by (induction s) auto
  have "split_on (CHR '':'') (probe i sentAt) = [''PROBE-'' @ show_nat i, show_nat sentAt]"
    using split_word [OF nocolon(1), of "show_nat sentAt"] last [OF nocolon(2)] by (simp add: probe_def)
  then show ?thesis
    by (simp add: on_probe_def probe_def starts_with_def show_nat_digits)
qed

lemma at_fraction_in: "xs \<noteq> [] \<Longrightarrow> p < 100 \<Longrightarrow> length xs * p div 100 < length xs"
  by (simp add: div_less_iff_less_mult)

lemma at_fraction_mono:
  assumes "sorted xs" "xs \<noteq> []" "p \<le> q" "q < 100"
  shows "at_fraction xs p \<le> at_fraction xs q"
  unfolding at_fraction_def
  using assms at_fraction_in [of xs q] by (intro sorted_nth_mono) (auto intro: div_le_mono)

text \<open>
  The percentiles are always defined and ordered between the minimum and the maximum, and the
  benchmark calls itself excellent or nominal only when some probe was that fast.
\<close>

theorem latency_results_ordered:
  assumes "latency_results b = Some r"
  shows "lr_min r \<le> lr_p50 r \<and> lr_p50 r \<le> lr_p95 r \<and> lr_p95 r \<le> lr_p99 r \<and> lr_p99 r \<le> lr_max r"
proof -
  let ?xs = "sort (latencies b)"
  have "latencies b \<noteq> []" using assms by (auto simp: latency_results_def)
  then have ne: "?xs \<noteq> []" by (metis set_sort set_empty)
  have r: "lr_min r = Min (set ?xs)" "lr_max r = Max (set ?xs)"
    "lr_p50 r = at_fraction ?xs 50" "lr_p95 r = at_fraction ?xs 95" "lr_p99 r = at_fraction ?xs 99"
    using assms by (auto simp: latency_results_def Let_def split: if_splits simp del: set_sort)
  have mem: "at_fraction ?xs p \<in> set ?xs" if "p < 100" for p
    unfolding at_fraction_def by (rule nth_mem) (rule at_fraction_in [OF ne that])
  show ?thesis
    using at_fraction_mono [OF sorted_sort ne, of 50 95] at_fraction_mono [OF sorted_sort ne, of 95 99]
      mem [of 50] mem [of 99]
    by (simp add: r)
qed

section \<open>The throughput benchmark\<close>

text \<open>
  The values the report reads from the snapshot: the p99 of the propagation histogram (absent
  or 0 is shown as \<^verbatim>\<open>N/A\<close>), dropped messages and verifications.
\<close>

record bench_report =
  br_messages :: nat
  br_throughput :: "rat option"
  br_p99 :: "int option"
  br_dropped :: int
  br_verified :: int

definition progress_lines :: "nat \<Rightarrow> nat list" where
  "progress_lines messageCount = filter (\<lambda>i. i mod 1000 = 0 \<and> i > 0) [0..<messageCount]"

definition snap_counter :: "snapshot \<Rightarrow> string \<Rightarrow> int \<Rightarrow> int" where
  "snap_counter snap name d =
    (case map_get (snap_counters snap) name of None \<Rightarrow> d | Some v \<Rightarrow> if v = 0 then d else v)"

definition benchmark_report :: "nat \<Rightarrow> int \<Rightarrow> snapshot \<Rightarrow> bench_report" where
  "benchmark_report messageCount durationMs snap =
    \<lparr>br_messages = messageCount,
     br_throughput = (if durationMs = 0 then None else Some (of_nat messageCount / (of_int durationMs / 1000))),
     br_p99 = (case map_get (snap_histograms snap) ''message_propagation_latency'' of
                 None \<Rightarrow> None | Some (ps, n) \<Rightarrow> if p99 ps = 0 then None else Some (p99 ps)),
     br_dropped = snap_counter snap ''messages_dropped_total'' 0,
     br_verified = snap_counter snap ''messages_received_total'' (int messageCount)\<rparr>"

end
