(* ===== verification/Spec2Isabelle.thy ===== *)
theory Spec2Isabelle
  imports Collector PendingQueue Network NativeTransport NodeInvariant EndToEnd Visualizer Scripts
begin

text \<open>
  A verification development of a peer-to-peer chat node written in JavaScript: nodes connect
  over WebSockets, flood signed messages, keep per-topic routing tables, store what they see
  and bring each other up to date after a reconnection. Every theory models one part of the
  sources; this one collects them.

  \<^bold>\<open>The program.\<close> A frame from the network passes the server's handshake
  (\<^verbatim>\<open>transport/wsServer.js\<close>) or arrives on an outbound client
  (\<^verbatim>\<open>transport/wsClient.js\<close>); the connection pool (\<^verbatim>\<open>transport/connectionPool.js\<close>)
  relays it to the node (\<^verbatim>\<open>node/index.js\<close>), which dispatches it by type to the gossip
  engine, the acknowledgement manager, the synchronisation manager, the peer manager or peer
  exchange. The gossip engine (\<^verbatim>\<open>protocol/gossipEngine.js\<close>) checks proof of work, rate
  limit and signature, merges the clock, drops duplicates, updates the topic router or
  forwards, and hands new messages back to the node, which stores and shows them.

  \<^bold>\<open>Theories, from the bottom.\<close>
  \<^item> \<open>Prelude\<close>: insertion-ordered maps and sets of JavaScript, number printing, shared interfaces.
    \<open>Bytes\<close>: byte strings and hexadecimal. \<open>Json\<close>: printing and parsing. \<open>Config\<close>:
    \<^verbatim>\<open>config/default.js\<close>.
  \<^item> \<open>Collector\<close>, \<open>Reporter\<close>: \<^verbatim>\<open>metrics/\<close>. \<open>Pow\<close>: \<^verbatim>\<open>utils/pow.js\<close> and the native
    verifier. \<open>LamportClock\<close>, \<open>PendingQueue\<close>, \<open>Message\<close>, \<open>RateLimiter\<close>,
    \<open>TopicRouter\<close>, \<open>AckManager\<close>, \<open>GossipEngine\<close>: the files of \<^verbatim>\<open>protocol/\<close>.
  \<^item> \<open>KeyManager\<close>, \<open>Security\<close>: \<^verbatim>\<open>security/\<close>. \<open>MessageStore\<close>, \<open>SyncManager\<close>:
    \<^verbatim>\<open>storage/\<close>. \<open>WSClient\<close>, \<open>ConnectionPool\<close>, \<open>WSServer\<close>,
    \<open>NativeTransport\<close>: \<^verbatim>\<open>transport/\<close>.
  \<^item> \<open>Peers\<close>: \<^verbatim>\<open>node/state.js\<close>, \<^verbatim>\<open>node/peerManager.js\<close>, \<^verbatim>\<open>node/heartbeatManager.js\<close>.
    \<open>Discovery\<close>: \<^verbatim>\<open>node/discovery/\<close>. \<open>AiClient\<close>: \<^verbatim>\<open>ai/aiClient.js\<close>.
    \<open>Node\<close>: \<^verbatim>\<open>node/index.js\<close>. \<open>Network\<close>: several engines and the messages in flight
    between them.
  \<^item> \<open>NodeInvariant\<close>: a node as a state machine over everything that can happen to it.
    \<open>EndToEnd\<close>: from publishing on one node to the frames, the screen and the store of another.
    \<open>Client\<close>: the programs over a node, \<^verbatim>\<open>client/cliClient.js\<close>,
    \<^verbatim>\<open>node/server.js\<close>, the worker \<^verbatim>\<open>scripts/nodeWrapper.js\<close> and
    \<^verbatim>\<open>storage/index.js\<close>. \<open>Scripts\<close>: what the showcase
    \<^verbatim>\<open>scripts/interview_pro.js\<close> and the two benchmarks compute and claim.
  \<^item> \<open>Simulation\<close>: \<^verbatim>\<open>visualizer/src/simulation/gossipEngine.js\<close> and the metrics of
    \<^verbatim>\<open>visualizer/src/hooks/useGossipState.js\<close>, independent of the node. \<open>Visualizer\<close>:
    the hook's animation and the components of \<^verbatim>\<open>visualizer/src/components/\<close> as functions
    of the state.

  \<^bold>\<open>Conventions.\<close> An object is a record with the fields of the class; a \<^verbatim>\<open>Map\<close> is an
  association list in insertion order (\<open>jmap\<close>), a \<^verbatim>\<open>Set\<close> a list without repetitions. An
  operation takes its environment first (clock readings, fresh identifiers, random numbers,
  results of I/O) and returns the new state with what it emitted or sent, in order; an
  exception is \<open>Inl\<close> of a \<open>js_error\<close>, or \<open>Threw\<close> in the handlers whose partial
  effects remain visible. Objects that arrive from the network are read into records by
  \<open>message_of_json\<close>; where the program would go on with fields of another type the model
  stops with \<open>Untyped\<close>, and \<open>typed_traffic_never_fails\<close> shows that the program's own
  traffic never gets there. Integers of the language are unbounded here except the 32-bit
  arithmetic of the puzzle hash, which is on words.

  \<^bold>\<open>Parameters.\<close> \<open>sodium\<close> (libsodium, with its documented laws in \<open>sodium_laws\<close>),
  \<open>level\<close> (LevelDB, with \<open>level_laws\<close>), \<^verbatim>\<open>fetch\<close> and \<^verbatim>\<open>new URL\<close>. Each law is
  shown to hold for a concrete function, and the witnesses use it.

  \<^bold>\<open>What the lemmas show.\<close>
  \<^item> Gossip: each message is processed and forwarded at most once, to the right peers, with a
    decreasing time to live; refused messages leave no trace; flooding dies out in every
    topology and order; advertisements do not loop.
  \<^item> The whole node: in every reachable state the invariants of the components hold together,
    and only malformed deliveries make a handler throw. A published message arrives at the next
    node as it was written, is shown and is stored there; a direct message travels in clear.
  \<^item> Routing: the table refines a partial map from topic and origin to routes; garbage
    collection is unobservable; peers that are gone lose their routes; subscribing and
    unsubscribing are reflected in the table.
  \<^item> Security: an accepted message was signed by the key pinned for its sender; a HELLO can
    replace that key. Rate limiting: the number of admitted messages is bounded by capacity and
    refill, and a burst is decided message by message.
  \<^item> Delivery: an acknowledgement is decided exactly once and within the retry bound; queued
    messages leave in order; the pool never throws.
  \<^item> Storage and synchronisation: saved messages are found again; scans and pruning are
    exact, with the leak between topics that the key format causes; a synchronisation ends, and
    does not repeat what it sent; a full batch exceeds the receiver's rate limit.
  \<^item> Lifecycle: registry, failure detector and pool refine a partial map with suspicion;
    nothing passes the server before a greeting; the native server lets through the same
    traffic; summaries do not overlap; what a node advertises is found by the others under its
    id up to the first equals sign.
  \<^item> Simulation: the flood searches the component of its source, healing leaves no live node
    alone, and the metrics add up. Panel: whatever the user clicks and whenever timers fire, one
    message at most is animated, the controls are locked meanwhile, and the books balance; the
    animation shows exactly the transmissions of the flood.
  \<^item> Scripts: the showcase's puzzle accepts every nonce and its announced ban does not happen;
    the latency percentiles are defined and ordered.

  \<^bold>\<open>Bounds and fuel.\<close> The random selection runs with the number of available peers as fuel,
  and each round removes one. The simulated flood gets two rounds per edge and three more, and
  every round but two reaches a new endpoint of an edge. The puzzle solver stops at the bound of the code, 1000000 nonces.
  The JSON scanner and parser end by the length of their input. Runs of sessions, acknowledgements and the network
  are sequences of explicit events, with termination stated over them.

  \<^bold>\<open>Not modelled.\<close> Logging (\<^verbatim>\<open>utils/logger.js\<close>) and the parts of \<^verbatim>\<open>scripts/\<close> that
  start nodes, wait and print, which is all of \<^verbatim>\<open>demo.js\<close> and \<^verbatim>\<open>verify_native.js\<close>;
  \<^verbatim>\<open>node/messageHandler.js\<close> is dead code; of the visualizer's components the markup, the
  styles and the SVG filters; the configuration of \<^verbatim>\<open>scripts/nodeWrapper.js\<close>, which passes
  undefined and NaN on; the C++ socket engine and the Python service are reached through
  interfaces that are parameters. Strings are lists of code units below 256.
\<close>

end
